(* ===== verification/Prelude.thy ===== *)
theory Prelude
  imports Main "HOL-Library.Word" "HOL-Library.Finite_Map" "HOL-Library.State_Monad"
    "HOL-Library.Char_ord" "HOL-Library.List_Lexorder" "HOL-Library.Product_Lexorder"
begin

text \<open>
  The vocabulary every component shares: Go's scalar types, the error values the
  program returns, the collections the proofs draw on, and generic lemmas on finite
  maps, sorted enumerations and the state monad.

  Go's \<open>uint64\<close> is a \<open>64 word\<close> (arithmetic wraps); \<open>int64\<close>, \<open>time.Duration\<close> and
  \<open>time.Time\<close> are \<open>int\<close> (nanoseconds for the latter two) with the bounds written out
  where the code tests them; \<open>string\<close> and \<open>[]byte\<close> are both byte sequences and both a
  \<open>char list\<close>; a \<open>[]byte\<close> that may be nil is an \<open>option\<close>, \<open>None\<close> being nil.
\<close>

section \<open>Scalar types\<close>

type_synonym u64 = "64 word"
type_synonym bytes = string
type_synonym duration = int
type_synonym instant = int

definition millisecond :: duration where
  "millisecond = 1000000"

definition second :: duration where
  "second = 1000 * millisecond"

definition max_int64 :: int where
  "max_int64 = 9223372036854775807"

definition max_uint64 :: int where
  "max_uint64 = 18446744073709551615"

text \<open>\<open>Duration.Milliseconds()\<close>: integer division that truncates towards zero.\<close>

definition Milliseconds :: "duration \<Rightarrow> int" where
  "Milliseconds d = (if 0 \<le> d then d div millisecond else - ((- d) div millisecond))"

text \<open>\<open>bytes.Equal\<close>: a nil slice equals an empty one.\<close>

definition bytes_Equal :: "bytes option \<Rightarrow> bytes option \<Rightarrow> bool" where
  "bytes_Equal a b = (case_option [] id a = case_option [] id b)"

section \<open>Identifiers and errors\<close>

text \<open>\<open>storage.OrderedID\<close>, with the fields the code reads.\<close>

record ordered_id =
  Namespace :: string
  OrderingScope :: string
  StableKey :: string

datatype ctx_error = Canceled | DeadlineExceeded

datatype ordered_operation = OrderedCreateOperation | OrderedUpdateOperation | OrderedDeleteOperation

datatype cursor_kind = RankedCursorKind | DueCursorKind

datatype cursor_rule = CursorMalformed | CursorUnknownVersion | CursorWrongKind | CursorQueryMismatch

text \<open>
  Every error value an operation can return or inspect: the driver's (\<open>pgx.ErrNoRows\<close>, a
  \<open>*pgconn.PgError\<close> with its SQLSTATE, any other driver failure), the context's, the
  module's own, and the \<open>storage\<close> package's typed errors with the fields the code fills.
\<close>

datatype err =
    ErrNoRows
  | PgError string
  | DriverError
  | CtxError ctx_error
  | Redacted string
  | PlainError string
  | DeadlineRequired string
  | NotImplemented string
  | OptionsError string string
  | InvalidName
  | InvalidLimit
  | KeyNotFound string
  | Conflict string u64
  | Ambiguous string u64 err
  | LeaseHeld string u64
  | LeaseLost string u64
  | OrderedRecordNotFound ordered_id
  | OrderedDeleted ordered_id
  | OrderedRevisionConflict ordered_id u64 u64
  | OrderedRevisionExhausted ordered_id u64
  | OrderedValueTooLarge
  | OrderedAmbiguous ordered_operation ordered_id err
  | InvalidDue
  | InvalidOrderedCursor cursor_kind string cursor_rule
  | OrderExhausted
  | CommitOutcome err
  | EOF

text \<open>A Go function's \<open>(T, error)\<close> is a sum: \<open>Inl\<close> the error, \<open>Inr\<close> the value.\<close>

type_synonym 'a result = "err + 'a"

section \<open>Generic lemmas\<close>

named_theorems run_simps
  \<open>equations that execute one primitive of the effect monad\<close>

lemma sorted_list_of_fset_finsert [simp]:
  "sorted_list_of_fset (finsert x S) = insort x (sorted_list_of_fset (S - {|x|}))"
  by (simp add: sorted_list_of_fset.rep_eq)

lemma sorted_list_of_fset_fempty [simp]: "sorted_list_of_fset {||} = []"
  by (simp add: sorted_list_of_fset.rep_eq)

lemma sorted_sorted_list_of_fset [simp]: "sorted (sorted_list_of_fset S)"
  by (simp add: sorted_list_of_fset.rep_eq)

lemma distinct_sorted_list_of_fset [simp]: "distinct (sorted_list_of_fset S)"
  by (simp add: sorted_list_of_fset.rep_eq)

lemma fmlookup_fmdrop_other [simp]: "k \<noteq> k' \<Longrightarrow> fmlookup (fmdrop k m) k' = fmlookup m k'"
  by simp

lemma uint_less_max [simp]: "uint (x :: u64) \<le> max_uint64"
  using uint_lt2p [of x] by (simp add: max_uint64_def)

lemma uint_succ_u64: "uint x < max_uint64 \<Longrightarrow> uint ((x :: u64) + 1) = uint x + 1"
  by (simp add: max_uint64_def uint_word_ariths(1))

lemma uint_succ_int64: "uint x \<le> max_int64 \<Longrightarrow> uint ((x :: u64) + 1) = uint x + 1"
  by (rule uint_succ_u64) (simp add: max_int64_def max_uint64_def)

lemma word_of_int_eq_iff_range:
  "0 \<le> n \<Longrightarrow> n \<le> max_uint64 \<Longrightarrow> (word_of_int n = (x :: u64)) = (n = uint x)"
  by (auto simp: max_uint64_def take_bit_int_eq_self uint_word_of_int_eq)

lemma millisecond_pos [simp]: "0 < millisecond"
  by (simp add: millisecond_def)

lemma run_state_if [simp]:
  "run_state (if b then m else n) w = (if b then run_state m w else run_state n w)"
  by simp

lemma run_state_case_sum [simp]:
  "run_state (case x of Inl e \<Rightarrow> f e | Inr v \<Rightarrow> g v) w =
   (case x of Inl e \<Rightarrow> run_state (f e) w | Inr v \<Rightarrow> run_state (g v) w)"
  by (simp split: sum.split)

lemma run_state_case_option [simp]:
  "run_state (case x of None \<Rightarrow> n | Some v \<Rightarrow> g v) w =
   (case x of None \<Rightarrow> run_state n w | Some v \<Rightarrow> run_state (g v) w)"
  by (simp split: option.split)

lemma run_state_case_prod [simp]:
  "run_state (case p of (a, b) \<Rightarrow> f a b) w = (case p of (a, b) \<Rightarrow> run_state (f a b) w)"
  by (simp split: prod.split)

text \<open>A step whose error ends the function: \<open>if err != nil { return err }\<close>.\<close>

lemma try_cases:
  assumes "run_state (State_Monad.bind m (\<lambda>r. case r of Inl e \<Rightarrow> State_Monad.return (Inl e) | Inr x \<Rightarrow> f x)) w = (y, w')"
  obtains (Error) e where "run_state m w = (Inl e, w')" "y = Inl e"
  | (Ok) x w1 where "run_state m w = (Inr x, w1)" "run_state (f x) w1 = (y, w')"
proof -
  obtain r w1 where r: "run_state m w = (r, w1)" by (meson surj_pair)
  with assms show thesis by (cases r) (auto intro: that)
qed

end
