(* ===== verification/Database.thy ===== *)
theory Database
  imports Prelude
begin

text \<open>
  The PostgreSQL tables the embedded migrations create (\<open>migrations/0001_ledger_kv.sql\<close>,
  \<open>0002_leases.sql\<close>, \<open>0003_ordered_index.sql\<close> and the \<open>schema_migrations\<close> table of
  \<open>migrations.go\<close>) as finite maps from primary key to row, the CHECK constraints they
  declare, and the row-level writes a statement makes.

  A primary key is unique by the type of the table.  A statement of the program is a
  \<open>statement\<close>: the SQL text the Go code sends, the bound arguments, and the meaning of
  that text on the tables -- a result (rows, or an SQLSTATE) and a list of row writes.
\<close>

section \<open>Rows and tables\<close>

record kv_row =
  kv_revision :: int
  kv_value :: bytes

record lease_row =
  l_epoch :: int
  l_holder :: "bytes option"
  l_expires_at :: "instant option"
  l_revision :: int

record ordered_row =
  o_ranking_scope :: string
  o_revision :: int
  o_order_id :: int
  o_value :: bytes
  o_value_is_nil :: bool
  o_ranked :: bool
  o_rank_value :: int
  o_due_state :: int
  o_due_at :: int
  o_deleted :: bool

type_synonym ordered_key = "string \<times> string \<times> bytes"

record database =
  t_kv :: "(string, kv_row) fmap"
  t_ledger_scopes :: "(string, int) fmap"
  t_ledger_records :: "(string \<times> int, bytes) fmap"
  t_leases :: "(string, lease_row) fmap"
  t_ordered_scopes :: "(string \<times> string, int) fmap"
  t_ordered_records :: "(ordered_key, ordered_row) fmap"
  t_schema_migrations :: "int fset"
  t_ddl :: "string list"

definition empty_database :: database where
  "empty_database = \<lparr>t_kv = fmempty, t_ledger_scopes = fmempty, t_ledger_records = fmempty,
     t_leases = fmempty, t_ordered_scopes = fmempty, t_ordered_records = fmempty,
     t_schema_migrations = {||}, t_ddl = []\<rparr>"

section \<open>The CHECK and FOREIGN KEY constraints\<close>

definition kv_row_ok :: "kv_row \<Rightarrow> bool" where
  "kv_row_ok r \<longleftrightarrow> 0 < kv_revision r \<and> kv_revision r \<le> max_int64"

definition tip_ok :: "int \<Rightarrow> bool" where
  "tip_ok t \<longleftrightarrow> 0 \<le> t \<and> t \<le> max_int64"

definition seq_ok :: "int \<Rightarrow> bool" where
  "seq_ok n \<longleftrightarrow> 0 < n \<and> n \<le> max_int64"

definition lease_row_ok :: "lease_row \<Rightarrow> bool" where
  "lease_row_ok r \<longleftrightarrow> 0 \<le> l_epoch r \<and> l_epoch r \<le> max_int64 \<and>
     0 \<le> l_revision r \<and> l_revision r \<le> max_int64 \<and>
     (l_holder r = None) = (l_expires_at r = None)"

definition next_order_ok :: "int \<Rightarrow> bool" where
  "next_order_ok n \<longleftrightarrow> 0 \<le> n \<and> n \<le> max_uint64"

definition ordered_row_ok :: "ordered_row \<Rightarrow> bool" where
  "ordered_row_ok r \<longleftrightarrow>
     0 < o_revision r \<and> o_revision r \<le> max_uint64 \<and>
     0 < o_order_id r \<and> o_order_id r \<le> max_uint64 \<and>
     length (o_value r) \<le> 1048576 \<and>
     ((o_due_state r = 0 \<and> o_due_at r = 0) \<or> o_due_state r = 1) \<and>
     (o_deleted r \<longrightarrow> \<not> o_ranked r \<and> o_due_state r = 0 \<and> o_due_at r = 0)"

definition constraints :: "database \<Rightarrow> bool" where
  "constraints d \<longleftrightarrow>
     (\<forall>k r. fmlookup (t_kv d) k = Some r \<longrightarrow> kv_row_ok r) \<and>
     (\<forall>n t. fmlookup (t_ledger_scopes d) n = Some t \<longrightarrow> tip_ok t) \<and>
     (\<forall>n s p. fmlookup (t_ledger_records d) (n, s) = Some p \<longrightarrow>
        seq_ok s \<and> n |\<in>| fmdom (t_ledger_scopes d)) \<and>
     (\<forall>n r. fmlookup (t_leases d) n = Some r \<longrightarrow> lease_row_ok r) \<and>
     (\<forall>k n. fmlookup (t_ordered_scopes d) k = Some n \<longrightarrow> next_order_ok n) \<and>
     (\<forall>k r. fmlookup (t_ordered_records d) k = Some r \<longrightarrow> ordered_row_ok r)"

section \<open>Row identities and row writes\<close>

datatype row_key =
    KvRow string
  | ScopeRow string
  | RecordRow string int
  | LeaseRow string
  | OrderScopeRow string string
  | OrderRecordRow string string bytes
  | VersionRow int
  | DdlLog

datatype row_write =
    WKv string "kv_row option"
  | WScope string "int option"
  | WRecord string int "bytes option"
  | WLease string "lease_row option"
  | WOrderScope string string "int option"
  | WOrderRecord string string bytes "ordered_row option"
  | WVersion int
  | WDdl string

fun write_key :: "row_write \<Rightarrow> row_key" where
  "write_key (WKv k _) = KvRow k"
| "write_key (WScope n _) = ScopeRow n"
| "write_key (WRecord n s _) = RecordRow n s"
| "write_key (WLease n _) = LeaseRow n"
| "write_key (WOrderScope ns sc _) = OrderScopeRow ns sc"
| "write_key (WOrderRecord ns sc k _) = OrderRecordRow ns sc k"
| "write_key (WVersion v) = VersionRow v"
| "write_key (WDdl _) = DdlLog"

definition fmset :: "'k \<Rightarrow> 'v option \<Rightarrow> ('k, 'v) fmap \<Rightarrow> ('k, 'v) fmap" where
  "fmset k v m = (case v of None \<Rightarrow> fmdrop k m | Some x \<Rightarrow> fmupd k x m)"

fun apply_write :: "row_write \<Rightarrow> database \<Rightarrow> database" where
  "apply_write (WKv k v) d = d\<lparr>t_kv := fmset k v (t_kv d)\<rparr>"
| "apply_write (WScope n v) d = d\<lparr>t_ledger_scopes := fmset n v (t_ledger_scopes d)\<rparr>"
| "apply_write (WRecord n s v) d = d\<lparr>t_ledger_records := fmset (n, s) v (t_ledger_records d)\<rparr>"
| "apply_write (WLease n v) d = d\<lparr>t_leases := fmset n v (t_leases d)\<rparr>"
| "apply_write (WOrderScope ns sc v) d =
     d\<lparr>t_ordered_scopes := fmset (ns, sc) v (t_ordered_scopes d)\<rparr>"
| "apply_write (WOrderRecord ns sc k v) d =
     d\<lparr>t_ordered_records := fmset (ns, sc, k) v (t_ordered_records d)\<rparr>"
| "apply_write (WVersion v) d = d\<lparr>t_schema_migrations := finsert v (t_schema_migrations d)\<rparr>"
| "apply_write (WDdl s) d = d\<lparr>t_ddl := t_ddl d @ [s]\<rparr>"

definition apply_writes :: "row_write list \<Rightarrow> database \<Rightarrow> database" where
  "apply_writes ws d = fold apply_write ws d"

fun present :: "database \<Rightarrow> row_key \<Rightarrow> bool" where
  "present d (KvRow k) = (k |\<in>| fmdom (t_kv d))"
| "present d (ScopeRow n) = (n |\<in>| fmdom (t_ledger_scopes d))"
| "present d (RecordRow n s) = ((n, s) |\<in>| fmdom (t_ledger_records d))"
| "present d (LeaseRow n) = (n |\<in>| fmdom (t_leases d))"
| "present d (OrderScopeRow ns sc) = ((ns, sc) |\<in>| fmdom (t_ordered_scopes d))"
| "present d (OrderRecordRow ns sc k) = ((ns, sc, k) |\<in>| fmdom (t_ordered_records d))"
| "present d (VersionRow v) = (v |\<in>| t_schema_migrations d)"
| "present d DdlLog = True"

text \<open>The same row in two states of the database.\<close>

fun same_row :: "row_key \<Rightarrow> database \<Rightarrow> database \<Rightarrow> bool" where
  "same_row (KvRow k) d d' = (fmlookup (t_kv d) k = fmlookup (t_kv d') k)"
| "same_row (ScopeRow n) d d' = (fmlookup (t_ledger_scopes d) n = fmlookup (t_ledger_scopes d') n)"
| "same_row (RecordRow n s) d d' =
     (fmlookup (t_ledger_records d) (n, s) = fmlookup (t_ledger_records d') (n, s))"
| "same_row (LeaseRow n) d d' = (fmlookup (t_leases d) n = fmlookup (t_leases d') n)"
| "same_row (OrderScopeRow ns sc) d d' =
     (fmlookup (t_ordered_scopes d) (ns, sc) = fmlookup (t_ordered_scopes d') (ns, sc))"
| "same_row (OrderRecordRow ns sc k) d d' =
     (fmlookup (t_ordered_records d) (ns, sc, k) = fmlookup (t_ordered_records d') (ns, sc, k))"
| "same_row (VersionRow v) d d' = ((v |\<in>| t_schema_migrations d) = (v |\<in>| t_schema_migrations d'))"
| "same_row DdlLog d d' = (t_ddl d = t_ddl d')"

section \<open>Statements\<close>

text \<open>A column value or a bound argument.\<close>

datatype cell =
    CInt int
  | CText string
  | CBytes bytes
  | CBool bool
  | CTime instant
  | CNull

type_synonym row = "cell list"

text \<open>
  \<open>sql_touches\<close> names the rows a writing or locking statement is aimed at;
  \<open>sql_for_update\<close> says that it takes row locks without writing (\<open>FOR UPDATE\<close>).  The
  meaning takes \<open>clock_timestamp()\<close> and the database the statement sees.
\<close>

record statement =
  sql_text :: string
  sql_args :: row
  sql_touches :: "row_key list"
  sql_for_update :: bool
  sql_sem :: "instant \<Rightarrow> database \<Rightarrow> row list result \<times> row_write list"

text \<open>A plain read locks nothing and writes nothing.\<close>

definition read_statement :: "string \<Rightarrow> row \<Rightarrow> (instant \<Rightarrow> database \<Rightarrow> row list result) \<Rightarrow> statement" where
  "read_statement q args f =
     \<lparr>sql_text = q, sql_args = args, sql_touches = [], sql_for_update = False,
      sql_sem = (\<lambda>now d. (f now d, []))\<rparr>"

text \<open>\<open>SELECT ... FOR UPDATE\<close> of one row.\<close>

definition locking_statement ::
  "string \<Rightarrow> row \<Rightarrow> row_key \<Rightarrow> (instant \<Rightarrow> database \<Rightarrow> row list result) \<Rightarrow> statement" where
  "locking_statement q args k f =
     \<lparr>sql_text = q, sql_args = args, sql_touches = [k], sql_for_update = True,
      sql_sem = (\<lambda>now d. (f now d, []))\<rparr>"

definition write_statement ::
  "string \<Rightarrow> row \<Rightarrow> row_key list \<Rightarrow> (instant \<Rightarrow> database \<Rightarrow> row list result \<times> row_write list) \<Rightarrow> statement" where
  "write_statement q args ks f =
     \<lparr>sql_text = q, sql_args = args, sql_touches = ks, sql_for_update = False, sql_sem = f\<rparr>"

text \<open>SQLSTATEs the program's statements can raise on their own.\<close>

definition unique_violation :: err where
  "unique_violation = PgError ''23505''"

definition foreign_key_violation :: err where
  "foreign_key_violation = PgError ''23503''"

definition not_null_violation :: err where
  "not_null_violation = PgError ''23502''"

definition check_violation :: err where
  "check_violation = PgError ''23514''"

definition out_of_range :: err where
  "out_of_range = PgError ''22003''"

text \<open>
  A Go \<open>uint64\<close> bound to a \<open>bigint\<close> parameter: above the signed range the driver cannot
  encode it and the statement is not sent.
\<close>

definition bigint_arg :: "u64 \<Rightarrow> (int \<Rightarrow> row list result \<times> row_write list) \<Rightarrow> row list result \<times> row_write list" where
  "bigint_arg u f = (if uint u \<le> max_int64 then f (uint u) else (Inl DriverError, []))"

text \<open>\<open>Scan\<close> into a Go variable: an error when the column does not fit the variable.\<close>

definition scan_uint64 :: "cell \<Rightarrow> u64 result" where
  "scan_uint64 c = (case c of
     CInt n \<Rightarrow> if 0 \<le> n \<and> n \<le> max_uint64 then Inr (word_of_int n) else Inl DriverError
   | _ \<Rightarrow> Inl DriverError)"

definition scan_int64 :: "cell \<Rightarrow> int result" where
  "scan_int64 c = (case c of
     CInt n \<Rightarrow> if - max_int64 - 1 \<le> n \<and> n \<le> max_int64 then Inr n else Inl DriverError
   | _ \<Rightarrow> Inl DriverError)"

definition scan_bytes :: "cell \<Rightarrow> bytes option result" where
  "scan_bytes c = (case c of CBytes b \<Rightarrow> Inr (Some b) | CNull \<Rightarrow> Inr None | _ \<Rightarrow> Inl DriverError)"

definition scan_text :: "cell \<Rightarrow> string result" where
  "scan_text c = (case c of CText s \<Rightarrow> Inr s | _ \<Rightarrow> Inl DriverError)"

definition scan_bool :: "cell \<Rightarrow> bool result" where
  "scan_bool c = (case c of CBool b \<Rightarrow> Inr b | _ \<Rightarrow> Inl DriverError)"

definition scan_time :: "cell \<Rightarrow> instant result" where
  "scan_time c = (case c of CTime t \<Rightarrow> Inr t | _ \<Rightarrow> Inl DriverError)"

definition scan_time_opt :: "cell \<Rightarrow> instant option result" where
  "scan_time_opt c = (case c of CTime t \<Rightarrow> Inr (Some t) | CNull \<Rightarrow> Inr None | _ \<Rightarrow> Inl DriverError)"

text \<open>\<open>Scan\<close> of a row with one column.\<close>

definition scan_one_uint64 :: "row \<Rightarrow> u64 result" where
  "scan_one_uint64 r = (case r of [n] \<Rightarrow> scan_uint64 n | _ \<Rightarrow> Inl DriverError)"

definition scan_one_text :: "row \<Rightarrow> string result" where
  "scan_one_text r = (case r of [k] \<Rightarrow> scan_text k | _ \<Rightarrow> Inl DriverError)"

text \<open>\<open>QueryRow(...).Scan(...)\<close> as one result.\<close>

definition scanned :: "(row \<Rightarrow> 'a result) \<Rightarrow> row result \<Rightarrow> 'a result" where
  "scanned f r = (case r of Inl e \<Rightarrow> Inl e | Inr x \<Rightarrow> f x)"

section \<open>Lemmas on writes\<close>

lemma fmlookup_fmset [simp]:
  "fmlookup (fmset k v m) k' = (if k = k' then v else fmlookup m k')"
  by (auto simp: fmset_def split: option.splits)

lemma fmdom_fmset: "k' |\<in>| fmdom (fmset k v m) \<longleftrightarrow> (if k = k' then v \<noteq> None else k' |\<in>| fmdom m)"
  by (auto simp: fmset_def split: option.splits)

lemma fmset_Some [simp]: "fmset k (Some v) m = fmupd k v m"
  by (simp add: fmset_def)

lemma fmset_None [simp]: "fmset k None m = fmdrop k m"
  by (simp add: fmset_def)

lemma apply_writes_Nil [simp]: "apply_writes [] d = d"
  by (simp add: apply_writes_def)

lemma apply_writes_Cons [simp]: "apply_writes (x # ws) d = apply_writes ws (apply_write x d)"
  by (simp add: apply_writes_def)

lemma apply_writes_append [simp]: "apply_writes (xs @ ys) d = apply_writes ys (apply_writes xs d)"
  by (simp add: apply_writes_def)

lemma same_row_refl [simp, intro]: "same_row k d d"
  by (cases k) auto

lemma same_row_sym: "same_row k d d' \<Longrightarrow> same_row k d' d"
  by (cases k) auto

lemma same_row_trans: "same_row k d d' \<Longrightarrow> same_row k d' d'' \<Longrightarrow> same_row k d d''"
  by (cases k) auto

lemma apply_write_frame: "write_key x \<noteq> k \<Longrightarrow> same_row k (apply_write x d) d"
  by (cases x; cases k) auto

lemma apply_writes_frame: "k \<notin> write_key ` set ws \<Longrightarrow> same_row k (apply_writes ws d) d"
proof (induction ws arbitrary: d)
  case Nil
  then show ?case by simp
next
  case (Cons x ws)
  then have "same_row k (apply_writes ws (apply_write x d)) (apply_write x d)"
    by simp
  moreover have "same_row k (apply_write x d) d"
    using Cons.prems by (intro apply_write_frame) auto
  ultimately show ?case
    by (auto intro: same_row_trans)
qed

lemma statement_simps [simp]:
  "sql_text (read_statement q args f) = q"
  "sql_args (read_statement q args f) = args"
  "sql_touches (read_statement q args f) = []"
  "sql_for_update (read_statement q args f) = False"
  "sql_sem (read_statement q args f) now d = (f now d, [])"
  "sql_text (locking_statement q args k f) = q"
  "sql_args (locking_statement q args k f) = args"
  "sql_touches (locking_statement q args k f) = [k]"
  "sql_for_update (locking_statement q args k f) = True"
  "sql_sem (locking_statement q args k f) now d = (f now d, [])"
  "sql_text (write_statement q args ks g) = q"
  "sql_args (write_statement q args ks g) = args"
  "sql_touches (write_statement q args ks g) = ks"
  "sql_for_update (write_statement q args ks g) = False"
  "sql_sem (write_statement q args ks g) now d = g now d"
  by (simp_all add: read_statement_def locking_statement_def write_statement_def)

lemma scanned_simps [simp]: "scanned f (Inl e) = Inl e" "scanned f (Inr x) = f x"
  by (simp_all add: scanned_def)

lemma scan_revision [simp]:
  "uint e < max_int64 \<Longrightarrow> scan_one_uint64 [CInt (uint e + 1)] = Inr (e + 1)"
proof -
  assume "uint e < max_int64"
  moreover from this have "word_of_int (uint e + 1) = e + 1"
    by (simp add: word_of_int_eq_iff_range max_int64_def max_uint64_def uint_succ_u64)
  ultimately show ?thesis
    by (simp add: scan_one_uint64_def scan_uint64_def max_int64_def max_uint64_def)
qed

end
