(* ===== verification/Driver.thy ===== *)
theory Driver
  imports Database
begin

text \<open>
  The program's view of the outside: the pgx pool, transactions, the server's and the
  client's clocks, and the caller's context.  None of that code is under \<open>src/\<close>, so what
  it does is not defined here but given: a \<open>world\<close> carries a \<open>script\<close>, one \<open>event\<close> per
  interaction, and every theorem quantifies over it.  An event says what the other sessions
  committed just before the interaction, whether the call was served, refused (an error
  and no effect) or served with the acknowledgement lost (the effect and an error), and
  what the two clocks and \<open>ctx.Err()\<close> read.

  Three documented guarantees of PostgreSQL are built in.  A statement outside a
  transaction takes effect atomically.  The writes of a transaction become visible together
  at commit or not at all.  While a transaction holds a row lock (it wrote the row or
  selected it \<open>FOR UPDATE\<close>) no other session commits a change to that row; and a
  serializable transaction that touches a row changed since its snapshot fails with
  SQLSTATE 40001.  An error that carries an SQLSTATE is an answer of the server, so a
  statement or a commit it answers had no effect.

  \<open>hist\<close> and \<open>sent\<close> are ghost state: every committed change of the database with its author,
  and every statement sent with the context it was sent under, both newest first.
\<close>

section \<open>Contexts, events and the world\<close>

record go_context =
  deadline :: "instant option"

datatype refusal = Sqlstate string | Unreachable

datatype fault = Served | Refused refusal | AckLost

record event =
  ev_others :: "database \<Rightarrow> database"
  ev_fault :: fault
  ev_dbclock :: instant
  ev_clock :: instant
  ev_ctx_err :: "ctx_error option"

record commit =
  by_us :: bool
  pre :: database
  post :: database

record txn =
  tx_serializable :: bool
  tx_snapshot :: "database option"
  tx_writes :: "row_write list"
  tx_locks :: "row_key list"

record world =
  db :: database
  script :: "event list"
  txn :: "txn option"
  hist :: "commit list"
  sent :: "(go_context \<times> string \<times> row) list"

text \<open>Past the end of the script nothing interferes and every call is served.\<close>

definition quiet :: event where
  "quiet = \<lparr>ev_others = id, ev_fault = Served, ev_dbclock = 0, ev_clock = 0, ev_ctx_err = None\<rparr>"

text \<open>An event at which another session makes a change and the call is served.\<close>

definition served :: "(database \<Rightarrow> database) \<Rightarrow> event" where
  "served f = quiet\<lparr>ev_others := f\<rparr>"

definition ack_lost :: event where
  "ack_lost = quiet\<lparr>ev_fault := AckLost\<rparr>"

definition open_world :: "database \<Rightarrow> event list \<Rightarrow> world" where
  "open_world d es = \<lparr>db = d, script = es, txn = None, hist = [], sent = []\<rparr>"

fun refusal_error :: "refusal \<Rightarrow> err" where
  "refusal_error (Sqlstate c) = PgError c"
| "refusal_error Unreachable = DriverError"

definition next_event :: "'z world_scheme \<Rightarrow> event" where
  "next_event w = (case script w of [] \<Rightarrow> quiet | e # _ \<Rightarrow> e)"

definition held_locks :: "'z world_scheme \<Rightarrow> row_key list" where
  "held_locks w = (case txn w of None \<Rightarrow> [] | Some t \<Rightarrow> tx_locks t)"

text \<open>
  The world after the next event's interference: what the other sessions commit, unless it
  would change a row this session has locked (then they are still waiting).
\<close>

definition advance :: "'z world_scheme \<Rightarrow> 'z world_scheme" where
  "advance w =
     (let d' = ev_others (next_event w) (db w) in
      if \<forall>k \<in> set (held_locks w). same_row k (db w) d'
      then w\<lparr>db := d', script := tl (script w),
             hist := \<lparr>by_us = False, pre = db w, post = d'\<rparr> # hist w\<rparr>
      else w\<lparr>script := tl (script w)\<rparr>)"

definition commit_ours :: "row_write list \<Rightarrow> 'z world_scheme \<Rightarrow> 'z world_scheme" where
  "commit_ours ws w =
     (if ws = [] then w
      else w\<lparr>db := apply_writes ws (db w),
             hist := \<lparr>by_us = True, pre = db w, post = apply_writes ws (db w)\<rparr> # hist w\<rparr>)"

definition log_sent :: "go_context \<Rightarrow> statement \<Rightarrow> 'z world_scheme \<Rightarrow> 'z world_scheme" where
  "log_sent ctx s w = w\<lparr>sent := (ctx, sql_text s, sql_args s) # sent w\<rparr>"

section \<open>Clocks and contexts\<close>

text \<open>\<open>time.Now()\<close> and \<open>ctx.Err()\<close>: one interaction each.\<close>

definition time_Now :: "('z world_scheme, instant) state" where
  "time_Now = State (\<lambda>w. (ev_clock (next_event w), w\<lparr>script := tl (script w)\<rparr>))"

definition ctx_Err :: "go_context \<Rightarrow> ('z world_scheme, ctx_error option) state" where
  "ctx_Err ctx = State (\<lambda>w. (ev_ctx_err (next_event w), w\<lparr>script := tl (script w)\<rparr>))"

definition Background :: go_context where
  "Background = \<lparr>deadline = None\<rparr>"

text \<open>\<open>context.WithoutCancel\<close> keeps neither cancellation nor deadline.\<close>

definition WithoutCancel :: "go_context \<Rightarrow> go_context" where
  "WithoutCancel ctx = \<lparr>deadline = None\<rparr>"

definition WithDeadline :: "go_context \<Rightarrow> instant \<Rightarrow> go_context" where
  "WithDeadline ctx t =
     (case deadline ctx of None \<Rightarrow> \<lparr>deadline = Some t\<rparr> | Some u \<Rightarrow> \<lparr>deadline = Some (min u t)\<rparr>)"

definition WithTimeout :: "go_context \<Rightarrow> duration \<Rightarrow> ('z world_scheme, go_context) state" where
  "WithTimeout ctx d = do { t \<leftarrow> time_Now; State_Monad.return (WithDeadline ctx (t + d)) }"

section \<open>The pool: statements outside a transaction\<close>

definition pool_run :: "go_context \<Rightarrow> statement \<Rightarrow> ('z world_scheme, row list result) state" where
  "pool_run ctx s = State (\<lambda>w.
     let ev = next_event w; w1 = log_sent ctx s (advance w) in
     case ev_fault ev of
       Refused r \<Rightarrow> (Inl (refusal_error r), w1)
     | Served \<Rightarrow> (case sql_sem s (ev_dbclock ev) (db w1) of
           (Inl e, _) \<Rightarrow> (Inl e, w1)
         | (Inr rows, ws) \<Rightarrow> (Inr rows, commit_ours ws w1))
     | AckLost \<Rightarrow> (case sql_sem s (ev_dbclock ev) (db w1) of
           (Inl e, _) \<Rightarrow> (Inl DriverError, w1)
         | (Inr rows, ws) \<Rightarrow> (Inl DriverError, commit_ours ws w1)))"

definition first_row :: "row list result \<Rightarrow> row result" where
  "first_row r = (case r of Inl e \<Rightarrow> Inl e | Inr [] \<Rightarrow> Inl ErrNoRows | Inr (x # _) \<Rightarrow> Inr x)"

text \<open>\<open>pool.QueryRow(...)\<close>, \<open>pool.Query(...)\<close> and \<open>pool.Exec(...)\<close>.\<close>

definition pool_QueryRow :: "go_context \<Rightarrow> statement \<Rightarrow> ('z world_scheme, row result) state" where
  "pool_QueryRow ctx s = do { r \<leftarrow> pool_run ctx s; State_Monad.return (first_row r) }"

definition pool_Query :: "go_context \<Rightarrow> statement \<Rightarrow> ('z world_scheme, row list result) state" where
  "pool_Query ctx s = pool_run ctx s"

definition pool_Exec :: "go_context \<Rightarrow> statement \<Rightarrow> ('z world_scheme, unit result) state" where
  "pool_Exec ctx s = do { r \<leftarrow> pool_run ctx s;
     State_Monad.return (case r of Inl e \<Rightarrow> Inl e | Inr _ \<Rightarrow> Inr ()) }"

section \<open>Transactions\<close>

datatype iso_level = ReadCommitted | Serializable

definition BeginTx :: "go_context \<Rightarrow> iso_level \<Rightarrow> ('z world_scheme, unit result) state" where
  "BeginTx ctx lvl = State (\<lambda>w.
     let ev = next_event w; w1 = advance w in
     case ev_fault ev of
       Served \<Rightarrow> (Inr (), w1\<lparr>txn := Some \<lparr>tx_serializable = (lvl = Serializable),
           tx_snapshot = None, tx_writes = [], tx_locks = []\<rparr>\<rparr>)
     | Refused r \<Rightarrow> (Inl (refusal_error r), w1)
     | AckLost \<Rightarrow> (Inl DriverError, w1))"

text \<open>The committed state a statement of the transaction starts from.\<close>

definition tx_base :: "txn \<Rightarrow> database \<Rightarrow> database" where
  "tx_base t d = (case tx_snapshot t of None \<Rightarrow> d | Some s \<Rightarrow> s)"

definition new_locks :: "statement \<Rightarrow> database \<Rightarrow> row_write list \<Rightarrow> row_key list" where
  "new_locks s v ws = (if sql_for_update s then filter (present v) (sql_touches s) else []) @ map write_key ws"

text \<open>
  One statement inside the open transaction.  An error leaves the transaction failed: the
  program never uses it again, and the deferred rollback discards it.
\<close>

definition tx_run :: "go_context \<Rightarrow> statement \<Rightarrow> ('z world_scheme, row list result) state" where
  "tx_run ctx s = State (\<lambda>w.
     let ev = next_event w; w1 = log_sent ctx s (advance w) in
     case txn w1 of None \<Rightarrow> (Inl DriverError, w1) | Some t \<Rightarrow>
     (case ev_fault ev of
       Refused r \<Rightarrow> (Inl (refusal_error r), w1\<lparr>txn := None\<rparr>)
     | AckLost \<Rightarrow> (Inl DriverError, w1\<lparr>txn := None\<rparr>)
     | Served \<Rightarrow>
        (let base = tx_base t (db w1); v = apply_writes (tx_writes t) base in
         if tx_serializable t \<and> \<not> (\<forall>k \<in> set (sql_touches s). same_row k base (db w1))
         then (Inl (PgError ''40001''), w1\<lparr>txn := None\<rparr>)
         else (case sql_sem s (ev_dbclock ev) v of
             (Inl e, _) \<Rightarrow> (Inl e, w1\<lparr>txn := None\<rparr>)
           | (Inr rows, ws) \<Rightarrow> (Inr rows, w1\<lparr>txn := Some (t\<lparr>
                 tx_snapshot := (if tx_serializable t then Some base else tx_snapshot t),
                 tx_writes := tx_writes t @ ws,
                 tx_locks := new_locks s v ws @ tx_locks t\<rparr>)\<rparr>)))))"

definition tx_QueryRow :: "go_context \<Rightarrow> statement \<Rightarrow> ('z world_scheme, row result) state" where
  "tx_QueryRow ctx s = do { r \<leftarrow> tx_run ctx s; State_Monad.return (first_row r) }"

definition tx_Exec :: "go_context \<Rightarrow> statement \<Rightarrow> ('z world_scheme, unit result) state" where
  "tx_Exec ctx s = do { r \<leftarrow> tx_run ctx s;
     State_Monad.return (case r of Inl e \<Rightarrow> Inl e | Inr _ \<Rightarrow> Inr ()) }"

definition tx_Commit :: "go_context \<Rightarrow> ('z world_scheme, unit result) state" where
  "tx_Commit ctx = State (\<lambda>w.
     let ev = next_event w; w1 = advance w in
     case txn w1 of None \<Rightarrow> (Inl DriverError, w1) | Some t \<Rightarrow>
     (let w2 = w1\<lparr>txn := None\<rparr> in
      case ev_fault ev of
        Served \<Rightarrow> (Inr (), commit_ours (tx_writes t) w2)
      | Refused r \<Rightarrow> (Inl (refusal_error r), w2)
      | AckLost \<Rightarrow> (Inl DriverError, commit_ours (tx_writes t) w2)))"

text \<open>The deferred \<open>tx.Rollback\<close>: its result is discarded, and after a commit it does nothing.\<close>

definition Rollback :: "('z world_scheme, unit) state" where
  "Rollback = State (\<lambda>w. ((), w\<lparr>txn := None\<rparr>))"

section \<open>What happened between two worlds\<close>

text \<open>No acknowledgement is lost.\<close>

definition reliable :: "event list \<Rightarrow> bool" where
  "reliable es \<longleftrightarrow> (\<forall>ev \<in> set es. ev_fault ev \<noteq> AckLost)"

definition commits :: "'z world_scheme \<Rightarrow> 'z world_scheme \<Rightarrow> commit list" where
  "commits w w' = take (length (hist w') - length (hist w)) (hist w')"

definition our_commits :: "'z world_scheme \<Rightarrow> 'z world_scheme \<Rightarrow> commit list" where
  "our_commits w w' = filter by_us (commits w w')"

text \<open>Every committed state of the database from \<open>w\<close> to \<open>w'\<close>, newest first.\<close>

definition states :: "'z world_scheme \<Rightarrow> 'z world_scheme \<Rightarrow> database list" where
  "states w w' = db w' # map pre (commits w w')"

text \<open>The commits, newest first, lead from the first database to the second.\<close>

fun chain :: "database \<Rightarrow> commit list \<Rightarrow> database \<Rightarrow> bool" where
  "chain d [] d' = (d = d')"
| "chain d (c # cs) d' = (post c = d' \<and> chain d cs (pre c))"

text \<open>
  \<open>evolves cs w w'\<close>: from \<open>w\<close> to \<open>w'\<close> exactly the commits \<open>cs\<close> happened, those of other
  sessions being the script's.
\<close>

definition evolves :: "commit list \<Rightarrow> 'z world_scheme \<Rightarrow> 'z world_scheme \<Rightarrow> bool" where
  "evolves cs w w' \<longleftrightarrow> hist w' = cs @ hist w \<and> chain (db w) cs (db w') \<and>
     set (script w') \<subseteq> set (script w) \<and>
     (\<forall>c \<in> set cs. \<not> by_us c \<longrightarrow> (\<exists>ev \<in> insert quiet (set (script w)). post c = ev_others ev (pre c)))"

definition others_only :: "'z world_scheme \<Rightarrow> 'z world_scheme \<Rightarrow> bool" where
  "others_only w w' \<longleftrightarrow> (\<exists>cs. evolves cs w w' \<and> (\<forall>c \<in> set cs. \<not> by_us c))"

lemma chain_append [simp]: "chain d (xs @ ys) d' \<longleftrightarrow> (\<exists>m. chain d ys m \<and> chain m xs d')"
  by (induction xs arbitrary: d') auto

lemma evolves_refl [simp, intro]: "evolves [] w w"
  by (simp add: evolves_def)

lemma evolves_trans:
  "evolves cs w w' \<Longrightarrow> evolves cs' w' w'' \<Longrightarrow> evolves (cs' @ cs) w w''"
  by (fastforce simp: evolves_def)

lemma evolves_commits: "evolves cs w w' \<Longrightarrow> commits w w' = cs"
  by (simp add: evolves_def commits_def)

lemma evolves_ours: "evolves cs w w' \<Longrightarrow> our_commits w w' = filter by_us cs"
  by (simp add: our_commits_def evolves_commits)

lemma evolves_states: "evolves cs w w' \<Longrightarrow> states w w' = db w' # map pre cs"
  by (simp add: states_def evolves_commits)

lemma others_only_refl [simp, intro]: "others_only w w"
  by (auto simp: others_only_def intro: exI [of _ "[]"])

lemma others_only_trans [trans]: "others_only w w' \<Longrightarrow> others_only w' w'' \<Longrightarrow> others_only w w''"
  by (fastforce simp: others_only_def intro: evolves_trans)

lemma others_onlyE:
  assumes "others_only w w'"
  obtains cs where "evolves cs w w'" "\<forall>c \<in> set cs. \<not> by_us c"
  using assms by (auto simp: others_only_def)

lemma others_only_ours: "others_only w w' \<Longrightarrow> our_commits w w' = []"
  by (auto simp: others_only_def evolves_ours filter_empty_conv)

text \<open>Only the fields \<open>db\<close>, \<open>script\<close> and \<open>hist\<close> matter to \<open>evolves\<close>.\<close>

lemma evolves_cong:
  "db w2 = db w1 \<Longrightarrow> hist w2 = hist w1 \<Longrightarrow> script w2 = script w1 \<Longrightarrow>
   evolves cs w w2 = evolves cs w w1"
  by (simp add: evolves_def)

lemma others_only_cong:
  "db w2 = db w1 \<Longrightarrow> hist w2 = hist w1 \<Longrightarrow> script w2 = script w1 \<Longrightarrow>
   others_only w w2 = others_only w w1"
  by (simp add: others_only_def evolves_def)

definition leads_to :: "'z world_scheme \<Rightarrow> 'z world_scheme \<Rightarrow> bool" where
  "leads_to w w' \<longleftrightarrow> (\<exists>cs. evolves cs w w')"

lemma leads_to_refl [simp, intro]: "leads_to w w"
  by (auto simp: leads_to_def intro: exI [of _ "[]"])

lemma leads_to_trans [trans]: "leads_to w w' \<Longrightarrow> leads_to w' w'' \<Longrightarrow> leads_to w w''"
  by (auto simp: leads_to_def intro: evolves_trans)

lemma others_only_leads_to [intro]: "others_only w w' \<Longrightarrow> leads_to w w'"
  by (auto simp: leads_to_def others_only_def)

lemma our_commits_trans:
  "leads_to w w1 \<Longrightarrow> leads_to w1 w2 \<Longrightarrow> our_commits w w2 = our_commits w1 w2 @ our_commits w w1"
  by (auto simp: leads_to_def evolves_ours evolves_ours [OF evolves_trans])

lemma chain_start: "chain d cs d' \<Longrightarrow> d = d' \<or> d \<in> pre ` set cs"
  by (induction cs arbitrary: d') auto

lemma state_between:
  assumes "leads_to w w1" and "leads_to w1 w2"
  shows "db w1 \<in> set (states w w2)"
proof -
  from assms obtain cs cs' where cs: "evolves cs w w1" "evolves cs' w1 w2"
    by (auto simp: leads_to_def)
  have "chain (db w1) cs' (db w2)"
    using cs(2) by (simp add: evolves_def)
  then show ?thesis
    using chain_start evolves_states [OF evolves_trans [OF cs]] by fastforce
qed

lemma leads_to_reliable: "leads_to w w' \<Longrightarrow> reliable (script w) \<Longrightarrow> reliable (script w')"
  by (auto simp: leads_to_def evolves_def reliable_def)

lemma final_state: "db w' \<in> set (states w w')"
  by (simp add: states_def)

section \<open>The primitives, seen from outside\<close>

lemma next_event_mem: "next_event w \<in> insert quiet (set (script w))"
  by (auto simp: next_event_def split: list.splits)

lemma reliable_next: "reliable (script w) \<Longrightarrow> ev_fault (next_event w) \<noteq> AckLost"
  by (auto simp: reliable_def next_event_def quiet_def split: list.splits)

lemma set_tl_subset: "set (tl xs) \<subseteq> set xs"
  by (cases xs) auto

lemma advance_frame [simp]:
  "txn (advance w) = txn w" "sent (advance w) = sent w" "script (advance w) = tl (script w)"
  by (auto simp: advance_def Let_def)

lemma held_locks_advance [simp]: "held_locks (advance w) = held_locks w"
  by (simp add: held_locks_def)

lemma others_only_advance: "others_only w (advance w)"
proof (cases "\<forall>k \<in> set (held_locks w). same_row k (db w) (ev_others (next_event w) (db w))")
  case True
  let ?c = "\<lparr>by_us = False, pre = db w, post = ev_others (next_event w) (db w)\<rparr>"
  have "evolves [?c] w (advance w)"
    using True next_event_mem [of w] set_tl_subset [of "script w"]
    by (auto simp: evolves_def advance_def Let_def)
  then show ?thesis
    unfolding others_only_def by (intro exI [of _ "[?c]"]) simp
next
  case False
  then have "evolves [] w (advance w)"
    using set_tl_subset [of "script w"] by (auto simp: evolves_def advance_def Let_def)
  then show ?thesis
    unfolding others_only_def by (intro exI [of _ "[]"]) simp
qed

text \<open>A world whose script is used up: nothing interferes, every call is served.\<close>

lemma quiet_simps [simp]:
  "ev_others quiet = id" "ev_fault quiet = Served" "ev_dbclock quiet = 0" "ev_clock quiet = 0"
  "ev_ctx_err quiet = None"
  by (simp_all add: quiet_def)

lemma next_event_quiet [simp]: "script w = [] \<Longrightarrow> next_event w = quiet"
  by (simp add: next_event_def)

lemma next_event_Cons [simp]: "script w = e # es \<Longrightarrow> next_event w = e"
  by (simp add: next_event_def)

lemma db_advance_quiet [simp]: "script w = [] \<Longrightarrow> db (advance w) = db w"
  by (simp add: advance_def Let_def)

lemma open_world_simps [simp]:
  "db (open_world d es) = d" "script (open_world d es) = es" "txn (open_world d es) = None"
  "hist (open_world d es) = []" "sent (open_world d es) = []"
  by (simp_all add: open_world_def)

text \<open>A locked row survives the interference.\<close>

lemma advance_locked: "k \<in> set (held_locks w) \<Longrightarrow> same_row k (db w) (db (advance w))"
  by (auto simp: advance_def Let_def)

lemma others_only_fields [simp]:
  "others_only w (w1\<lparr>txn := t\<rparr>) = others_only w w1"
  "others_only w (log_sent ctx s w1) = others_only w w1"
  "others_only w (w\<lparr>script := tl (script w)\<rparr>)"
  using set_tl_subset [of "script w"]
  by (auto simp: others_only_def evolves_def log_sent_def intro: exI [of _ "[]"])

lemma log_sent_frame [simp]:
  "db (log_sent ctx s w) = db w" "txn (log_sent ctx s w) = txn w"
  "hist (log_sent ctx s w) = hist w" "script (log_sent ctx s w) = script w"
  "sent (log_sent ctx s w) = (ctx, sql_text s, sql_args s) # sent w"
  by (simp_all add: log_sent_def)

lemma commit_ours_frame [simp]:
  "db (commit_ours ws w) = apply_writes ws (db w)" "txn (commit_ours ws w) = txn w"
  "sent (commit_ours ws w) = sent w" "script (commit_ours ws w) = script w"
  by (simp_all add: commit_ours_def)

lemma evolves_commit_ours:
  "evolves (if ws = [] then [] else [\<lparr>by_us = True, pre = db w, post = apply_writes ws (db w)\<rparr>])
     w (commit_ours ws w)"
  by (simp add: evolves_def commit_ours_def)

lemma leads_to_commit_ours [simp, intro]: "leads_to w (commit_ours ws w)"
  using evolves_commit_ours [of ws w] by (auto simp: leads_to_def)

lemma our_commits_commit_ours:
  "our_commits w (commit_ours ws w) =
     (if ws = [] then [] else [\<lparr>by_us = True, pre = db w, post = apply_writes ws (db w)\<rparr>])"
  using evolves_ours [OF evolves_commit_ours [of ws w]] by simp

lemma leads_to_fields [simp]:
  "leads_to w (w1\<lparr>txn := t\<rparr>) = leads_to w w1"
  by (simp add: leads_to_def evolves_def)

lemma commit_ours_Nil [simp]: "commit_ours [] w = w"
  by (simp add: commit_ours_def)

lemma time_Now_run [simp]:
  "run_state time_Now w = (ev_clock (next_event w), w\<lparr>script := tl (script w)\<rparr>)"
  by (simp add: time_Now_def)

lemma ctx_Err_run [simp]:
  "run_state (ctx_Err ctx) w = (ev_ctx_err (next_event w), w\<lparr>script := tl (script w)\<rparr>)"
  by (simp add: ctx_Err_def)

lemma Rollback_run [simp]: "run_state Rollback w = ((), w\<lparr>txn := None\<rparr>)"
  by (simp add: Rollback_def)

lemma first_row_simps [simp]:
  "first_row (Inl e) = Inl e" "first_row (Inr []) = Inl ErrNoRows" "first_row (Inr (x # xs)) = Inr x"
  by (simp_all add: first_row_def)

text \<open>
  A pool call: refused, answered with an error by the statement itself, or executed on the
  state the other sessions left -- and then acknowledged or not.
\<close>

lemma pool_run_cases:
  assumes "run_state (pool_run ctx s) w = (r, w')"
  obtains (Failed) e where "r = Inl e" "e \<noteq> ErrNoRows \<or> (\<exists>now d. fst (sql_sem s now d) = Inl e)"
      "others_only w w'" "txn w' = txn w"
  | (Done) w1 now rows ws where "others_only w w1" "sql_sem s now (db w1) = (Inr rows, ws)"
      "w' = commit_ours ws w1" "txn w1 = txn w"
      "(r = Inr rows \<and> ev_fault (next_event w) = Served) \<or>
       (r = Inl DriverError \<and> ev_fault (next_event w) = AckLost)"
proof -
  let ?w1 = "log_sent ctx s (advance w)"
  have oo: "others_only w ?w1"
    using others_only_advance [of w] by simp
  have ref: "refusal_error x \<noteq> ErrNoRows" for x
    by (cases x) auto
  obtain q ws where q: "sql_sem s (ev_dbclock (next_event w)) (db ?w1) = (q, ws)"
    by (meson surj_pair)
  note run = assms [unfolded pool_run_def, simplified Let_def, simplified]
  show thesis
  proof (cases "ev_fault (next_event w)")
    case Served
    show thesis
    proof (cases q)
      case (Inl e)
      have "fst (sql_sem s (ev_dbclock (next_event w)) (db ?w1)) = Inl e"
        using Inl q by simp
      then have "\<exists>now d. fst (sql_sem s now d) = Inl e" by blast
      with Inl run Served q oo show thesis by (intro Failed [of e]) auto
    next
      case (Inr rows)
      with run Served q oo show thesis by (intro Done [of ?w1 _ rows ws]) auto
    qed
  next
    case (Refused x)
    with run oo ref show thesis by (intro Failed [of "refusal_error x"]) auto
  next
    case AckLost
    show thesis
    proof (cases q)
      case (Inl e)
      with run AckLost q oo show thesis by (intro Failed [of DriverError]) auto
    next
      case (Inr rows)
      with run AckLost q oo show thesis by (intro Done [of ?w1 _ rows ws]) auto
    qed
  qed
qed

lemma pool_QueryRow_cases:
  assumes "run_state (pool_QueryRow ctx s) w = (r, w')"
  obtains (Failed) e where "r = Inl e" "e \<noteq> ErrNoRows \<or> (\<exists>now d. fst (sql_sem s now d) = Inl e)"
      "others_only w w'" "txn w' = txn w"
  | (Done) w1 now rows ws where "others_only w w1" "sql_sem s now (db w1) = (Inr rows, ws)"
      "w' = commit_ours ws w1" "txn w1 = txn w"
      "(r = first_row (Inr rows) \<and> ev_fault (next_event w) = Served) \<or>
       (r = Inl DriverError \<and> ev_fault (next_event w) = AckLost)"
proof -
  obtain q where q: "run_state (pool_run ctx s) w = (q, w')" and r: "r = first_row q"
    using assms by (auto simp: pool_QueryRow_def split: prod.splits)
  from q show thesis
  proof (cases rule: pool_run_cases)
    case (Failed e)
    with r show thesis by (intro that(1) [of e]) auto
  next
    case (Done w1 now rows ws)
    with r show thesis by (intro that(2) [of w1 now rows ws]) auto
  qed
qed

text \<open>A read through the pool: it fails, or it sees one committed state and changes nothing.\<close>

lemma pool_read_cases:
  assumes "run_state (pool_run ctx s) w = (r, w')"
    and pure: "\<And>now d. sql_sem s now d = (Inr (g d), [])"
  obtains (Failed) e where "r = Inl e" "e \<noteq> ErrNoRows" "others_only w w'" "txn w' = txn w"
  | (Read) "r = Inr (g (db w'))" "others_only w w'" "txn w' = txn w"
  using assms(1)
proof (cases rule: pool_run_cases)
  case (Failed e)
  with pure show thesis by (intro that(1) [of e]) auto
next
  case (Done w1 now rows ws)
  with pure show thesis
    by (cases "ev_fault (next_event w)") (auto intro: that)
qed

lemma BeginTx_cases:
  assumes "run_state (BeginTx ctx lvl) w = (r, w')"
  obtains (Failed) e where "r = Inl e" "e \<noteq> ErrNoRows" "others_only w w'" "txn w' = txn w"
  | (Begun) "r = Inr ()" "others_only w w'"
      "txn w' = Some \<lparr>tx_serializable = (lvl = Serializable), tx_snapshot = None,
         tx_writes = [], tx_locks = []\<rparr>"
proof -
  have oo: "others_only w (advance w)" by (rule others_only_advance)
  have ref: "refusal_error x \<noteq> ErrNoRows" for x by (cases x) auto
  note run = assms [unfolded BeginTx_def, simplified Let_def, simplified]
  show thesis
  proof (cases "ev_fault (next_event w)")
    case Served
    with run oo show thesis by (intro Begun) auto
  next
    case (Refused x)
    with run oo ref show thesis by (intro Failed [of "refusal_error x"]) auto
  next
    case AckLost
    with run oo show thesis by (intro Failed [of DriverError]) auto
  qed
qed

lemma tx_run_cases:
  assumes "run_state (tx_run ctx s) w = (r, w')" and t: "txn w = Some t"
  obtains (Failed) e where "r = Inl e" "e \<noteq> ErrNoRows \<or> (\<exists>now d. fst (sql_sem s now d) = Inl e)"
      "others_only w w'" "txn w' = None"
  | (Done) now rows ws where "r = Inr rows" "others_only w w'"
      "sql_sem s now (apply_writes (tx_writes t) (tx_base t (db w'))) = (Inr rows, ws)"
      "txn w' = Some (t\<lparr>
         tx_snapshot := (if tx_serializable t then Some (tx_base t (db w')) else tx_snapshot t),
         tx_writes := tx_writes t @ ws,
         tx_locks := new_locks s (apply_writes (tx_writes t) (tx_base t (db w'))) ws @ tx_locks t\<rparr>)"
      "tx_serializable t \<longrightarrow> (\<forall>k \<in> set (sql_touches s). same_row k (tx_base t (db w')) (db w'))"
      "\<forall>k \<in> set (tx_locks t). same_row k (db w) (db w')"
proof -
  let ?w1 = "log_sent ctx s (advance w)"
  let ?base = "tx_base t (db ?w1)"
  have oo: "others_only w ?w1"
    using others_only_advance [of w] by simp
  have ref: "refusal_error x \<noteq> ErrNoRows" for x by (cases x) auto
  have locked: "\<forall>k \<in> set (tx_locks t). same_row k (db w) (db ?w1)"
    using advance_locked [of _ w] t by (simp add: held_locks_def)
  obtain q ws where q: "sql_sem s (ev_dbclock (next_event w)) (apply_writes (tx_writes t) ?base) = (q, ws)"
    by (meson surj_pair)
  note run = assms(1) [unfolded tx_run_def, simplified Let_def, simplified, simplified t, simplified]
  show thesis
  proof (cases "ev_fault (next_event w)")
    case Served
    note srv = this
    show thesis
    proof (cases "tx_serializable t \<and> \<not> (\<forall>k \<in> set (sql_touches s). same_row k ?base (db ?w1))")
      case True
      with run srv oo show thesis by (intro Failed [of "PgError ''40001''"]) auto
    next
      case False
      show thesis
      proof (cases q)
        case (Inl e)
        have "\<exists>now d. fst (sql_sem s now d) = Inl e"
          using Inl q by (metis fst_conv)
        with Inl run srv False q oo show thesis by (intro Failed [of e]) auto
      next
        case (Inr rows)
        with run srv False q oo locked show thesis
          by (intro Done [of rows "ev_dbclock (next_event w)" ws]) (auto split: if_splits)
      qed
    qed
  next
    case (Refused x)
    with run oo ref show thesis by (intro Failed [of "refusal_error x"]) auto
  next
    case AckLost
    with run oo show thesis by (intro Failed [of DriverError]) auto
  qed
qed

lemma tx_Commit_cases:
  assumes "run_state (tx_Commit ctx) w = (r, w')" and t: "txn w = Some t"
  obtains (Failed) x where "r = Inl (refusal_error x)" "others_only w w'" "txn w' = None"
      "ev_fault (next_event w) = Refused x"
  | (Committed) w1 where "others_only w w1" "txn w1 = None"
      "\<forall>k \<in> set (tx_locks t). same_row k (db w) (db w1)"
      "w' = commit_ours (tx_writes t) w1"
      "(r = Inr () \<and> ev_fault (next_event w) = Served) \<or>
       (r = Inl DriverError \<and> ev_fault (next_event w) = AckLost)"
proof -
  let ?w1 = "(advance w)\<lparr>txn := None\<rparr>"
  have oo: "others_only w ?w1"
    using others_only_advance [of w] by simp
  have locked: "\<forall>k \<in> set (tx_locks t). same_row k (db w) (db ?w1)"
    using advance_locked [of _ w] t by (simp add: held_locks_def)
  note run = assms(1) [unfolded tx_Commit_def, simplified Let_def, simplified, simplified t, simplified]
  show thesis
  proof (cases "ev_fault (next_event w)")
    case Served
    with run oo locked show thesis by (intro Committed [of ?w1]) auto
  next
    case (Refused x)
    with run oo show thesis by (intro Failed [of x]) auto
  next
    case AckLost
    with run oo locked show thesis by (intro Committed [of ?w1]) auto
  qed
qed

section \<open>Guarantees that compose\<close>

text \<open>
  \<open>guarantees R m\<close>: started outside a transaction, \<open>m\<close> ends outside one, and every change it
  commits is an \<open>R\<close>-step of the database.  \<open>sends P m\<close>: every statement \<open>m\<close> sends satisfies
  \<open>P\<close>.  Both follow from the parts of a program.
\<close>

definition guarantees :: "(database \<Rightarrow> database \<Rightarrow> bool) \<Rightarrow> ('z world_scheme, 'a) state \<Rightarrow> bool" where
  "guarantees R m \<longleftrightarrow> (\<forall>w. txn w = None \<longrightarrow> txn (snd (run_state m w)) = None \<and>
     (\<exists>cs. evolves cs w (snd (run_state m w)) \<and> (\<forall>c \<in> set cs. by_us c \<longrightarrow> R (pre c) (post c))))"

definition sends :: "(go_context \<times> string \<times> row \<Rightarrow> bool) \<Rightarrow> ('z world_scheme, 'a) state \<Rightarrow> bool" where
  "sends P m \<longleftrightarrow> (\<forall>w. \<exists>xs. sent (snd (run_state m w)) = xs @ sent w \<and> (\<forall>x \<in> set xs. P x))"

text \<open>The script's other sessions keep an invariant.\<close>

definition keeps :: "(database \<Rightarrow> bool) \<Rightarrow> event list \<Rightarrow> bool" where
  "keeps I es \<longleftrightarrow> (\<forall>ev \<in> set es. \<forall>d. I d \<longrightarrow> I (ev_others ev d))"

named_theorems guarantee_intros

named_theorems sends_intros

lemma guaranteesI:
  assumes "\<And>w r w'. run_state m w = (r, w') \<Longrightarrow> txn w = None \<Longrightarrow>
     txn w' = None \<and> (\<exists>cs. evolves cs w w' \<and> (\<forall>c \<in> set cs. by_us c \<longrightarrow> R (pre c) (post c)))"
  shows "guarantees R m"
  unfolding guarantees_def
proof (intro allI impI)
  fix w :: "'a world_scheme"
  assume "txn w = None"
  with assms [of w "fst (run_state m w)" "snd (run_state m w)"]
  show "txn (snd (run_state m w)) = None \<and>
     (\<exists>cs. evolves cs w (snd (run_state m w)) \<and> (\<forall>c \<in> set cs. by_us c \<longrightarrow> R (pre c) (post c)))"
    by simp
qed

lemma guaranteesE:
  assumes "guarantees R m" "run_state m w = (r, w')" "txn w = None"
  obtains cs where "txn w' = None" "evolves cs w w'" "\<forall>c \<in> set cs. by_us c \<longrightarrow> R (pre c) (post c)"
proof -
  from assms(1) [unfolded guarantees_def, rule_format, OF assms(3)] assms(2) show thesis
    by (auto intro: that)
qed

lemma guaranteesI_others:
  assumes "\<And>w r w'. run_state m w = (r, w') \<Longrightarrow> txn w = None \<Longrightarrow> others_only w w' \<and> txn w' = None"
  shows "guarantees R m"
proof (rule guaranteesI)
  fix w r w'
  assume "run_state m w = (r, w')" "txn w = None"
  with assms have "others_only w w'" "txn w' = None" by blast+
  then show "txn w' = None \<and> (\<exists>cs. evolves cs w w' \<and> (\<forall>c \<in> set cs. by_us c \<longrightarrow> R (pre c) (post c)))"
    unfolding others_only_def by blast
qed

lemma guarantees_return [guarantee_intros]: "guarantees R (State_Monad.return x)"
  by (rule guaranteesI_others) simp

lemma guarantees_bind [guarantee_intros]:
  assumes m: "guarantees R m" and f: "\<And>x. guarantees R (f x)"
  shows "guarantees R (State_Monad.bind m f)"
proof (rule guaranteesI)
  fix w y w2
  assume run: "run_state (m \<bind> f) w = (y, w2)" and none: "txn w = None"
  obtain x w1 where 1: "run_state m w = (x, w1)" by (meson surj_pair)
  with run have 2: "run_state (f x) w1 = (y, w2)" by simp
  from m 1 none obtain cs where cs: "txn w1 = None" "evolves cs w w1"
      "\<forall>c \<in> set cs. by_us c \<longrightarrow> R (pre c) (post c)"
    by (rule guaranteesE)
  from f [of x] 2 cs(1) obtain cs' where cs': "txn w2 = None" "evolves cs' w1 w2"
      "\<forall>c \<in> set cs'. by_us c \<longrightarrow> R (pre c) (post c)"
    by (rule guaranteesE)
  have "evolves (cs' @ cs) w w2"
    using cs(2) cs'(2) by (rule evolves_trans)
  with cs cs' show "txn w2 = None \<and>
     (\<exists>cs. evolves cs w w2 \<and> (\<forall>c \<in> set cs. by_us c \<longrightarrow> R (pre c) (post c)))"
    by (auto intro!: exI [of _ "cs' @ cs"])
qed

lemma guarantees_case [guarantee_intros]:
  "(b \<Longrightarrow> guarantees R m) \<Longrightarrow> (\<not> b \<Longrightarrow> guarantees R m') \<Longrightarrow> guarantees R (if b then m else m')"
  "(\<And>e. guarantees R (f e)) \<Longrightarrow> (\<And>v. guarantees R (g v)) \<Longrightarrow>
   guarantees R (case x of Inl e \<Rightarrow> f e | Inr v \<Rightarrow> g v)"
  "guarantees R m \<Longrightarrow> (\<And>v. guarantees R (h v)) \<Longrightarrow>
   guarantees R (case y of None \<Rightarrow> m | Some v \<Rightarrow> h v)"
  "(\<And>a b. guarantees R (k a b)) \<Longrightarrow> guarantees R (case p of (a, b) \<Rightarrow> k a b)"
  by (auto split: sum.split option.split prod.split)

lemma guarantees_clock [guarantee_intros]:
  "guarantees R time_Now" "guarantees R (ctx_Err ctx)" "guarantees R (WithTimeout ctx d)"
  by (auto intro!: guaranteesI_others guarantee_intros simp: WithTimeout_def)

lemma guarantees_pool [guarantee_intros]:
  assumes "\<And>now d rows ws. sql_sem s now d = (Inr rows, ws) \<Longrightarrow> ws \<noteq> [] \<Longrightarrow> R d (apply_writes ws d)"
  shows "guarantees R (pool_run ctx s)"
proof (rule guaranteesI)
  fix w :: "'a world_scheme" and r w'
  assume none: "txn w = None" and run: "run_state (pool_run ctx s) w = (r, w')"
  from run show "txn w' = None \<and> (\<exists>cs. evolves cs w w' \<and> (\<forall>c \<in> set cs. by_us c \<longrightarrow> R (pre c) (post c)))"
  proof (cases rule: pool_run_cases)
    case (Failed e)
    with none show ?thesis by (auto simp: others_only_def)
  next
    case (Done w1 now rows ws)
    then obtain cs where cs: "evolves cs w w1" "\<forall>c \<in> set cs. \<not> by_us c"
      by (auto simp: others_only_def)
    have "evolves ((if ws = [] then [] else [\<lparr>by_us = True, pre = db w1, post = apply_writes ws (db w1)\<rparr>]) @ cs) w w'"
      using evolves_trans [OF cs(1) evolves_commit_ours [of ws w1]] Done(3) by simp
    moreover have "txn w' = None"
      using Done(3,4) none by simp
    moreover have "ws \<noteq> [] \<Longrightarrow> R (db w1) (apply_writes ws (db w1))"
      using assms [OF Done(2)] by simp
    ultimately show ?thesis
      using cs(2) by (fastforce split: if_splits)
  qed
qed

lemma guarantees_pool_calls [guarantee_intros]:
  assumes "\<And>now d rows ws. sql_sem s now d = (Inr rows, ws) \<Longrightarrow> ws \<noteq> [] \<Longrightarrow> R d (apply_writes ws d)"
  shows "guarantees R (pool_QueryRow ctx s)" "guarantees R (pool_Query ctx s)" "guarantees R (pool_Exec ctx s)"
  unfolding pool_QueryRow_def pool_Query_def pool_Exec_def
  by (intro guarantee_intros assms; assumption)+

lemma sends_return [sends_intros]: "sends P (State_Monad.return x)"
  by (simp add: sends_def)

lemma sends_bind [sends_intros]:
  assumes m: "sends P m" and f: "\<And>x. sends P (f x)"
  shows "sends P (State_Monad.bind m f)"
  unfolding sends_def
proof
  fix w :: "'a world_scheme"
  obtain x w1 where 1: "run_state m w = (x, w1)" by (meson surj_pair)
  obtain y w2 where 2: "run_state (f x) w1 = (y, w2)" by (meson surj_pair)
  from m 1 obtain xs where "sent w1 = xs @ sent w" "\<forall>x \<in> set xs. P x"
    unfolding sends_def by (metis snd_conv)
  moreover from f [of x] 2 obtain ys where "sent w2 = ys @ sent w1" "\<forall>x \<in> set ys. P x"
    unfolding sends_def by (metis snd_conv)
  ultimately show "\<exists>xs. sent (snd (run_state (m \<bind> f) w)) = xs @ sent w \<and> (\<forall>x \<in> set xs. P x)"
    using 1 2 by (auto intro!: exI [of _ "ys @ xs"])
qed

lemma sends_case [sends_intros]:
  "(b \<Longrightarrow> sends P m) \<Longrightarrow> (\<not> b \<Longrightarrow> sends P m') \<Longrightarrow> sends P (if b then m else m')"
  "(\<And>e. sends P (f e)) \<Longrightarrow> (\<And>v. sends P (g v)) \<Longrightarrow> sends P (case x of Inl e \<Rightarrow> f e | Inr v \<Rightarrow> g v)"
  "sends P m \<Longrightarrow> (\<And>v. sends P (h v)) \<Longrightarrow> sends P (case y of None \<Rightarrow> m | Some v \<Rightarrow> h v)"
  "(\<And>a b. sends P (k a b)) \<Longrightarrow> sends P (case p of (a, b) \<Rightarrow> k a b)"
  by (auto split: sum.split option.split prod.split)

lemma sends_primitive [sends_intros]:
  "sends P time_Now" "sends P (ctx_Err ctx)" "sends P (BeginTx ctx lvl)"
  "sends P (tx_Commit ctx)" "sends P Rollback"
  by (auto simp: sends_def BeginTx_def tx_Commit_def Let_def split: fault.splits option.splits)

lemma sends_run [sends_intros]:
  assumes "P (ctx, sql_text s, sql_args s)"
  shows "sends P (pool_run ctx s)" and "sends P (tx_run ctx s)"
  using assms
  by (auto simp: sends_def pool_run_def tx_run_def Let_def
      split: fault.splits option.splits prod.splits sum.splits if_splits)

lemma sends_calls [sends_intros]:
  assumes "P (ctx, sql_text s, sql_args s)"
  shows "sends P (pool_QueryRow ctx s)" "sends P (pool_Query ctx s)" "sends P (pool_Exec ctx s)"
    "sends P (tx_QueryRow ctx s)" "sends P (tx_Exec ctx s)"
  unfolding pool_QueryRow_def pool_Query_def pool_Exec_def tx_QueryRow_def tx_Exec_def
  by (intro sends_intros assms)+

section \<open>Invariants\<close>

text \<open>
  A protocol: the steps \<open>R\<close> a component makes keep the invariant \<open>I\<close>.  Whatever a component
  that only makes \<open>R\<close>-steps runs through, \<open>I\<close> holds in every committed state, provided the
  other sessions keep \<open>I\<close> too.
\<close>

locale protocol =
  fixes R :: "database \<Rightarrow> database \<Rightarrow> bool"
    and I :: "database \<Rightarrow> bool"
  assumes step_keeps: "R d d' \<Longrightarrow> I d \<Longrightarrow> I d'"
begin

lemma chain_invariant:
  assumes "chain d cs d'" and "I d"
    and "\<forall>c \<in> set cs. I (pre c) \<longrightarrow> I (post c)"
  shows "I d' \<and> (\<forall>c \<in> set cs. I (pre c) \<and> I (post c))"
  using assms
proof (induction cs arbitrary: d')
  case Nil
  then show ?case by simp
next
  case (Cons c cs)
  from Cons.prems have "chain d cs (pre c)" by simp
  from Cons.IH [OF this Cons.prems(2)] Cons.prems show ?case by auto
qed

lemma invariant_everywhere:
  assumes g: "guarantees R m" and run: "run_state m w = (r, w')" and "txn w = None"
    and "I (db w)" and "keeps I (script w)"
  shows "\<forall>d \<in> set (states w w'). I d"
proof -
  from g run \<open>txn w = None\<close> obtain cs where cs: "evolves cs w w'"
      "\<forall>c \<in> set cs. by_us c \<longrightarrow> R (pre c) (post c)"
    by (rule guaranteesE)
  have "I (post c)" if "c \<in> set cs" "I (pre c)" for c
  proof (cases "by_us c")
    case True
    with cs(2) that show ?thesis by (blast intro: step_keeps)
  next
    case False
    with cs(1) that obtain ev where "ev \<in> insert quiet (set (script w))" "post c = ev_others ev (pre c)"
      unfolding evolves_def by blast
    with that(2) \<open>keeps I (script w)\<close> show ?thesis
      by (auto simp: keeps_def quiet_def)
  qed
  moreover have "chain (db w) cs (db w')"
    using cs(1) by (simp add: evolves_def)
  ultimately show ?thesis
    using chain_invariant \<open>I (db w)\<close> evolves_states [OF cs(1)] by auto
qed

end

end
