(* ===== verification/Guard.thy ===== *)
theory Guard
  imports Driver
begin

text \<open>
  \<open>internal/guard/guard.go\<close>: the policy every operation applies to its context.  A nil
  context (\<open>None\<close>) is refused; a context with a deadline is used unchanged; any other gets
  the store's default timeout as its deadline.
\<close>

definition DefaultOperationTimeout :: duration where
  "DefaultOperationTimeout = 30 * second"

definition Bound :: "go_context option \<Rightarrow> string \<Rightarrow> duration \<Rightarrow> ('z world_scheme, go_context result) state" where
  "Bound ctx operation timeout =
     (case ctx of
        None \<Rightarrow> State_Monad.return (Inl (DeadlineRequired operation))
      | Some c \<Rightarrow>
          (case deadline c of
             Some _ \<Rightarrow> State_Monad.return (Inr c)
           | None \<Rightarrow> do { bounded \<leftarrow> WithTimeout c timeout; State_Monad.return (Inr bounded) }))"

definition NotImplemented_error :: "string \<Rightarrow> err" where
  "NotImplemented_error operation = NotImplemented operation"

text \<open>A statement was sent under a deadline.\<close>

definition bounded_send :: "go_context \<times> string \<times> row \<Rightarrow> bool" where
  "bounded_send x \<longleftrightarrow> deadline (fst x) \<noteq> None"

lemma bounded_send_simp [simp]: "bounded_send (c, q) \<longleftrightarrow> deadline c \<noteq> None"
  by (simp add: bounded_send_def)

lemma WithDeadline_bounded [simp]: "deadline (WithDeadline c t) \<noteq> None"
  by (simp add: WithDeadline_def split: option.split)

lemma WithTimeout_run [simp]:
  "run_state (WithTimeout c d) w =
     (WithDeadline c (ev_clock (next_event w) + d), w\<lparr>script := tl (script w)\<rparr>)"
  by (simp add: WithTimeout_def)

lemma guarantees_Bound [guarantee_intros]: "guarantees R (Bound ctx operation d)"
  unfolding Bound_def by (intro guarantee_intros)

lemma sends_WithTimeout_bind [sends_intros]:
  assumes "\<And>ctx. deadline ctx \<noteq> None \<Longrightarrow> sends P (f ctx)"
  shows "sends P (State_Monad.bind (WithTimeout c d) f)"
  unfolding sends_def
proof
  fix w :: "'a world_scheme"
  let ?ctx = "WithDeadline c (ev_clock (next_event w) + d)"
  have "sends P (f ?ctx)" by (rule assms) simp
  then have "\<exists>xs. sent (snd (run_state (f ?ctx) (w\<lparr>script := tl (script w)\<rparr>))) =
      xs @ sent (w\<lparr>script := tl (script w)\<rparr>) \<and> (\<forall>x \<in> set xs. P x)"
    unfolding sends_def by blast
  then show "\<exists>xs. sent (snd (run_state (WithTimeout c d \<bind> f) w)) = xs @ sent w \<and> (\<forall>x \<in> set xs. P x)"
    by simp
qed

text \<open>
  The rule every operation uses: after \<open>Bound\<close> the rest of the operation may assume a
  deadline, and a refusal sends nothing.
\<close>

lemma sends_Bound_bind:
  assumes "\<And>ctx. deadline ctx \<noteq> None \<Longrightarrow> sends P (f (Inr ctx))"
    and "\<And>e. sends P (f (Inl e))"
  shows "sends P (State_Monad.bind (Bound c operation d) f)"
  using assms
  by (cases c; cases "deadline (the c)") (auto simp: Bound_def intro!: sends_WithTimeout_bind)

lemma sends_operation:
  assumes "\<And>ctx. deadline ctx \<noteq> None \<Longrightarrow> sends P (f ctx)"
  shows "sends P (State_Monad.bind (Bound c operation d)
     (\<lambda>b. case b of Inl e \<Rightarrow> State_Monad.return (Inl e) | Inr ctx \<Rightarrow> f ctx))"
  by (rule sends_Bound_bind) (auto intro: assms sends_return)

text \<open>After \<open>Bound\<close> the operation runs on, or ends with the refusal.\<close>

lemma Bound_run:
  "run_state (Bound c operation d) w =
     (case c of
        None \<Rightarrow> (Inl (DeadlineRequired operation), w)
      | Some x \<Rightarrow> (case deadline x of
           Some _ \<Rightarrow> (Inr x, w)
         | None \<Rightarrow> (Inr (WithDeadline x (ev_clock (next_event w) + d)), w\<lparr>script := tl (script w)\<rparr>)))"
  by (simp add: Bound_def split: option.split)

lemma Bound_cases:
  assumes "run_state (Bound c operation d) w = (b, w')"
  obtains (Refused) "b = Inl (DeadlineRequired operation)" "c = None" "w' = w"
  | (Bounded) ctx where "b = Inr ctx" "deadline ctx \<noteq> None" "others_only w w'" "txn w' = txn w"
proof (cases c)
  case None
  with assms show thesis by (auto simp: Bound_run intro: that(1))
next
  case (Some x)
  show thesis
  proof (cases "deadline x")
    case None
    have "deadline (WithDeadline x (ev_clock (next_event w) + d)) \<noteq> None" by (rule WithDeadline_bounded)
    with assms Some None show thesis
      by (intro that(2) [of "WithDeadline x (ev_clock (next_event w) + d)"]) (auto simp: Bound_run)
  next
    case (Some t)
    with assms \<open>c = Some x\<close> show thesis by (intro that(2) [of x]) (auto simp: Bound_run)
  qed
qed

text \<open>How every operation starts: refused at once, or its body runs under a deadline.\<close>

lemma after_Bound:
  assumes "run_state (State_Monad.bind (Bound c operation d)
      (\<lambda>b. case b of Inl e \<Rightarrow> State_Monad.return (Inl e) | Inr ctx \<Rightarrow> f ctx)) w = (r, w')"
  obtains (Refused) "r = Inl (DeadlineRequired operation)" "c = None" "w' = w"
  | (Bounded) ctx w0 where "deadline ctx \<noteq> None" "others_only w w0" "txn w0 = txn w"
      "run_state (f ctx) w0 = (r, w')"
proof -
  obtain b w0 where b: "run_state (Bound c operation d) w = (b, w0)" by (meson surj_pair)
  from b show thesis
  proof (cases rule: Bound_cases)
    case Refused
    with assms b show thesis by (intro that(1)) auto
  next
    case (Bounded ctx)
    with assms b show thesis by (intro that(2) [of ctx w0]) auto
  qed
qed

end
