(* ===== verification/Strconv.thy ===== *)
theory Strconv
  imports Prelude
begin

text \<open>
  The parts of Go's \<open>strconv\<close> the program uses: decimal printing of integers
  (\<open>FormatInt\<close>, \<open>FormatUint\<close>, \<open>Itoa\<close>), \<open>ParseUint(_, 10, 64)\<close> and \<open>Atoi\<close>, which on the
  platforms the program runs on is \<open>ParseInt(_, 10, 64)\<close>, with their round trips.
\<close>

definition digit_char :: "nat \<Rightarrow> char" where
  "digit_char n = char_of (48 + n)"

definition digit_value :: "char \<Rightarrow> nat option" where
  "digit_value c = (if 48 \<le> (of_char c :: nat) \<and> (of_char c :: nat) \<le> 57 then Some (of_char c - 48) else None)"

fun format_nat :: "nat \<Rightarrow> string" where
  "format_nat n = (if n < 10 then [digit_char n] else format_nat (n div 10) @ [digit_char (n mod 10)])"

declare format_nat.simps [simp del]

definition FormatInt :: "int \<Rightarrow> string" where
  "FormatInt i = (if i < 0 then ''-'' @ format_nat (nat (- i)) else format_nat (nat i))"

definition FormatUint :: "u64 \<Rightarrow> string" where
  "FormatUint u = format_nat (unat u)"

definition Itoa :: "int \<Rightarrow> string" where
  "Itoa i = FormatInt i"

fun parse_digits :: "nat \<Rightarrow> string \<Rightarrow> nat option" where
  "parse_digits acc [] = Some acc"
| "parse_digits acc (c # cs) =
     (case digit_value c of None \<Rightarrow> None | Some v \<Rightarrow> parse_digits (10 * acc + v) cs)"

definition ParseUint :: "string \<Rightarrow> u64 option" where
  "ParseUint s = (if s = [] then None else
     case parse_digits 0 s of None \<Rightarrow> None
     | Some n \<Rightarrow> if int n \<le> max_uint64 then Some (of_nat n) else None)"

text \<open>\<open>strconv.Atoi\<close>: an optional sign and decimal digits, in the range of \<open>int\<close>.\<close>

definition Atoi :: "string \<Rightarrow> int option" where
  "Atoi s =
     (let (neg, digits) = (case s of c # t \<Rightarrow>
            if c = CHR ''-'' then (True, t) else if c = CHR ''+'' then (False, t) else (False, s) | [] \<Rightarrow> (False, [])) in
      if digits = [] then None
      else case parse_digits 0 digits of None \<Rightarrow> None
      | Some n \<Rightarrow>
          if neg then (if int n \<le> max_int64 + 1 then Some (- int n) else None)
          else (if int n \<le> max_int64 then Some (int n) else None))"

lemma digit_value_char [simp]: "n < 10 \<Longrightarrow> digit_value (digit_char n) = Some n"
  by (simp add: digit_value_def digit_char_def)

lemma parse_digits_append:
  "parse_digits a (xs @ ys) = (case parse_digits a xs of None \<Rightarrow> None | Some b \<Rightarrow> parse_digits b ys)"
  by (induction a xs rule: parse_digits.induct) (auto split: option.split)

lemma format_nat_nonempty [simp]: "format_nat n \<noteq> []"
  by (subst format_nat.simps) simp

lemma parse_format_nat [simp]: "parse_digits 0 (format_nat n) = Some n"
proof (induction n rule: format_nat.induct)
  case (1 n)
  show ?case
  proof (cases "n < 10")
    case True
    then show ?thesis by (subst format_nat.simps) simp
  next
    case False
    with 1 show ?thesis
      by (subst format_nat.simps) (simp add: parse_digits_append)
  qed
qed

lemma format_nat_inject [simp]: "format_nat m = format_nat n \<longleftrightarrow> m = n"
  by (metis option.inject parse_format_nat)

lemma ParseUint_FormatUint [simp]: "ParseUint (FormatUint u) = Some u"
proof -
  have "int (unat u) \<le> max_uint64"
    using uint_less_max [of u] by simp
  then show ?thesis
    by (simp add: ParseUint_def FormatUint_def)
qed

lemma ParseUint_format_nat: "int n \<le> max_uint64 \<Longrightarrow> ParseUint (format_nat n) = Some (of_nat n)"
  by (simp add: ParseUint_def)

lemma FormatUint_of_nat: "int n \<le> max_uint64 \<Longrightarrow> FormatUint (of_nat n) = format_nat n"
  by (simp add: FormatUint_def max_uint64_def unat_of_nat)

lemma format_nat_digits: "c \<in> set (format_nat n) \<Longrightarrow> digit_value c \<noteq> None"
proof (induction n rule: format_nat.induct)
  case (1 n)
  show ?case
  proof (cases "n < 10")
    case True
    with 1(2) show ?thesis by (simp add: format_nat.simps [of n])
  next
    case False
    with 1(2) have "c \<in> set (format_nat (n div 10)) \<or> c = digit_char (n mod 10)"
      by (simp add: format_nat.simps [of n] disj_commute)
    with 1(1) False digit_value_char [of "n mod 10"] show ?thesis by auto
  qed
qed

lemma digit_value_sign [simp]: "digit_value (CHR ''-'') = None" "digit_value (CHR ''+'') = None"
  by (simp_all add: digit_value_def)

lemma Atoi_FormatInt:
  assumes "- max_int64 - 1 \<le> i" and "i \<le> max_int64"
  shows "Atoi (FormatInt i) = Some i"
proof (cases "i < 0")
  case True
  with assms show ?thesis by (simp add: FormatInt_def Atoi_def)
next
  case False
  obtain c t where ct: "format_nat (nat i) = c # t" by (cases "format_nat (nat i)") auto
  then have "digit_value c \<noteq> None" using format_nat_digits [of c "nat i"] by simp
  then have "c \<noteq> CHR ''-''" "c \<noteq> CHR ''+''" by auto
  with False assms ct parse_format_nat [of "nat i"] show ?thesis by (simp add: FormatInt_def Atoi_def)
qed

end
