(* ===== verification/Postgres.thy ===== *)
theory Postgres
  imports Driver Strconv
begin

text \<open>
  \<open>internal/postgres/postgres.go\<close>: identifier quoting, the retryable SQLSTATEs, the attempt
  and reread limits, the transaction-local timeouts and the redacted error.
\<close>

section \<open>The package\<close>

definition maxTransactionAttempts :: nat where
  "maxTransactionAttempts = 4"

definition double_quotes :: "string \<Rightarrow> string" where
  "double_quotes s = concat (map (\<lambda>c. if c = CHR 0x22 then [CHR 0x22, CHR 0x22] else [c]) s)"

definition QuoteIdentifier :: "string \<Rightarrow> string" where
  "QuoteIdentifier identifier = [CHR 0x22] @ double_quotes identifier @ [CHR 0x22]"

definition Qualified :: "string \<Rightarrow> string \<Rightarrow> string" where
  "Qualified schema table = QuoteIdentifier schema @ ''.'' @ QuoteIdentifier table"

text \<open>
  \<open>errors.As\<close> looks through wrapped errors; \<open>commitOutcomeError\<close> of the ledger is the one
  wrapper that can hold a \<open>PgError\<close>.
\<close>

fun Retryable :: "err \<Rightarrow> bool" where
  "Retryable (PgError code) = (code = ''40001'' \<or> code = ''40P01'')"
| "Retryable (CommitOutcome cause) = Retryable cause"
| "Retryable _ = False"

definition Attempts :: nat where
  "Attempts = maxTransactionAttempts"

definition AuthoritativeReadTimeout :: duration where
  "AuthoritativeReadTimeout = 5 * second"

definition set_timeouts_stmt :: "duration \<Rightarrow> duration \<Rightarrow> statement" where
  "set_timeouts_stmt statementTimeout lockTimeout =
     read_statement
       ''SELECT set_config('statement_timeout', $1, true), set_config('lock_timeout', $2, true)''
       [CText (FormatInt (Milliseconds statementTimeout)), CText (FormatInt (Milliseconds lockTimeout))]
       (\<lambda>_ _. Inr [[CText (FormatInt (Milliseconds statementTimeout)),
                    CText (FormatInt (Milliseconds lockTimeout))]])"

definition SetLocalTimeouts :: "go_context \<Rightarrow> duration \<Rightarrow> duration \<Rightarrow> ('z world_scheme, unit result) state" where
  "SetLocalTimeouts ctx statementTimeout lockTimeout =
     tx_Exec ctx (set_timeouts_stmt statementTimeout lockTimeout)"

definition RedactedError :: "string \<Rightarrow> err" where
  "RedactedError operation = Redacted operation"

section \<open>Quoting is reversible\<close>

text \<open>PostgreSQL's reading of a delimited identifier: up to the first undoubled quote.\<close>

fun read_delimited :: "string \<Rightarrow> (string \<times> string) option" where
  "read_delimited [] = None"
| "read_delimited (c # cs) =
     (if c \<noteq> CHR 0x22 then map_option (\<lambda>(a, r). (c # a, r)) (read_delimited cs)
      else case cs of
          [] \<Rightarrow> Some ([], [])
        | d # ds \<Rightarrow> if d = CHR 0x22 then map_option (\<lambda>(a, r). (c # a, r)) (read_delimited ds)
                    else Some ([], cs))"

definition read_identifier :: "string \<Rightarrow> (string \<times> string) option" where
  "read_identifier s = (case s of [] \<Rightarrow> None | c # cs \<Rightarrow> if c = CHR 0x22 then read_delimited cs else None)"

lemma double_quotes_simps [simp]:
  "double_quotes [] = []"
  "double_quotes (c # s) = (if c = CHR 0x22 then [CHR 0x22, CHR 0x22] else [c]) @ double_quotes s"
  by (simp_all add: double_quotes_def)

lemma read_delimited_double_quotes:
  "rest = [] \<or> hd rest \<noteq> CHR 0x22 \<Longrightarrow>
   read_delimited (double_quotes s @ CHR 0x22 # rest) = Some (s, rest)"
  by (induction s) (auto split: list.split)

lemma read_identifier_QuoteIdentifier:
  "rest = [] \<or> hd rest \<noteq> CHR 0x22 \<Longrightarrow> read_identifier (QuoteIdentifier s @ rest) = Some (s, rest)"
  by (simp add: read_identifier_def QuoteIdentifier_def read_delimited_double_quotes)

lemma SetLocalTimeouts_sends [sends_intros]:
  "deadline ctx \<noteq> None \<Longrightarrow> (\<And>q. P (ctx, q)) \<Longrightarrow> sends P (SetLocalTimeouts ctx st lt)"
  unfolding SetLocalTimeouts_def tx_Exec_def by (intro sends_intros) simp_all

lemma Attempts_eq [simp]: "Attempts = 4"
  by (simp add: Attempts_def maxTransactionAttempts_def)

lemma refusal_not_special [simp]:
  "refusal_error x \<noteq> ErrNoRows" "refusal_error x \<noteq> CommitOutcome c" "refusal_error x \<noteq> Conflict n e"
  by (cases x; simp)+

end
