(* ===== verification/Transaction.thy ===== *)
theory Transaction
  imports Guard Postgres
begin

text \<open>
  How a transaction of the program sees the database.  \<open>serial b ws w\<close>: the open transaction is
  serializable, reads the snapshot \<open>b\<close> with its own writes \<open>ws\<close> on top, and every row it has
  locked or written is still as in \<open>b\<close>.  \<open>weak ws ks w\<close>: the open transaction is read-committed,
  has the writes \<open>ws\<close> and holds locks on the rows \<open>ks\<close>.  The lemmas give, for each step of a
  transaction, the cases its caller can meet; what a commit does to the database follows.
\<close>

section \<open>Statements that only write the rows they are aimed at\<close>

definition aimed :: "statement \<Rightarrow> bool" where
  "aimed s \<longleftrightarrow> (\<forall>now d. write_key ` set (snd (sql_sem s now d)) \<subseteq> set (sql_touches s))"

lemma aimed_read [simp]: "aimed (read_statement q args f)" "aimed (locking_statement q args k f)"
  by (simp_all add: aimed_def)

lemma aimed_set_timeouts [simp]: "aimed (set_timeouts_stmt a b)"
  by (simp add: set_timeouts_stmt_def)

lemma aimed_writes:
  "aimed s \<Longrightarrow> sql_sem s now d = (r, ws) \<Longrightarrow> write_key ` set ws \<subseteq> set (sql_touches s)"
  unfolding aimed_def by (metis snd_conv)

text \<open>A statement that cannot itself answer \<open>pgx.ErrNoRows\<close>: only an empty result gives that.\<close>

definition answers :: "statement \<Rightarrow> bool" where
  "answers s \<longleftrightarrow> (\<forall>now d e. fst (sql_sem s now d) = Inl e \<longrightarrow> (\<exists>c. e = PgError c) \<or> e = DriverError)"

lemma answers_set_timeouts [simp]: "answers (set_timeouts_stmt a b)"
  by (simp add: answers_def set_timeouts_stmt_def)


text \<open>An error of the driver or of the server, as opposed to one the program makes.\<close>

definition driver_error :: "err \<Rightarrow> bool" where
  "driver_error e \<longleftrightarrow> (\<exists>c. e = PgError c) \<or> e = DriverError"

lemma driver_error_refusal [simp]: "driver_error (refusal_error x)"
  by (cases x) (simp_all add: driver_error_def)

lemma driver_error_simps [simp]:
  "driver_error (PgError c)" "driver_error DriverError"
  "\<not> driver_error ErrNoRows" "\<not> driver_error (Conflict n u)" "\<not> driver_error (CommitOutcome e)"
  "\<not> driver_error (CtxError y)" "\<not> driver_error (Redacted m)"
  by (simp_all add: driver_error_def)

lemma answersD: "answers s \<Longrightarrow> sql_sem s now d = (Inl e, ws) \<Longrightarrow> driver_error e"
  unfolding answers_def driver_error_def by (metis fst_conv)

section \<open>Beginning\<close>

definition begun :: "iso_level \<Rightarrow> 'z world_scheme \<Rightarrow> bool" where
  "begun lvl w \<longleftrightarrow> txn w = Some \<lparr>tx_serializable = (lvl = Serializable), tx_snapshot = None,
     tx_writes = [], tx_locks = []\<rparr>"

lemma begin_cases:
  assumes "run_state (BeginTx ctx lvl) w = (r, w')" and "txn w = None"
  obtains (Failed) e where "r = Inl e" "driver_error e" "others_only w w'" "txn w' = None"
  | (Begun) "r = Inr ()" "others_only w w'" "begun lvl w'"
proof -
  have oo: "others_only w (advance w)" by (rule others_only_advance)
  note run = assms(1) [unfolded BeginTx_def, simplified Let_def, simplified]
  show thesis
    using run oo assms(2)
    by (cases "ev_fault (next_event w)") (auto simp: begun_def intro: that)
qed

section \<open>Serializable transactions\<close>

definition serial :: "database \<Rightarrow> row_write list \<Rightarrow> 'z world_scheme \<Rightarrow> bool" where
  "serial b ws w \<longleftrightarrow> (\<exists>t. txn w = Some t \<and> tx_serializable t \<and> tx_snapshot t = Some b \<and>
     tx_writes t = ws \<and> write_key ` set ws \<subseteq> set (tx_locks t) \<and>
     (\<forall>k \<in> set (tx_locks t). same_row k b (db w)))"

lemma tx_run_error:
  assumes "run_state (tx_run ctx s) w = (Inl e, w')" and "answers s"
  shows "driver_error e"
  using assms
  by (auto simp: tx_run_def Let_def dest: answersD
      split: fault.splits option.splits prod.splits sum.splits if_splits)

lemma serial_start_cases:
  assumes run: "run_state (SetLocalTimeouts ctx st lt) w = (r, w')" and "begun Serializable w"
  obtains (Failed) e where "r = Inl e" "driver_error e" "others_only w w'"
  | (Started) "r = Inr ()" "others_only w w'" "serial (db w') [] w'"
proof -
  obtain q where q: "run_state (tx_run ctx (set_timeouts_stmt st lt)) w = (q, w')"
      and r: "r = (case q of Inl e \<Rightarrow> Inl e | Inr _ \<Rightarrow> Inr ())"
    using run by (auto simp: SetLocalTimeouts_def tx_Exec_def split: prod.splits)
  from assms(2) have t: "txn w = Some \<lparr>tx_serializable = True, tx_snapshot = None, tx_writes = [], tx_locks = []\<rparr>"
    by (simp add: begun_def)
  from q t show thesis
  proof (cases rule: tx_run_cases)
    case (Failed e)
    with q r show thesis by (intro that(1) [of e]) (auto dest: tx_run_error)
  next
    case (Done now rows ws)
    then have "ws = []" by (simp add: set_timeouts_stmt_def)
    with Done r show thesis
      by (intro that(2)) (auto simp: serial_def tx_base_def new_locks_def set_timeouts_stmt_def)
  qed
qed

lemma serial_run_cases:
  assumes run: "run_state (tx_run ctx s) w = (r, w')" and ser: "serial b ws w" and "aimed s" and "answers s"
  obtains (Failed) e where "r = Inl e" "driver_error e" "others_only w w'"
  | (Done) now rows ws' where "r = Inr rows" "others_only w w'"
      "sql_sem s now (apply_writes ws b) = (Inr rows, ws')" "serial b (ws @ ws') w'"
proof -
  from ser obtain t where t: "txn w = Some t" "tx_serializable t" "tx_snapshot t = Some b"
      "tx_writes t = ws" "write_key ` set ws \<subseteq> set (tx_locks t)"
      "\<forall>k \<in> set (tx_locks t). same_row k b (db w)"
    by (auto simp: serial_def)
  from run t(1) show thesis
  proof (cases rule: tx_run_cases)
    case (Failed e)
    with run \<open>answers s\<close> show thesis by (intro that(1) [of e]) (auto dest: tx_run_error)
  next
    case (Done now rows ws')
    have base: "tx_base t d = b" for d by (simp add: tx_base_def t)
    have sem: "sql_sem s now (apply_writes ws b) = (Inr rows, ws')"
      using Done(3) by (simp add: base t)
    have aim: "write_key ` set ws' \<subseteq> set (sql_touches s)"
      using \<open>aimed s\<close> sem by (rule aimed_writes)
    let ?t' = "t\<lparr>tx_snapshot := Some b, tx_writes := ws @ ws',
       tx_locks := new_locks s (apply_writes ws b) ws' @ tx_locks t\<rparr>"
    have t': "txn w' = Some ?t'" using Done(4) t by (simp add: base)
    have "same_row k b (db w')" if "k \<in> set (tx_locks ?t')" for k
    proof (cases "k \<in> set (tx_locks t)")
      case True
      then show ?thesis using t(6) Done(6) by (blast intro: same_row_trans)
    next
      case False
      with that aim have "k \<in> set (sql_touches s)"
        by (auto simp: new_locks_def split: if_splits)
      then show ?thesis using Done(5) t(2) by (simp add: base)
    qed
    moreover have "write_key ` set (ws @ ws') \<subseteq> set (tx_locks ?t')"
      using t(5) by (auto simp: new_locks_def)
    ultimately have "serial b (ws @ ws') w'"
      unfolding serial_def using t' t(2) by (intro exI [of _ ?t']) simp
    with Done(1,2) sem show thesis by (intro that(2)) auto
  qed
qed

lemma serial_QueryRow_cases:
  assumes "run_state (tx_QueryRow ctx s) w = (r, w')" and "serial b ws w" and "aimed s" and "answers s"
  obtains (Failed) e where "r = Inl e" "driver_error e" "others_only w w'"
  | (Done) now rows ws' where "r = first_row (Inr rows)" "others_only w w'"
      "sql_sem s now (apply_writes ws b) = (Inr rows, ws')" "serial b (ws @ ws') w'"
proof -
  obtain q where q: "run_state (tx_run ctx s) w = (q, w')" and r: "r = first_row q"
    using assms(1) by (auto simp: tx_QueryRow_def split: prod.splits)
  from q assms(2-4) show thesis
    by (cases rule: serial_run_cases) (auto simp: r intro: that)
qed

lemma serial_Exec_cases:
  assumes "run_state (tx_Exec ctx s) w = (r, w')" and "serial b ws w" and "aimed s" and "answers s"
  obtains (Failed) e where "r = Inl e" "driver_error e" "others_only w w'"
  | (Done) now rows ws' where "r = Inr ()" "others_only w w'"
      "sql_sem s now (apply_writes ws b) = (Inr rows, ws')" "serial b (ws @ ws') w'"
proof -
  obtain q where q: "run_state (tx_run ctx s) w = (q, w')"
      and r: "r = (case q of Inl e \<Rightarrow> Inl e | Inr _ \<Rightarrow> Inr ())"
    using assms(1) by (auto simp: tx_Exec_def split: prod.splits)
  from q assms(2-4) show thesis
    by (cases rule: serial_run_cases) (auto simp: r intro: that)
qed

text \<open>At commit the rows the transaction wrote are, in the database, as in its snapshot.\<close>

lemma serial_Commit_cases:
  assumes run: "run_state (tx_Commit ctx) w = (r, w')" and ser: "serial b ws w"
  obtains (Failed) x where "r = Inl (refusal_error x)" "others_only w w'" "txn w' = None"
  | (Committed) w1 where "others_only w w1" "w' = commit_ours ws w1" "txn w' = None"
      "\<forall>k \<in> write_key ` set ws. same_row k b (db w1)"
      "r = Inr () \<or> (r = Inl DriverError \<and> ev_fault (next_event w) = AckLost)"
proof -
  from ser obtain t where t: "txn w = Some t" "tx_writes t = ws" "write_key ` set ws \<subseteq> set (tx_locks t)"
      "\<forall>k \<in> set (tx_locks t). same_row k b (db w)"
    by (auto simp: serial_def)
  from run t(1) show thesis
  proof (cases rule: tx_Commit_cases)
    case (Failed x)
    then show thesis by (intro that(1)) auto
  next
    case (Committed w1)
    have "\<forall>k \<in> write_key ` set ws. same_row k b (db w1)"
      using t(3,4) Committed(3) by (blast intro: same_row_trans)
    with Committed t(2) show thesis by (intro that(2) [of w1]) auto
  qed
qed

section \<open>Read-committed transactions\<close>

definition weak :: "row_write list \<Rightarrow> row_key set \<Rightarrow> 'z world_scheme \<Rightarrow> bool" where
  "weak ws ks w \<longleftrightarrow> (\<exists>t. txn w = Some t \<and> \<not> tx_serializable t \<and> tx_snapshot t = None \<and>
     tx_writes t = ws \<and> ks \<subseteq> set (tx_locks t) \<and> write_key ` set ws \<subseteq> ks)"

lemma begun_weak: "begun ReadCommitted w \<Longrightarrow> weak [] {} w"
  by (simp add: begun_def weak_def)

lemma weak_run_cases:
  assumes run: "run_state (tx_run ctx s) w = (r, w')" and wk: "weak ws ks w" and "answers s"
  obtains (Failed) e where "r = Inl e" "driver_error e" "others_only w w'"
  | (Done) now rows ws' where "r = Inr rows" "others_only w w'" "\<forall>k \<in> ks. same_row k (db w) (db w')"
      "sql_sem s now (apply_writes ws (db w')) = (Inr rows, ws')"
      "weak (ws @ ws') (ks \<union> set (new_locks s (apply_writes ws (db w')) ws')) w'"
proof -
  from wk obtain t where t: "txn w = Some t" "\<not> tx_serializable t" "tx_snapshot t = None"
      "tx_writes t = ws" "ks \<subseteq> set (tx_locks t)" "write_key ` set ws \<subseteq> ks"
    by (auto simp: weak_def)
  from run t(1) show thesis
  proof (cases rule: tx_run_cases)
    case (Failed e)
    with run \<open>answers s\<close> show thesis by (intro that(1) [of e]) (auto dest: tx_run_error)
  next
    case (Done now rows ws')
    have base: "tx_base t d = d" for d by (simp add: tx_base_def t)
    let ?L = "new_locks s (apply_writes ws (db w')) ws'"
    have "weak (ws @ ws') (ks \<union> set ?L) w'"
      using Done(4) t by (auto simp: weak_def base new_locks_def)
    with Done t show thesis by (intro that(2) [of rows now ws']) (auto simp: base)
  qed
qed

lemma weak_QueryRow_cases:
  assumes "run_state (tx_QueryRow ctx s) w = (r, w')" and "weak ws ks w" and "answers s"
  obtains (Failed) e where "r = Inl e" "driver_error e" "others_only w w'"
  | (Done) now rows ws' where "r = first_row (Inr rows)" "others_only w w'" "\<forall>k \<in> ks. same_row k (db w) (db w')"
      "sql_sem s now (apply_writes ws (db w')) = (Inr rows, ws')"
      "weak (ws @ ws') (ks \<union> set (new_locks s (apply_writes ws (db w')) ws')) w'"
proof -
  obtain q where q: "run_state (tx_run ctx s) w = (q, w')" and r: "r = first_row q"
    using assms(1) by (auto simp: tx_QueryRow_def split: prod.splits)
  from q assms(2,3) show thesis
    by (cases rule: weak_run_cases) (auto simp: r intro: that)
qed

lemma weak_Exec_cases:
  assumes "run_state (tx_Exec ctx s) w = (r, w')" and "weak ws ks w" and "answers s"
  obtains (Failed) e where "r = Inl e" "driver_error e" "others_only w w'"
  | (Done) now rows ws' where "r = Inr ()" "others_only w w'" "\<forall>k \<in> ks. same_row k (db w) (db w')"
      "sql_sem s now (apply_writes ws (db w')) = (Inr rows, ws')"
      "weak (ws @ ws') (ks \<union> set (new_locks s (apply_writes ws (db w')) ws')) w'"
proof -
  obtain q where q: "run_state (tx_run ctx s) w = (q, w')"
      and r: "r = (case q of Inl e \<Rightarrow> Inl e | Inr _ \<Rightarrow> Inr ())"
    using assms(1) by (auto simp: tx_Exec_def split: prod.splits)
  from q assms(2,3) show thesis
    by (cases rule: weak_run_cases) (auto simp: r intro: that)
qed

lemma weak_timeouts_cases:
  assumes "run_state (SetLocalTimeouts ctx st lt) w = (r, w')" and "weak ws ks w"
  obtains (Failed) e where "r = Inl e" "driver_error e" "others_only w w'"
  | (Done) "r = Inr ()" "others_only w w'" "\<forall>k \<in> ks. same_row k (db w) (db w')" "weak ws ks w'"
  using assms(1) [unfolded SetLocalTimeouts_def] assms(2) answers_set_timeouts
proof (cases rule: weak_Exec_cases)
  case (Failed e)
  then show thesis by (intro that(1)) auto
next
  case (Done now rows ws')
  then show thesis by (intro that(2)) (auto simp: set_timeouts_stmt_def new_locks_def)
qed

lemma weak_Commit_cases:
  assumes run: "run_state (tx_Commit ctx) w = (r, w')" and wk: "weak ws ks w"
  obtains (Failed) x where "r = Inl (refusal_error x)" "others_only w w'" "txn w' = None"
  | (Committed) w1 where "others_only w w1" "w' = commit_ours ws w1" "txn w' = None"
      "\<forall>k \<in> ks. same_row k (db w) (db w1)"
      "r = Inr () \<or> (r = Inl DriverError \<and> ev_fault (next_event w) = AckLost)"
proof -
  from wk obtain t where t: "txn w = Some t" "tx_writes t = ws" "ks \<subseteq> set (tx_locks t)"
    by (auto simp: weak_def)
  from run t(1) show thesis
  proof (cases rule: tx_Commit_cases)
    case (Failed x)
    then show thesis by (intro that(1)) auto
  next
    case (Committed w1)
    with t show thesis by (intro that(2) [of w1]) auto
  qed
qed

section \<open>Accounting\<close>

lemma others_only_tick: "others_only w w1 \<Longrightarrow> others_only w (w1\<lparr>script := tl (script w1)\<rparr>)"
  by (erule others_only_trans) simp

lemma txn_field [simp]:
  "our_commits w (w1\<lparr>txn := t\<rparr>) = our_commits w w1" "states w (w1\<lparr>txn := t\<rparr>) = states w w1"
  by (simp_all add: our_commits_def states_def commits_def)

lemma our_commits_direct:
  assumes "others_only w w1" and "ws \<noteq> []"
  shows "our_commits w (commit_ours ws w1) = [\<lparr>by_us = True, pre = db w1, post = apply_writes ws (db w1)\<rparr>]"
  using our_commits_trans [of w w1 "commit_ours ws w1"] assms
  by (simp add: our_commits_commit_ours others_only_ours others_only_leads_to)

lemma our_commits_evolve:
  assumes "leads_to w w'" and "\<forall>c \<in> set (our_commits w w'). R (pre c) (post c)"
  shows "\<exists>cs. evolves cs w w' \<and> (\<forall>c \<in> set cs. by_us c \<longrightarrow> R (pre c) (post c))"
  using assms by (auto simp: leads_to_def evolves_ours)

lemma guarantees_mono: "guarantees R m \<Longrightarrow> (\<And>d d'. R d d' \<Longrightarrow> R' d d') \<Longrightarrow> guarantees R' m"
  unfolding guarantees_def by (meson)

section \<open>One commit\<close>

text \<open>From \<open>w\<close> to \<open>w'\<close> this session committed exactly once, an \<open>R\<close>-step.\<close>

definition committed :: "(database \<Rightarrow> database \<Rightarrow> bool) \<Rightarrow> 'z world_scheme \<Rightarrow> 'z world_scheme \<Rightarrow> bool" where
  "committed R w w' \<longleftrightarrow> leads_to w w' \<and>
     (\<exists>c. our_commits w w' = [c] \<and> R (pre c) (post c) \<and> post c \<in> set (states w w'))"

lemma states_later: "others_only w w1 \<Longrightarrow> leads_to w1 w2 \<Longrightarrow> set (states w1 w2) \<subseteq> set (states w w2)"
  by (auto simp: others_only_def leads_to_def evolves_states [OF evolves_trans] evolves_states)

lemma states_earlier:
  assumes "leads_to w w1" and "others_only w1 w2"
  shows "set (states w w1) \<subseteq> set (states w w2)"
proof -
  from assms have "db w1 \<in> set (states w w2)" by (intro state_between) auto
  with assms show ?thesis
    by (auto simp: others_only_def leads_to_def evolves_states [OF evolves_trans] evolves_states)
qed

lemma committed_direct:
  assumes "others_only w w1" and "ws \<noteq> []" and "R (db w1) (apply_writes ws (db w1))"
  shows "committed R w (commit_ours ws w1)"
  using our_commits_direct [OF assms(1,2)] assms final_state [of "commit_ours ws w1" w]
  by (auto simp: committed_def intro: leads_to_trans)

lemma committed_before:
  assumes "others_only w w1" and "committed R w1 w2"
  shows "committed R w w2"
  using our_commits_trans [of w w1 w2] others_only_ours [OF assms(1)] states_later [OF assms(1), of w2]
    others_only_leads_to [OF assms(1)] assms(2)
  by (auto simp: committed_def intro: leads_to_trans)

lemma committed_after:
  assumes "committed R w w1" and "others_only w1 w2"
  shows "committed R w w2"
  using our_commits_trans [of w w1 w2] others_only_ours [OF assms(2)] states_earlier [of w w1 w2]
    others_only_leads_to [OF assms(2)] assms
  by (auto simp: committed_def intro: leads_to_trans)

lemma committed_txn [simp]: "committed R w (w1\<lparr>txn := t\<rparr>) = committed R w w1"
  by (simp add: committed_def)

lemma committed_mono: "committed R w w' \<Longrightarrow> (\<And>d d'. R d d' \<Longrightarrow> R' d d') \<Longrightarrow> committed R' w w'"
  by (auto simp: committed_def)

lemma committed_leads_to: "committed R w w' \<Longrightarrow> leads_to w w'"
  by (simp add: committed_def)

lemma guaranteesI_committed:
  assumes "\<And>w r w'. run_state m w = (r, w') \<Longrightarrow> txn w = None \<Longrightarrow>
     txn w' = None \<and> (others_only w w' \<or> committed R w w')"
  shows "guarantees R m"
proof (rule guaranteesI)
  fix w r w'
  assume "run_state m w = (r, w')" "txn w = None"
  with assms have *: "txn w' = None" "others_only w w' \<or> committed R w w'" by blast+
  then have "leads_to w w'" "\<forall>c \<in> set (our_commits w w'). R (pre c) (post c)"
    by (auto simp: committed_def others_only_ours)
  with * show "txn w' = None \<and> (\<exists>cs. evolves cs w w' \<and> (\<forall>c \<in> set cs. by_us c \<longrightarrow> R (pre c) (post c)))"
    by (auto intro: our_commits_evolve)
qed

section \<open>Histories\<close>

text \<open>
  A history law: the steps \<open>R\<close> of a component only move the database forward in the preorder \<open>P\<close>.
  Then, if the other sessions do so too, every committed state lies ahead of the first.
\<close>

locale history =
  fixes R :: "database \<Rightarrow> database \<Rightarrow> bool"
    and P :: "database \<Rightarrow> database \<Rightarrow> bool"
  assumes forward_refl: "P d d"
    and forward_trans: "P d d' \<Longrightarrow> P d' d'' \<Longrightarrow> P d d''"
    and step_forward: "R d d' \<Longrightarrow> P d d'"
begin

lemma chain_forward:
  assumes "chain d cs d'" and "\<forall>c \<in> set cs. P (pre c) (post c)"
  shows "P d d' \<and> (\<forall>c \<in> set cs. P d (pre c))"
  using assms
proof (induction cs arbitrary: d')
  case (Cons c cs)
  from Cons.prems have "chain d cs (pre c)" by simp
  from Cons.IH [OF this] Cons.prems show ?case by (auto intro: forward_trans)
qed (simp add: forward_refl)

lemma ahead_everywhere:
  assumes g: "guarantees R m" and run: "run_state m w = (r, w')" and "txn w = None"
    and others: "\<forall>ev \<in> set (script w). \<forall>d. P d (ev_others ev d)"
  shows "\<forall>d \<in> set (states w w'). P (db w) d"
proof -
  from g run \<open>txn w = None\<close> obtain cs where cs: "evolves cs w w'"
      "\<forall>c \<in> set cs. by_us c \<longrightarrow> R (pre c) (post c)"
    by (rule guaranteesE)
  have "P (pre c) (post c)" if "c \<in> set cs" for c
  proof (cases "by_us c")
    case True
    with cs(2) that show ?thesis by (blast intro: step_forward)
  next
    case False
    with cs(1) that obtain ev where "ev \<in> insert quiet (set (script w))" "post c = ev_others ev (pre c)"
      unfolding evolves_def by blast
    with others show ?thesis by (auto simp: quiet_def forward_refl)
  qed
  moreover have "chain (db w) cs (db w')"
    using cs(1) by (simp add: evolves_def)
  ultimately show ?thesis
    using chain_forward evolves_states [OF cs(1)] by auto
qed

end

section \<open>When nothing interferes\<close>

text \<open>The open transaction has the writes \<open>ws\<close> on the database \<open>d\<close>, and the script is used up.\<close>

definition calm :: "row_write list \<Rightarrow> database \<Rightarrow> 'z world_scheme \<Rightarrow> bool" where
  "calm ws d w \<longleftrightarrow> script w = [] \<and> db w = d \<and> (\<exists>t. txn w = Some t \<and> tx_writes t = ws \<and> tx_base t d = d)"

lemma calm_begin:
  assumes "script w = []"
  obtains w' where "run_state (BeginTx ctx lvl) w = (Inr (), w')" "calm [] (db w) w'"
  using assms by (auto simp: BeginTx_def calm_def tx_base_def Let_def)

lemma calm_run:
  assumes "calm ws d w" and "sql_sem s 0 (apply_writes ws d) = (Inr rows, ws')"
  obtains w' where "run_state (tx_run ctx s) w = (Inr rows, w')" "calm (ws @ ws') d w'"
proof -
  from assms(1) obtain t where t: "script w = []" "db w = d" "txn w = Some t" "tx_writes t = ws" "tx_base t d = d"
    by (auto simp: calm_def)
  obtain w' where "run_state (tx_run ctx s) w = (Inr rows, w')" "calm (ws @ ws') d w'"
    using t assms(2) by (auto simp: tx_run_def calm_def Let_def tx_base_def split: option.splits)
  then show thesis by (rule that)
qed

lemma calm_run_error:
  assumes "calm ws d w" and "sql_sem s 0 (apply_writes ws d) = (Inl e, ws')"
  obtains w' where "run_state (tx_run ctx s) w = (Inl e, w')" "script w' = []" "db w' = d"
proof -
  from assms(1) obtain t where t: "script w = []" "db w = d" "txn w = Some t" "tx_writes t = ws" "tx_base t d = d"
    by (auto simp: calm_def)
  obtain w' where "run_state (tx_run ctx s) w = (Inl e, w')" "script w' = []" "db w' = d"
    using t assms(2) by (auto simp: tx_run_def Let_def)
  then show thesis by (rule that)
qed

lemma calm_Exec:
  assumes "calm ws d w" and "sql_sem s 0 (apply_writes ws d) = (Inr rows, ws')"
  obtains w' where "run_state (tx_Exec ctx s) w = (Inr (), w')" "calm (ws @ ws') d w'"
proof -
  from assms obtain w' where "run_state (tx_run ctx s) w = (Inr rows, w')" "calm (ws @ ws') d w'" by (rule calm_run)
  then show thesis by (intro that) (auto simp: tx_Exec_def)
qed

lemma calm_Exec_error:
  assumes "calm ws d w" and "sql_sem s 0 (apply_writes ws d) = (Inl e, ws')"
  obtains w' where "run_state (tx_Exec ctx s) w = (Inl e, w')" "script w' = []" "db w' = d"
proof -
  from assms obtain w' where "run_state (tx_run ctx s) w = (Inl e, w')" "script w' = []" "db w' = d" by (rule calm_run_error)
  then show thesis by (intro that) (auto simp: tx_Exec_def)
qed

lemma calm_QueryRow:
  assumes "calm ws d w" and "sql_sem s 0 (apply_writes ws d) = (Inr rows, ws')"
  obtains w' where "run_state (tx_QueryRow ctx s) w = (first_row (Inr rows), w')" "calm (ws @ ws') d w'"
proof -
  from assms obtain w' where "run_state (tx_run ctx s) w = (Inr rows, w')" "calm (ws @ ws') d w'" by (rule calm_run)
  then show thesis by (intro that) (auto simp: tx_QueryRow_def)
qed

lemma calm_timeouts:
  assumes "calm ws d w"
  obtains w' where "run_state (SetLocalTimeouts ctx st lt) w = (Inr (), w')" "calm ws d w'"
proof -
  have "sql_sem (set_timeouts_stmt st lt) 0 (apply_writes ws d) =
      (Inr [[CText (FormatInt (Milliseconds st)), CText (FormatInt (Milliseconds lt))]], [])"
    by (simp add: set_timeouts_stmt_def)
  with assms obtain w' where "run_state (tx_Exec ctx (set_timeouts_stmt st lt)) w = (Inr (), w')" "calm (ws @ []) d w'"
    by (rule calm_Exec)
  then show thesis by (intro that) (auto simp: SetLocalTimeouts_def)
qed

lemma calm_Commit:
  assumes "calm ws d w"
  obtains w' where "run_state (tx_Commit ctx) w = (Inr (), w')" "script w' = []" "db w' = apply_writes ws d" "txn w' = None"
  using assms by (auto simp: calm_def tx_Commit_def Let_def)

lemma Bound_quiet:
  assumes "script w = []"
  obtains ctx w0 where "run_state (Bound (Some c) operation d) w = (Inr ctx, w0)"
    "script w0 = []" "db w0 = db w" "txn w0 = txn w"
  using assms by (cases "deadline c") (auto simp: Bound_run)

end
