(* ===== verification/OrderedQuery.thy ===== *)
theory OrderedQuery
  imports Transaction
begin

text \<open>
  \<open>internal/orderedquery/orderedquery.go\<close>: the three page statements of the ordered index, with
  their text, their bound arguments and their meaning on the table of records, and the law of
  keyset pagination: pages fetched one after the other, each starting after the last entry of
  the one before, are the whole listing, in order and without repetition.

  \<open>text COLLATE "C"\<close> and \<open>bytea\<close> both compare byte by byte, which is the order on \<open>char list\<close>.
\<close>

section \<open>Keyset pagination\<close>

text \<open>One page: the first \<open>n\<close> entries after the position (all entries when there is none).\<close>

definition rest_after :: "('a \<Rightarrow> 'a \<Rightarrow> bool) \<Rightarrow> 'a option \<Rightarrow> 'a list \<Rightarrow> 'a list" where
  "rest_after before p xs = (case p of None \<Rightarrow> xs | Some q \<Rightarrow> filter (before q) xs)"

text \<open>
  A reader's walk: fetch a page; as long as the page says that there is more, go on after its
  last entry.  The first argument bounds the number of pages.
\<close>

fun walk :: "nat \<Rightarrow> ('a option \<Rightarrow> 'a list \<times> bool) \<Rightarrow> 'a option \<Rightarrow> 'a list" where
  "walk 0 fetch p = []"
| "walk (Suc n) fetch p =
     (let (xs, more) = fetch p in xs @ (if more then walk n fetch (Some (last xs)) else []))"

text \<open>
  The two ways the index tells a reader to go on: one row more than asked for was found (it is
  dropped from the page), or the page was not empty.
\<close>

definition look_ahead :: "nat \<Rightarrow> 'a list \<Rightarrow> 'a list \<times> bool" where
  "look_ahead limit rest = (take limit rest, limit < length (take (limit + 1) rest))"

definition until_empty :: "nat \<Rightarrow> 'a list \<Rightarrow> 'a list \<times> bool" where
  "until_empty limit rest = (take limit rest, take limit rest \<noteq> [])"

locale keyset =
  fixes before :: "'a \<Rightarrow> 'a \<Rightarrow> bool" and entries :: "'a list"
  assumes in_order: "sorted_wrt before entries"
    and before_trans: "before x y \<Longrightarrow> before y z \<Longrightarrow> before x z"
    and before_irrefl: "\<not> before x x"
begin

lemma rest_in_order: "sorted_wrt before (rest_after before p entries)"
  using in_order by (auto simp: rest_after_def sorted_wrt_filter split: option.split)

lemma entries_distinct: "distinct entries"
  using in_order by (induction entries) (auto simp: before_irrefl)

text \<open>After the last entry of a page the listing goes on where the page ended.\<close>

lemma rest_after_page:
  assumes "rest_after before p entries \<noteq> []" and "0 < n"
  shows "rest_after before (Some (last (take n (rest_after before p entries)))) entries =
    drop n (rest_after before p entries)"
proof -
  let ?r = "rest_after before p entries"
  let ?q = "last (take n ?r)"
  have q: "?q \<in> set (take n ?r)" using assms by (intro last_in_set) auto
  have "filter (before ?q) entries = filter (before ?q) ?r"
  proof (cases p)
    case (Some a)
    with q have "before a ?q" by (auto simp: rest_after_def dest: in_set_takeD)
    with Some show ?thesis by (auto simp: rest_after_def intro: filter_cong before_trans)
  qed (simp add: rest_after_def)
  also have "\<dots> = filter (before ?q) (take n ?r) @ filter (before ?q) (drop n ?r)"
    by (metis append_take_drop_id filter_append)
  also have "filter (before ?q) (take n ?r) = []"
  proof -
    have split: "butlast (take n ?r) @ [?q] = take n ?r"
      using assms by (intro append_butlast_last_id) auto
    have "sorted_wrt before (take n ?r)" using rest_in_order by (rule sorted_wrt_take)
    then have "sorted_wrt before (butlast (take n ?r) @ [?q])" by (simp only: split)
    then have "\<forall>x \<in> set (butlast (take n ?r) @ [?q]). \<not> before ?q x"
      by (auto simp: sorted_wrt_append before_irrefl dest: before_trans)
    then show ?thesis by (simp only: split filter_empty_conv)
  qed
  also have "filter (before ?q) (drop n ?r) = drop n ?r"
  proof -
    have "sorted_wrt before (take n ?r @ drop n ?r)"
      using rest_in_order [of p] by (simp only: append_take_drop_id)
    with q show ?thesis
      by (auto simp: sorted_wrt_append filter_id_conv simp del: append_take_drop_id)
  qed
  finally show ?thesis by (simp add: rest_after_def)
qed

text \<open>Walking the pages yields the listing, whichever way a page says that there is more.\<close>

lemma walk_look_ahead:
  assumes "0 < limit" and "length (rest_after before p entries) < pages"
  shows "walk pages (\<lambda>q. look_ahead limit (rest_after before q entries)) p = rest_after before p entries"
  using assms(2)
proof (induction pages arbitrary: p)
  case (Suc pages)
  let ?r = "rest_after before p entries"
  show ?case
  proof (cases "limit < length ?r")
    case True
    then have "rest_after before (Some (last (take limit ?r))) entries = drop limit ?r"
      using \<open>0 < limit\<close> by (intro rest_after_page) auto
    with Suc.IH [of "Some (last (take limit ?r))"] Suc.prems True \<open>0 < limit\<close> show ?thesis
      by (simp add: look_ahead_def)
  next
    case False
    then show ?thesis by (simp add: look_ahead_def)
  qed
qed simp

lemma walk_until_empty:
  assumes "0 < limit" and "length (rest_after before p entries) < pages"
  shows "walk pages (\<lambda>q. until_empty limit (rest_after before q entries)) p = rest_after before p entries"
  using assms(2)
proof (induction pages arbitrary: p)
  case (Suc pages)
  let ?r = "rest_after before p entries"
  show ?case
  proof (cases "?r = []")
    case False
    then have "rest_after before (Some (last (take limit ?r))) entries = drop limit ?r"
      using \<open>0 < limit\<close> by (rule rest_after_page)
    with Suc.IH [of "Some (last (take limit ?r))"] Suc.prems False \<open>0 < limit\<close> show ?thesis
      by (cases ?r) (auto simp: until_empty_def)
  qed (simp add: until_empty_def)
qed simp

end

section \<open>Records as rows\<close>

definition RecordColumns :: string where
  "RecordColumns = ''namespace, ordering_scope, stable_key, ranking_scope, revision::text, order_id::text, value, value_is_nil, ranked, rank_value, due_state, due_at, deleted''"

definition record_row :: "ordered_key \<Rightarrow> ordered_row \<Rightarrow> row" where
  "record_row k r = (case k of (ns, sc, sk) \<Rightarrow>
     [CText ns, CText sc, CBytes sk, CText (o_ranking_scope r), CText (FormatInt (o_revision r)),
      CText (FormatInt (o_order_id r)), CBytes (o_value r), CBool (o_value_is_nil r), CBool (o_ranked r),
      CInt (o_rank_value r), CInt (o_due_state r), CInt (o_due_at r), CBool (o_deleted r)])"

definition row_at :: "database \<Rightarrow> ordered_key \<Rightarrow> row list" where
  "row_at d k = (case fmlookup (t_ordered_records d) k of None \<Rightarrow> [] | Some r \<Rightarrow> [record_row k r])"

text \<open>The records that satisfy a \<open>WHERE\<close> clause.\<close>

definition selected :: "(ordered_key \<Rightarrow> ordered_row \<Rightarrow> bool) \<Rightarrow> database \<Rightarrow> ordered_key fset" where
  "selected P d = ffilter (\<lambda>k. case fmlookup (t_ordered_records d) k of None \<Rightarrow> False | Some r \<Rightarrow> P k r)
     (fmdom (t_ordered_records d))"

definition row_of :: "database \<Rightarrow> ordered_key \<Rightarrow> ordered_row" where
  "row_of d k = (case fmlookup (t_ordered_records d) k of
     Some r \<Rightarrow> r
   | None \<Rightarrow> \<lparr>o_ranking_scope = [], o_revision = 0, o_order_id = 0, o_value = [], o_value_is_nil = False,
       o_ranked = False, o_rank_value = 0, o_due_state = 0, o_due_at = 0, o_deleted = False\<rparr>)"

text \<open>
  The listing behind each query: the \<open>ORDER BY\<close> tuples of the selected records.  The tuple of
  an ordered listing leaves the scope out and that of the other two ends with it, so that
  with the query's own scope every tuple names one record.
\<close>

definition ordered_entries :: "string \<Rightarrow> string \<Rightarrow> database \<Rightarrow> (int \<times> bytes) list" where
  "ordered_entries ns sc d = sorted_list_of_fset
     ((\<lambda>k. (o_order_id (row_of d k), snd (snd k))) |`| selected (\<lambda>k r. fst k = ns \<and> fst (snd k) = sc) d)"

definition ranked_entries :: "string \<Rightarrow> string \<Rightarrow> database \<Rightarrow> (int \<times> bytes \<times> string) list" where
  "ranked_entries ns rs d = rev (sorted_list_of_fset
     ((\<lambda>k. (o_rank_value (row_of d k), snd (snd k), fst (snd k))) |`|
        selected (\<lambda>k r. fst k = ns \<and> o_ranking_scope r = rs \<and> o_ranked r \<and> \<not> o_deleted r) d))"

definition due_entries :: "string \<Rightarrow> int \<Rightarrow> database \<Rightarrow> (int \<times> bytes \<times> string) list" where
  "due_entries ns bound d = sorted_list_of_fset
     ((\<lambda>k. (o_due_at (row_of d k), snd (snd k), fst (snd k))) |`|
        selected (\<lambda>k r. fst k = ns \<and> o_due_state r = 1 \<and> \<not> o_deleted r \<and> o_due_at r \<le> bound) d)"

text \<open>\<open>LIMIT $n\<close>: a negative limit is an error of the server.\<close>

definition sql_limit :: "int \<Rightarrow> 'a list \<Rightarrow> 'a list result" where
  "sql_limit n xs = (if n < 0 then Inl (PgError ''2201W'') else Inr (take (nat n) xs))"

text \<open>Go's \<open>int\<close> addition.\<close>

definition wrap_int64 :: "int \<Rightarrow> int" where
  "wrap_int64 i = (i + 9223372036854775808) mod 18446744073709551616 - 9223372036854775808"

section \<open>The statements\<close>

record position =
  pos_value :: int
  pos_StableKey :: bytes
  pos_OrderingScope :: string

definition pos_tuple :: "position \<Rightarrow> int \<times> bytes \<times> string" where
  "pos_tuple p = (pos_value p, pos_StableKey p, pos_OrderingScope p)"

definition Ordered :: "string \<Rightarrow> string \<Rightarrow> string \<Rightarrow> u64 \<Rightarrow> int \<Rightarrow> statement" where
  "Ordered table ns orderingScope afterOrder limit =
     read_statement
       (''SELECT '' @ RecordColumns @ '' FROM '' @ table @
        '' WHERE namespace = $1 AND ordering_scope = $2 AND order_id > $3::numeric ORDER BY '' @ table @
        ''.order_id ASC, stable_key ASC LIMIT $4'')
       [CText ns, CText orderingScope, CText (FormatUint afterOrder), CInt limit]
       (\<lambda>_ d. map_sum id (\<lambda>es. concat (map (\<lambda>(n, sk). row_at d (ns, orderingScope, sk)) es))
          (sql_limit limit (filter (\<lambda>e. uint afterOrder < fst e) (ordered_entries ns orderingScope d))))"

definition Ranked_query :: "string \<Rightarrow> string \<Rightarrow> string \<Rightarrow> position option \<Rightarrow> int \<Rightarrow> statement" where
  "Ranked_query table ns rankingScope position limit =
     (let args = [CText ns, CText rankingScope] @ (case position of None \<Rightarrow> []
            | Some p \<Rightarrow> [CInt (pos_value p), CBytes (pos_StableKey p), CText (pos_OrderingScope p)]);
          n = wrap_int64 (limit + 1) in
      read_statement
        (''SELECT '' @ RecordColumns @ '' FROM '' @ table @
         '' WHERE namespace = $1 AND ranking_scope = $2 AND ranked AND NOT deleted'' @
         (if position = None then [] else '' AND (rank_value, stable_key, ordering_scope) < ($3, $4, $5)'') @
         '' ORDER BY rank_value DESC, stable_key DESC, ordering_scope DESC LIMIT $'' @ Itoa (int (length args) + 1))
        (args @ [CInt n])
        (\<lambda>_ d. map_sum id (\<lambda>es. concat (map (\<lambda>(v, sk, sc). row_at d (ns, sc, sk)) es))
           (sql_limit n (rest_after (\<lambda>x y. y < x) (map_option pos_tuple position) (ranked_entries ns rankingScope d)))))"

definition Due_query :: "string \<Rightarrow> string \<Rightarrow> int \<Rightarrow> position option \<Rightarrow> int \<Rightarrow> statement" where
  "Due_query table ns dueAtOrBefore position limit =
     (let args = [CText ns, CInt dueAtOrBefore] @ (case position of None \<Rightarrow> []
            | Some p \<Rightarrow> [CInt (pos_value p), CBytes (pos_StableKey p), CText (pos_OrderingScope p)]);
          n = wrap_int64 (limit + 1) in
      read_statement
        (''SELECT '' @ RecordColumns @ '' FROM '' @ table @
         '' WHERE namespace = $1 AND due_state = 1 AND NOT deleted AND due_at <= $2'' @
         (if position = None then [] else '' AND (due_at, stable_key, ordering_scope) > ($3, $4, $5)'') @
         '' ORDER BY due_at ASC, stable_key ASC, ordering_scope ASC LIMIT $'' @ Itoa (int (length args) + 1))
        (args @ [CInt n])
        (\<lambda>_ d. map_sum id (\<lambda>es. concat (map (\<lambda>(v, sk, sc). row_at d (ns, sc, sk)) es))
           (sql_limit n (rest_after (<) (map_option pos_tuple position) (due_entries ns dueAtOrBefore d)))))"

section \<open>The listings are keysets\<close>

lemma strict_sorted_list_of_fset: "sorted_wrt (<) (sorted_list_of_fset S)"
  by (simp add: strict_sorted_iff)

interpretation ranked_keyset: keyset "\<lambda>x y. y < x" "ranked_entries ns rs d"
  by unfold_locales
    (auto simp: ranked_entries_def sorted_wrt_rev strict_sorted_list_of_fset)

interpretation due_keyset: keyset "(<)" "due_entries ns bound d"
  by unfold_locales (auto simp: due_entries_def strict_sorted_list_of_fset)

lemma selected_iff: "k |\<in>| selected P d \<longleftrightarrow> (\<exists>r. fmlookup (t_ordered_records d) k = Some r \<and> P k r)"
  by (auto simp: selected_def fmlookup_dom_iff split: option.splits)

lemma set_ranked_entries:
  "(v, sk, sc) \<in> set (ranked_entries ns rs d) \<longleftrightarrow>
   (\<exists>r. fmlookup (t_ordered_records d) (ns, sc, sk) = Some r \<and> o_ranking_scope r = rs \<and> o_ranked r \<and>
      \<not> o_deleted r \<and> o_rank_value r = v)"
  by (force simp: ranked_entries_def selected_iff row_of_def image_iff)

lemma set_due_entries:
  "(v, sk, sc) \<in> set (due_entries ns bound d) \<longleftrightarrow>
   (\<exists>r. fmlookup (t_ordered_records d) (ns, sc, sk) = Some r \<and> o_due_state r = 1 \<and>
      \<not> o_deleted r \<and> o_due_at r = v \<and> v \<le> bound)"
  by (force simp: due_entries_def selected_iff row_of_def image_iff)

lemma set_ordered_entries:
  "(n, sk) \<in> set (ordered_entries ns sc d) \<longleftrightarrow>
   (\<exists>r. fmlookup (t_ordered_records d) (ns, sc, sk) = Some r \<and> o_order_id r = n)"
  by (force simp: ordered_entries_def selected_iff row_of_def image_iff)

lemma ordered_entries_sorted: "sorted_wrt (<) (ordered_entries ns sc d)"
  by (simp add: ordered_entries_def strict_sorted_list_of_fset)

end
