(* ===== verification/OrderedIndex.thy ===== *)
theory OrderedIndex
  imports OrderedQuery
begin

text \<open>
  \<open>internal/orderedindex/orderedindex.go\<close>: the ordered index.  A record has an identity, a
  revision, an acceptance order that is assigned once, a rank and a due time; \<open>Create\<close>,
  \<open>Update\<close> and \<open>Delete\<close> are read-committed transactions tried up to four times, and a commit
  whose outcome is unknown is followed by a reread that must find exactly the intended record.

  The field \<open>commit\<close> of the Go struct is fixed by \<open>New\<close> to \<open>tx.Commit\<close>; the model calls that
  directly.  The functions and constants of the \<open>storage\<close> package are the parameter
  \<open>storage_api\<close>.
\<close>

section \<open>Records\<close>

record rank =
  rank_Ranked :: bool
  rank_Value :: int

record due =
  due_State :: int
  due_UnixMillis :: int

record ordered_record =
  rec_ID :: ordered_id
  rec_RankingScope :: string
  rec_Revision :: u64
  rec_Order :: u64
  rec_Value :: "bytes option"
  rec_Rank :: rank
  rec_Due :: due
  rec_Deleted :: bool

text \<open>What the code uses of \<open>github.com/looprig/storage\<close>: validators (\<open>None\<close>: accepted) and
  constants.\<close>

record storage_api =
  ValidateName :: "string \<Rightarrow> err option"
  ValidateOrderedID :: "ordered_id \<Rightarrow> err option"
  ValidateOrderedValue :: "bytes option \<Rightarrow> err option"
  ValidateDue :: "due \<Rightarrow> err option"
  ValidateOrderedRecord :: "ordered_record \<Rightarrow> err option"
  ValidateOrderedLimit :: "int \<Rightarrow> err option"
  ValidateStableKey :: "string \<Rightarrow> err option"
  NotDue :: int
  RankedCursorKind_text :: string
  DueCursorKind_text :: string

record ordered_store =
  oi_operationTimeout :: duration
  oi_schema :: string
  oi_tablePrefix :: string
  oi_statementTimeout :: duration
  oi_lockTimeout :: duration

definition ordered_New :: "string \<Rightarrow> string \<Rightarrow> duration list \<Rightarrow> ordered_store" where
  "ordered_New schema tablePrefix operationTimeouts =
     (let (statementTimeout, lockTimeout) = (case operationTimeouts of
            [a, b] \<Rightarrow> (a, b) | _ \<Rightarrow> (30 * second, 5 * second)) in
      \<lparr>oi_operationTimeout = DefaultOperationTimeout, oi_schema = schema, oi_tablePrefix = tablePrefix,
       oi_statementTimeout = statementTimeout, oi_lockTimeout = lockTimeout\<rparr>)"

definition ordered_WithOperationTimeout :: "ordered_store \<Rightarrow> duration \<Rightarrow> ordered_store" where
  "ordered_WithOperationTimeout s timeout = s\<lparr>oi_operationTimeout := timeout\<rparr>"

definition scopesTable :: "ordered_store \<Rightarrow> string" where
  "scopesTable s = Qualified (oi_schema s) (oi_tablePrefix s @ ''ordered_scopes'')"

definition recordsTable :: "ordered_store \<Rightarrow> string" where
  "recordsTable s = Qualified (oi_schema s) (oi_tablePrefix s @ ''ordered_records'')"

section \<open>Helpers\<close>

definition parseUint :: "string \<Rightarrow> u64 result" where
  "parseUint txt = (case ParseUint txt of
     None \<Rightarrow> Inl (RedactedError ''ordered integer decode'')
   | Some value \<Rightarrow> if FormatUint value \<noteq> txt then Inl (RedactedError ''ordered integer decode'') else Inr value)"

definition validateCandidate :: "storage_api \<Rightarrow> string \<Rightarrow> bytes option \<Rightarrow> due \<Rightarrow> err option" where
  "validateCandidate api scope value due =
     (case ValidateName api scope of Some e \<Rightarrow> Some e | None \<Rightarrow>
      (case ValidateOrderedValue api value of Some e \<Rightarrow> Some e | None \<Rightarrow> ValidateDue api due))"

definition cloneValue :: "bytes option \<Rightarrow> bytes option" where
  "cloneValue value = (case value of None \<Rightarrow> None | Some b \<Rightarrow> Some b)"

definition databaseValue :: "bytes option \<Rightarrow> bytes \<times> bool" where
  "databaseValue value = (case value of None \<Rightarrow> ([], True) | Some b \<Rightarrow> (b, False))"

text \<open>A Go string and its bytes are the same sequence.\<close>

definition stableKeyBytes :: "string \<Rightarrow> bytes" where
  "stableKeyBytes key = key"

definition recordsEqual :: "ordered_record \<Rightarrow> ordered_record \<Rightarrow> bool" where
  "recordsEqual a b \<longleftrightarrow> rec_ID a = rec_ID b \<and> rec_RankingScope a = rec_RankingScope b \<and>
     rec_Revision a = rec_Revision b \<and> rec_Order a = rec_Order b \<and> rec_Due a = rec_Due b \<and>
     rec_Rank a = rec_Rank b \<and> bytes_Equal (rec_Value a) (rec_Value b) \<and>
     (rec_Value a = None) = (rec_Value b = None) \<and> rec_Deleted a = rec_Deleted b"

definition mutationMatchesExactPostState :: "ordered_record \<Rightarrow> ordered_record \<Rightarrow> bool" where
  "mutationMatchesExactPostState got want = recordsEqual got want"

fun isContractError :: "err \<Rightarrow> bool" where
  "isContractError (OrderedRecordNotFound _) = True"
| "isContractError (OrderedDeleted _) = True"
| "isContractError (OrderedRevisionConflict _ _ _) = True"
| "isContractError (OrderedRevisionExhausted _ _) = True"
| "isContractError OrderExhausted = True"
| "isContractError InvalidName = True"
| "isContractError InvalidDue = True"
| "isContractError OrderedValueTooLarge = True"
| "isContractError _ = False"

definition ordered_failure :: "go_context \<Rightarrow> string \<Rightarrow> ('z world_scheme, err) state" where
  "ordered_failure ctx operation = do {
     e \<leftarrow> ctx_Err ctx;
     State_Monad.return (case e of Some x \<Rightarrow> CtxError x | None \<Rightarrow> RedactedError operation) }"

definition ordered_safeCause :: "go_context \<Rightarrow> string \<Rightarrow> ('z world_scheme, err) state" where
  "ordered_safeCause ctx operation = do {
     e \<leftarrow> ctx_Err ctx;
     State_Monad.return (case e of Some x \<Rightarrow> CtxError x | None \<Rightarrow> RedactedError operation) }"

section \<open>Reading a row\<close>

definition and_then :: "'a result \<Rightarrow> ('a \<Rightarrow> 'b result) \<Rightarrow> 'b result" where
  "and_then r f = (case r of Inl e \<Rightarrow> Inl e | Inr x \<Rightarrow> f x)"

definition scan_int16 :: "cell \<Rightarrow> int result" where
  "scan_int16 c = (case c of
     CInt n \<Rightarrow> if - 32768 \<le> n \<and> n \<le> 32767 then Inr n else Inl DriverError
   | _ \<Rightarrow> Inl DriverError)"

text \<open>What \<open>scanRecord\<close> does with the scanned columns.\<close>

definition decodeRecord ::
  "storage_api \<Rightarrow> ordered_id \<Rightarrow> string \<Rightarrow> string \<Rightarrow> string \<Rightarrow> bytes option \<Rightarrow> bool \<Rightarrow> rank \<Rightarrow> int \<Rightarrow> int \<Rightarrow> bool \<Rightarrow>
   ordered_record result" where
  "decodeRecord api oid rankingScope revisionText orderText value valueIsNil rank dueState unixMillis deleted =
     and_then (parseUint revisionText) (\<lambda>revision.
     and_then (parseUint orderText) (\<lambda>order.
     if dueState < 0 \<or> dueState > 255 then Inl (RedactedError ''ordered due-state decode'')
     else
      (let record = \<lparr>rec_ID = oid, rec_RankingScope = rankingScope, rec_Revision = revision, rec_Order = order,
             rec_Value = (if valueIsNil then None else value), rec_Rank = rank,
             rec_Due = \<lparr>due_State = dueState, due_UnixMillis = unixMillis\<rparr>, rec_Deleted = deleted\<rparr> in
       case ValidateOrderedRecord api record of Some e \<Rightarrow> Inl e | None \<Rightarrow> Inr record)))"

definition scanRecord :: "storage_api \<Rightarrow> row \<Rightarrow> ordered_record result" where
  "scanRecord api r = (case r of
     [c1, c2, c3, c4, c5, c6, c7, c8, c9, c10, c11, c12, c13] \<Rightarrow>
       and_then (scan_text c1) (\<lambda>ns. and_then (scan_text c2) (\<lambda>sc. and_then (scan_bytes c3) (\<lambda>stableKey.
       and_then (scan_text c4) (\<lambda>rankingScope. and_then (scan_text c5) (\<lambda>revisionText.
       and_then (scan_text c6) (\<lambda>orderText. and_then (scan_bytes c7) (\<lambda>value. and_then (scan_bool c8) (\<lambda>valueIsNil.
       and_then (scan_bool c9) (\<lambda>ranked. and_then (scan_int64 c10) (\<lambda>rankValue. and_then (scan_int16 c11) (\<lambda>dueState.
       and_then (scan_int64 c12) (\<lambda>unixMillis. and_then (scan_bool c13) (\<lambda>deleted.
         decodeRecord api \<lparr>Namespace = ns, OrderingScope = sc, StableKey = case_option [] id stableKey\<rparr>
           rankingScope revisionText orderText value valueIsNil \<lparr>rank_Ranked = ranked, rank_Value = rankValue\<rparr>
           dueState unixMillis deleted)))))))))))))
   | _ \<Rightarrow> Inl DriverError)"

fun scanRecords :: "storage_api \<Rightarrow> row list \<Rightarrow> ordered_record list result" where
  "scanRecords api [] = Inr []"
| "scanRecords api (r # rs) = (case scanRecord api r of Inl e \<Rightarrow> Inl e | Inr record \<Rightarrow>
     (case scanRecords api rs of Inl e \<Rightarrow> Inl e | Inr records \<Rightarrow> Inr (record # records)))"

section \<open>Statements\<close>

definition id_key :: "ordered_id \<Rightarrow> ordered_key" where
  "id_key oid = (Namespace oid, OrderingScope oid, stableKeyBytes (StableKey oid))"

definition id_row :: "ordered_id \<Rightarrow> row_key" where
  "id_row oid = OrderRecordRow (Namespace oid) (OrderingScope oid) (stableKeyBytes (StableKey oid))"

definition id_args :: "ordered_id \<Rightarrow> row" where
  "id_args oid = [CText (Namespace oid), CText (OrderingScope oid), CBytes (stableKeyBytes (StableKey oid))]"

definition select_record_stmt :: "ordered_store \<Rightarrow> ordered_id \<Rightarrow> string \<Rightarrow> statement" where
  "select_record_stmt s oid suffix =
     (let q = ''SELECT '' @ RecordColumns @ '' FROM '' @ recordsTable s @
            '' WHERE namespace = $1 AND ordering_scope = $2 AND stable_key = $3'' @ suffix;
          sem = (\<lambda>_ d. Inr (row_at d (id_key oid))) in
      if suffix = [] then read_statement q (id_args oid) sem
      else locking_statement q (id_args oid) (id_row oid) sem)"

definition ensure_order_stmt :: "ordered_store \<Rightarrow> ordered_id \<Rightarrow> statement" where
  "ensure_order_stmt s oid =
     write_statement (''INSERT INTO '' @ scopesTable s @
         '' (namespace, ordering_scope, next_order) VALUES ($1, $2, 0) ON CONFLICT (namespace, ordering_scope) DO NOTHING'')
       [CText (Namespace oid), CText (OrderingScope oid)] [OrderScopeRow (Namespace oid) (OrderingScope oid)]
       (\<lambda>_ d. case fmlookup (t_ordered_scopes d) (Namespace oid, OrderingScope oid) of
          Some _ \<Rightarrow> (Inr [], []) | None \<Rightarrow> (Inr [], [WOrderScope (Namespace oid) (OrderingScope oid) (Some 0)]))"

definition lock_order_stmt :: "ordered_store \<Rightarrow> ordered_id \<Rightarrow> statement" where
  "lock_order_stmt s oid =
     locking_statement (''SELECT next_order::text FROM '' @ scopesTable s @
         '' WHERE namespace = $1 AND ordering_scope = $2 FOR UPDATE'')
       [CText (Namespace oid), CText (OrderingScope oid)] (OrderScopeRow (Namespace oid) (OrderingScope oid))
       (\<lambda>_ d. case fmlookup (t_ordered_scopes d) (Namespace oid, OrderingScope oid) of
          None \<Rightarrow> Inr [] | Some n \<Rightarrow> Inr [[CText (FormatInt n)]])"

definition advance_order_stmt :: "ordered_store \<Rightarrow> ordered_id \<Rightarrow> statement" where
  "advance_order_stmt s oid =
     write_statement (''UPDATE '' @ scopesTable s @
         '' SET next_order = next_order + 1 WHERE namespace = $1 AND ordering_scope = $2 RETURNING next_order::text'')
       [CText (Namespace oid), CText (OrderingScope oid)] [OrderScopeRow (Namespace oid) (OrderingScope oid)]
       (\<lambda>_ d. case fmlookup (t_ordered_scopes d) (Namespace oid, OrderingScope oid) of
          None \<Rightarrow> (Inr [], [])
        | Some n \<Rightarrow> if next_order_ok (n + 1)
            then (Inr [[CText (FormatInt (n + 1))]], [WOrderScope (Namespace oid) (OrderingScope oid) (Some (n + 1))])
            else (Inl check_violation, []))"

definition insert_ordered_stmt ::
  "ordered_store \<Rightarrow> ordered_id \<Rightarrow> string \<Rightarrow> string \<Rightarrow> u64 \<Rightarrow> bytes \<Rightarrow> bool \<Rightarrow> rank \<Rightarrow> due \<Rightarrow> statement" where
  "insert_ordered_stmt s oid rankingScope orderText order storedValue valueIsNil rank due =
     write_statement (''INSERT INTO '' @ recordsTable s @
         '' (namespace, ordering_scope, stable_key, ranking_scope, revision, order_id, value, value_is_nil, ranked, rank_value, due_state, due_at, deleted) VALUES ($1, $2, $3, $4, 1, $5::numeric, $6, $7, $8, $9, $10, $11, false)'')
       (id_args oid @ [CText rankingScope, CText orderText, CBytes storedValue, CBool valueIsNil,
          CBool (rank_Ranked rank), CInt (rank_Value rank), CInt (due_State due), CInt (due_UnixMillis due)])
       [id_row oid]
       (\<lambda>_ d. let r = \<lparr>o_ranking_scope = rankingScope, o_revision = 1, o_order_id = uint order,
                o_value = storedValue, o_value_is_nil = valueIsNil, o_ranked = rank_Ranked rank,
                o_rank_value = rank_Value rank, o_due_state = due_State due, o_due_at = due_UnixMillis due,
                o_deleted = False\<rparr> in
          if \<not> ordered_row_ok r then (Inl check_violation, [])
          else if id_key oid |\<in>| fmdom (t_ordered_records d) then (Inl unique_violation, [])
          else (Inr [], [WOrderRecord (Namespace oid) (OrderingScope oid) (stableKeyBytes (StableKey oid)) (Some r)]))"

definition update_row_sem ::
  "ordered_id \<Rightarrow> (ordered_row \<Rightarrow> ordered_row) \<Rightarrow> database \<Rightarrow> row list result \<times> row_write list" where
  "update_row_sem oid f d = (case fmlookup (t_ordered_records d) (id_key oid) of
     None \<Rightarrow> (Inr [], [])
   | Some r \<Rightarrow> if ordered_row_ok (f r)
       then (Inr [], [WOrderRecord (Namespace oid) (OrderingScope oid) (stableKeyBytes (StableKey oid)) (Some (f r))])
       else (Inl check_violation, []))"

definition update_ordered_stmt ::
  "ordered_store \<Rightarrow> ordered_id \<Rightarrow> bytes \<Rightarrow> bool \<Rightarrow> rank \<Rightarrow> due \<Rightarrow> statement" where
  "update_ordered_stmt s oid storedValue valueIsNil rank due =
     write_statement (''UPDATE '' @ recordsTable s @
         '' SET revision = revision + 1, value = $4, value_is_nil = $5, ranked = $6, rank_value = $7, due_state = $8, due_at = $9 WHERE namespace = $1 AND ordering_scope = $2 AND stable_key = $3'')
       (id_args oid @ [CBytes storedValue, CBool valueIsNil, CBool (rank_Ranked rank), CInt (rank_Value rank),
          CInt (due_State due), CInt (due_UnixMillis due)])
       [id_row oid]
       (\<lambda>_. update_row_sem oid (\<lambda>r. r\<lparr>o_revision := o_revision r + 1, o_value := storedValue,
          o_value_is_nil := valueIsNil, o_ranked := rank_Ranked rank, o_rank_value := rank_Value rank,
          o_due_state := due_State due, o_due_at := due_UnixMillis due\<rparr>))"

definition delete_ordered_stmt :: "ordered_store \<Rightarrow> ordered_id \<Rightarrow> statement" where
  "delete_ordered_stmt s oid =
     write_statement (''UPDATE '' @ recordsTable s @
         '' SET revision = revision + 1, ranked = false, rank_value = 0, due_state = 0, due_at = 0, deleted = true WHERE namespace = $1 AND ordering_scope = $2 AND stable_key = $3'')
       (id_args oid) [id_row oid]
       (\<lambda>_. update_row_sem oid (\<lambda>r. r\<lparr>o_revision := o_revision r + 1, o_ranked := False, o_rank_value := 0,
          o_due_state := 0, o_due_at := 0, o_deleted := True\<rparr>))"

section \<open>Direct reads\<close>

text \<open>\<open>queryer.QueryRow(ctx, ...)\<close> of the pool or of the open transaction is the argument.\<close>

definition ordered_getFrom ::
  "storage_api \<Rightarrow> ordered_store \<Rightarrow> (statement \<Rightarrow> ('z world_scheme, row result) state) \<Rightarrow> ordered_id \<Rightarrow> string \<Rightarrow>
   ('z world_scheme, ordered_record result) state" where
  "ordered_getFrom api s QueryRow oid suffix = do {
     q \<leftarrow> QueryRow (select_record_stmt s oid suffix);
     State_Monad.return (scanned (scanRecord api) q) }"

definition ordered_get ::
  "storage_api \<Rightarrow> ordered_store \<Rightarrow> go_context \<Rightarrow> ordered_id \<Rightarrow> ('z world_scheme, ordered_record result) state" where
  "ordered_get api s ctx oid = ordered_getFrom api s (pool_QueryRow ctx) oid []"

definition ordered_getForUpdate ::
  "storage_api \<Rightarrow> ordered_store \<Rightarrow> go_context \<Rightarrow> ordered_id \<Rightarrow> ('z world_scheme, ordered_record result) state" where
  "ordered_getForUpdate api s ctx oid = ordered_getFrom api s (tx_QueryRow ctx) oid '' FOR UPDATE''"

definition ordered_Get ::
  "storage_api \<Rightarrow> ordered_store \<Rightarrow> go_context option \<Rightarrow> ordered_id \<Rightarrow> ('z world_scheme, ordered_record result) state" where
  "ordered_Get api s ctx0 oid = do {
     b \<leftarrow> Bound ctx0 ''OrderedIndex.Get'' (oi_operationTimeout s);
     case b of Inl e \<Rightarrow> State_Monad.return (Inl e) | Inr ctx \<Rightarrow>
     (case ValidateOrderedID api oid of Some e \<Rightarrow> State_Monad.return (Inl e) | None \<Rightarrow> do {
        g \<leftarrow> ordered_get api s ctx oid;
        case g of
          Inl e \<Rightarrow> if e = ErrNoRows then State_Monad.return (Inl (OrderedRecordNotFound oid))
                   else do { f \<leftarrow> ordered_failure ctx ''ordered get''; State_Monad.return (Inl f) }
        | Inr record \<Rightarrow> State_Monad.return (Inr record) }) }"

section \<open>One attempt\<close>

text \<open>
  What an attempt returns: a result, an error, or \<open>commitOutcomeError\<close> -- the commit's outcome is
  unknown -- together with the record the attempt meant to store.
\<close>

datatype 'a attempt = Finished 'a | Failed err | Unknown ordered_record err

text \<open>The end of every attempt: \<open>s.commit(ctx, tx)\<close> and the classification of its error.\<close>

definition ordered_commit ::
  "go_context \<Rightarrow> string \<Rightarrow> ordered_record \<Rightarrow> 'a \<Rightarrow> ('z world_scheme, 'a attempt) state" where
  "ordered_commit ctx operation want done0 = do {
     c \<leftarrow> tx_Commit ctx;
     case c of
       Inr _ \<Rightarrow> State_Monad.return (Finished done0)
     | Inl e \<Rightarrow> if Retryable e then State_Monad.return (Failed e)
         else do { cause \<leftarrow> ordered_safeCause ctx operation; State_Monad.return (Unknown want cause) } }"

text \<open>\<open>BeginTx\<close>, the transaction-local timeouts, the body, and the deferred rollback.\<close>

definition ordered_transaction ::
  "ordered_store \<Rightarrow> go_context \<Rightarrow> ('z world_scheme, 'a attempt) state \<Rightarrow> ('z world_scheme, 'a attempt) state" where
  "ordered_transaction s ctx body = do {
     b \<leftarrow> BeginTx ctx ReadCommitted;
     case b of Inl e \<Rightarrow> State_Monad.return (Failed e) | Inr _ \<Rightarrow> do {
       r \<leftarrow> do {
         t \<leftarrow> SetLocalTimeouts ctx (oi_statementTimeout s) (oi_lockTimeout s);
         case t of Inl e \<Rightarrow> State_Monad.return (Failed e) | Inr _ \<Rightarrow> body };
       Rollback;
       State_Monad.return r } }"

definition new_record :: "ordered_id \<Rightarrow> string \<Rightarrow> bytes option \<Rightarrow> rank \<Rightarrow> due \<Rightarrow> u64 \<Rightarrow> ordered_record" where
  "new_record oid rankingScope value rank due order =
     \<lparr>rec_ID = oid, rec_RankingScope = rankingScope, rec_Revision = 1, rec_Order = order,
      rec_Value = cloneValue value, rec_Rank = rank, rec_Due = due, rec_Deleted = False\<rparr>"

text \<open>\<open>createOnce\<close> from the point where the next order has been drawn.\<close>

definition ordered_createInsert ::
  "ordered_store \<Rightarrow> go_context \<Rightarrow> ordered_id \<Rightarrow> string \<Rightarrow> bytes option \<Rightarrow> rank \<Rightarrow> due \<Rightarrow> string \<Rightarrow>
   ('z world_scheme, (ordered_record \<times> bool) attempt) state" where
  "ordered_createInsert s ctx oid rankingScope value rank due orderText =
     (case parseUint orderText of
        Inl _ \<Rightarrow> State_Monad.return (Failed (RedactedError ''ordered order decode''))
      | Inr order \<Rightarrow>
          if order = 0 then State_Monad.return (Failed (RedactedError ''ordered order decode''))
          else
           (let (storedValue, valueIsNil) = databaseValue value;
                record = new_record oid rankingScope value rank due order in do {
              i \<leftarrow> tx_Exec ctx (insert_ordered_stmt s oid rankingScope orderText order storedValue valueIsNil rank due);
              case i of Inl e \<Rightarrow> State_Monad.return (Failed e) | Inr _ \<Rightarrow>
              ordered_commit ctx ''ordered create commit'' record (record, True) }))"

text \<open>\<open>createOnce\<close> with the counter row locked.\<close>

definition ordered_createLocked ::
  "storage_api \<Rightarrow> ordered_store \<Rightarrow> go_context \<Rightarrow> ordered_id \<Rightarrow> string \<Rightarrow> bytes option \<Rightarrow> rank \<Rightarrow> due \<Rightarrow> string \<Rightarrow>
   ('z world_scheme, (ordered_record \<times> bool) attempt) state" where
  "ordered_createLocked api s ctx oid rankingScope value rank due orderText = do {
     g \<leftarrow> ordered_getFrom api s (tx_QueryRow ctx) oid [];
     case g of Inr lockedExisting \<Rightarrow> State_Monad.return (Finished (lockedExisting, False))
     | Inl readErr \<Rightarrow>
     if readErr \<noteq> ErrNoRows then State_Monad.return (Failed readErr)
     else
      (case parseUint orderText of Inl e \<Rightarrow> State_Monad.return (Failed e)
       | Inr currentOrder \<Rightarrow>
         if uint currentOrder = max_uint64 then State_Monad.return (Failed OrderExhausted)
         else do {
           u \<leftarrow> tx_QueryRow ctx (advance_order_stmt s oid);
           case scanned scan_one_text u of
             Inl e \<Rightarrow> State_Monad.return (Failed (if e = ErrNoRows then OrderExhausted else e))
           | Inr orderText' \<Rightarrow> ordered_createInsert s ctx oid rankingScope value rank due orderText' }) }"

definition ordered_createBody ::
  "storage_api \<Rightarrow> ordered_store \<Rightarrow> go_context \<Rightarrow> ordered_id \<Rightarrow> string \<Rightarrow> bytes option \<Rightarrow> rank \<Rightarrow> due \<Rightarrow>
   ('z world_scheme, (ordered_record \<times> bool) attempt) state" where
  "ordered_createBody api s ctx oid rankingScope value rank due = do {
     g \<leftarrow> ordered_getFrom api s (tx_QueryRow ctx) oid [];
     case g of Inr preexisting \<Rightarrow> State_Monad.return (Finished (preexisting, False))
     | Inl readErr \<Rightarrow>
     if readErr \<noteq> ErrNoRows then State_Monad.return (Failed readErr)
     else do {
       i \<leftarrow> tx_Exec ctx (ensure_order_stmt s oid);
       case i of Inl e \<Rightarrow> State_Monad.return (Failed e) | Inr _ \<Rightarrow> do {
       l \<leftarrow> tx_QueryRow ctx (lock_order_stmt s oid);
       case scanned scan_one_text l of Inl e \<Rightarrow> State_Monad.return (Failed e)
       | Inr orderText \<Rightarrow> ordered_createLocked api s ctx oid rankingScope value rank due orderText } } }"

definition ordered_createOnce ::
  "storage_api \<Rightarrow> ordered_store \<Rightarrow> go_context \<Rightarrow> ordered_id \<Rightarrow> string \<Rightarrow> bytes option \<Rightarrow> rank \<Rightarrow> due \<Rightarrow>
   ('z world_scheme, (ordered_record \<times> bool) attempt) state" where
  "ordered_createOnce api s ctx oid rankingScope value rank due =
     ordered_transaction s ctx (ordered_createBody api s ctx oid rankingScope value rank due)"

text \<open>\<open>updateOnce\<close> once the locked record was read; \<open>next.Revision++\<close> wraps as \<open>uint64\<close> does.\<close>

definition ordered_updateLocked ::
  "storage_api \<Rightarrow> ordered_store \<Rightarrow> go_context \<Rightarrow> ordered_id \<Rightarrow> u64 \<Rightarrow> bytes option \<Rightarrow> rank \<Rightarrow> due \<Rightarrow> ordered_record \<Rightarrow>
   ('z world_scheme, ordered_record attempt) state" where
  "ordered_updateLocked api s ctx oid expectedRevision value rank due current =
     (if rec_Deleted current then State_Monad.return (Failed (OrderedDeleted oid))
      else case ValidateOrderedValue api value of Some e \<Rightarrow> State_Monad.return (Failed e) | None \<Rightarrow>
      (case ValidateDue api due of Some e \<Rightarrow> State_Monad.return (Failed e) | None \<Rightarrow>
      if rec_Revision current \<noteq> expectedRevision
      then State_Monad.return (Failed (OrderedRevisionConflict oid expectedRevision (rec_Revision current)))
      else if uint (rec_Revision current) = max_uint64
      then State_Monad.return (Failed (OrderedRevisionExhausted oid (rec_Revision current)))
      else
       (let (storedValue, valueIsNil) = databaseValue value;
            next = current\<lparr>rec_Revision := rec_Revision current + 1, rec_Value := cloneValue value,
              rec_Rank := rank, rec_Due := due\<rparr> in do {
          u \<leftarrow> tx_Exec ctx (update_ordered_stmt s oid storedValue valueIsNil rank due);
          case u of Inl e \<Rightarrow> State_Monad.return (Failed e) | Inr _ \<Rightarrow>
          ordered_commit ctx ''ordered update commit'' next next })))"

definition ordered_deleteLocked ::
  "storage_api \<Rightarrow> ordered_store \<Rightarrow> go_context \<Rightarrow> ordered_id \<Rightarrow> u64 \<Rightarrow> ordered_record \<Rightarrow>
   ('z world_scheme, ordered_record attempt) state" where
  "ordered_deleteLocked api s ctx oid expectedRevision current =
     (if rec_Deleted current then State_Monad.return (Finished current)
      else if rec_Revision current \<noteq> expectedRevision
      then State_Monad.return (Failed (OrderedRevisionConflict oid expectedRevision (rec_Revision current)))
      else if uint (rec_Revision current) = max_uint64
      then State_Monad.return (Failed (OrderedRevisionExhausted oid (rec_Revision current)))
      else
       (let next = current\<lparr>rec_Revision := rec_Revision current + 1, rec_Deleted := True,
              rec_Rank := \<lparr>rank_Ranked = False, rank_Value = 0\<rparr>,
              rec_Due := \<lparr>due_State = NotDue api, due_UnixMillis = 0\<rparr>\<rparr> in do {
          u \<leftarrow> tx_Exec ctx (delete_ordered_stmt s oid);
          case u of Inl e \<Rightarrow> State_Monad.return (Failed e) | Inr _ \<Rightarrow>
          ordered_commit ctx ''ordered delete commit'' next next }))"

text \<open>The read that \<open>updateOnce\<close> and \<open>deleteOnce\<close> begin with: the record, locked.\<close>

definition ordered_lockedBody ::
  "storage_api \<Rightarrow> ordered_store \<Rightarrow> go_context \<Rightarrow> ordered_id \<Rightarrow>
   (ordered_record \<Rightarrow> ('z world_scheme, ordered_record attempt) state) \<Rightarrow> ('z world_scheme, ordered_record attempt) state" where
  "ordered_lockedBody api s ctx oid rest = do {
     g \<leftarrow> ordered_getForUpdate api s ctx oid;
     case g of
       Inl e \<Rightarrow> State_Monad.return (Failed (if e = ErrNoRows then OrderedRecordNotFound oid else e))
     | Inr current \<Rightarrow> rest current }"

definition ordered_updateOnce ::
  "storage_api \<Rightarrow> ordered_store \<Rightarrow> go_context \<Rightarrow> ordered_id \<Rightarrow> u64 \<Rightarrow> bytes option \<Rightarrow> rank \<Rightarrow> due \<Rightarrow>
   ('z world_scheme, ordered_record attempt) state" where
  "ordered_updateOnce api s ctx oid expectedRevision value rank due =
     ordered_transaction s ctx (ordered_lockedBody api s ctx oid
       (ordered_updateLocked api s ctx oid expectedRevision value rank due))"

definition ordered_deleteOnce ::
  "storage_api \<Rightarrow> ordered_store \<Rightarrow> go_context \<Rightarrow> ordered_id \<Rightarrow> u64 \<Rightarrow> ('z world_scheme, ordered_record attempt) state" where
  "ordered_deleteOnce api s ctx oid expectedRevision =
     ordered_transaction s ctx (ordered_lockedBody api s ctx oid
       (ordered_deleteLocked api s ctx oid expectedRevision))"

section \<open>The attempts\<close>

definition resolveCreate ::
  "storage_api \<Rightarrow> ordered_store \<Rightarrow> ordered_id \<Rightarrow> ordered_record \<Rightarrow> err \<Rightarrow>
   ('z world_scheme, (ordered_record \<times> bool) result) state" where
  "resolveCreate api s oid want cause = do {
     ctx \<leftarrow> WithTimeout Background AuthoritativeReadTimeout;
     g \<leftarrow> ordered_get api s ctx oid;
     State_Monad.return (case g of
         Inr got \<Rightarrow> if recordsEqual got want then Inr (got, True)
                    else Inl (OrderedAmbiguous OrderedCreateOperation oid cause)
       | Inl _ \<Rightarrow> Inl (OrderedAmbiguous OrderedCreateOperation oid cause)) }"

definition resolveMutation ::
  "storage_api \<Rightarrow> ordered_store \<Rightarrow> ordered_operation \<Rightarrow> ordered_id \<Rightarrow> ordered_record \<Rightarrow> err \<Rightarrow>
   ('z world_scheme, ordered_record result) state" where
  "resolveMutation api s operation oid want cause = do {
     ctx \<leftarrow> WithTimeout Background AuthoritativeReadTimeout;
     g \<leftarrow> ordered_get api s ctx oid;
     State_Monad.return (case g of
         Inr got \<Rightarrow> if mutationMatchesExactPostState got want then Inr got
                    else Inl (OrderedAmbiguous operation oid cause)
       | Inl _ \<Rightarrow> Inl (OrderedAmbiguous operation oid cause)) }"

text \<open>
  The loop of \<open>Create\<close>, \<open>Update\<close> and \<open>Delete\<close>, which differ in the attempt, in the resolution of
  an unknown outcome and in the operation named by the error.  The error of a context stays once
  it is set, so the second \<open>ctx.Err()\<close> after a failed one is that error.
\<close>

function ordered_retry ::
  "go_context \<Rightarrow> string \<Rightarrow> ('z world_scheme, 'a attempt) state \<Rightarrow>
   (ordered_record \<Rightarrow> err \<Rightarrow> ('z world_scheme, 'a result) state) \<Rightarrow> nat \<Rightarrow> ('z world_scheme, 'a result) state" where
  "ordered_retry ctx operation once resolve attempt =
     (if attempt < Attempts then do {
        r \<leftarrow> once;
        case r of
          Finished x \<Rightarrow> State_Monad.return (Inr x)
        | Unknown want cause \<Rightarrow> resolve want cause
        | Failed e \<Rightarrow>
            if isContractError e then State_Monad.return (Inl e)
            else do {
              c1 \<leftarrow> (if Retryable e then ctx_Err ctx else State_Monad.return None);
              case c1 of Some x \<Rightarrow> State_Monad.return (Inl (CtxError x)) | None \<Rightarrow>
              if Retryable e \<and> attempt + 1 < Attempts
              then ordered_retry ctx operation once resolve (attempt + 1)
              else do {
                c2 \<leftarrow> ctx_Err ctx;
                case c2 of Some x \<Rightarrow> State_Monad.return (Inl (CtxError x)) | None \<Rightarrow> do {
                  f \<leftarrow> ordered_failure ctx operation;
                  State_Monad.return (Inl f) } } } }
      else State_Monad.return (Inl (PlainError ''panic: unreachable'')))"
  by pat_completeness auto

termination
  by (relation "measure (\<lambda>(ctx, operation, once, resolve, attempt). Attempts - attempt)") auto

declare ordered_retry.simps [simp del]

section \<open>The operations\<close>

definition ordered_Create ::
  "storage_api \<Rightarrow> ordered_store \<Rightarrow> go_context option \<Rightarrow> ordered_id \<Rightarrow> string \<Rightarrow> bytes option \<Rightarrow> rank \<Rightarrow> due \<Rightarrow>
   ('z world_scheme, (ordered_record \<times> bool) result) state" where
  "ordered_Create api s ctx0 oid rankingScope value rank due = do {
     b \<leftarrow> Bound ctx0 ''OrderedIndex.Create'' (oi_operationTimeout s);
     case b of Inl e \<Rightarrow> State_Monad.return (Inl e) | Inr ctx \<Rightarrow>
     (case ValidateOrderedID api oid of Some e \<Rightarrow> State_Monad.return (Inl e) | None \<Rightarrow> do {
        g \<leftarrow> ordered_get api s ctx oid;
        case g of
          Inr existing \<Rightarrow> State_Monad.return (Inr (existing, False))
        | Inl e \<Rightarrow>
            if e \<noteq> ErrNoRows
            then do { f \<leftarrow> ordered_failure ctx ''ordered create lookup''; State_Monad.return (Inl f) }
            else (case validateCandidate api rankingScope value due of
                Some e \<Rightarrow> State_Monad.return (Inl e)
              | None \<Rightarrow> ordered_retry ctx ''ordered create''
                  (ordered_createOnce api s ctx oid rankingScope value rank due) (resolveCreate api s oid) 0) }) }"

definition ordered_Update ::
  "storage_api \<Rightarrow> ordered_store \<Rightarrow> go_context option \<Rightarrow> ordered_id \<Rightarrow> u64 \<Rightarrow> bytes option \<Rightarrow> rank \<Rightarrow> due \<Rightarrow>
   ('z world_scheme, ordered_record result) state" where
  "ordered_Update api s ctx0 oid expectedRevision value rank due = do {
     b \<leftarrow> Bound ctx0 ''OrderedIndex.Update'' (oi_operationTimeout s);
     case b of Inl e \<Rightarrow> State_Monad.return (Inl e) | Inr ctx \<Rightarrow>
     (case ValidateOrderedID api oid of Some e \<Rightarrow> State_Monad.return (Inl e) | None \<Rightarrow>
        ordered_retry ctx ''ordered update''
          (ordered_updateOnce api s ctx oid expectedRevision value rank due)
          (resolveMutation api s OrderedUpdateOperation oid) 0) }"

definition ordered_Delete ::
  "storage_api \<Rightarrow> ordered_store \<Rightarrow> go_context option \<Rightarrow> ordered_id \<Rightarrow> u64 \<Rightarrow>
   ('z world_scheme, ordered_record result) state" where
  "ordered_Delete api s ctx0 oid expectedRevision = do {
     b \<leftarrow> Bound ctx0 ''OrderedIndex.Delete'' (oi_operationTimeout s);
     case b of Inl e \<Rightarrow> State_Monad.return (Inl e) | Inr ctx \<Rightarrow>
     (case ValidateOrderedID api oid of Some e \<Rightarrow> State_Monad.return (Inl e) | None \<Rightarrow>
        ordered_retry ctx ''ordered delete''
          (ordered_deleteOnce api s ctx oid expectedRevision)
          (resolveMutation api s OrderedDeleteOperation oid) 0) }"

record ordered_page =
  page_Records :: "ordered_record list"
  page_NextAfterOrder :: u64

definition ordered_ListOrdered ::
  "storage_api \<Rightarrow> ordered_store \<Rightarrow> go_context option \<Rightarrow> string \<Rightarrow> string \<Rightarrow> u64 \<Rightarrow> int \<Rightarrow>
   ('z world_scheme, ordered_page result) state" where
  "ordered_ListOrdered api s ctx0 ns orderingScope afterOrder limit = do {
     b \<leftarrow> Bound ctx0 ''OrderedIndex.ListOrdered'' (oi_operationTimeout s);
     case b of Inl e \<Rightarrow> State_Monad.return (Inl e) | Inr ctx \<Rightarrow>
     (case ValidateName api ns of Some e \<Rightarrow> State_Monad.return (Inl e) | None \<Rightarrow>
     (case ValidateName api orderingScope of Some e \<Rightarrow> State_Monad.return (Inl e) | None \<Rightarrow>
     (case ValidateOrderedLimit api limit of Some e \<Rightarrow> State_Monad.return (Inl e) | None \<Rightarrow> do {
        q \<leftarrow> pool_Query ctx (Ordered (recordsTable s) ns orderingScope afterOrder limit);
        case and_then q (scanRecords api) of
          Inl _ \<Rightarrow> do { f \<leftarrow> ordered_failure ctx ''ordered list order''; State_Monad.return (Inl f) }
        | Inr records \<Rightarrow> State_Monad.return (Inr
            \<lparr>page_Records = records,
             page_NextAfterOrder = (if records = [] then 0 else rec_Order (last records))\<rparr>) }))) }"

end
