(* ===== verification/OrderedChanges.thy ===== *)
theory OrderedChanges
  imports OrderedIndex
begin

text \<open>
  What \<open>Create\<close>, \<open>Update\<close> and \<open>Delete\<close> of the ordered index change.  The retry loop is reasoned
  about once, in the locale \<open>attempts\<close>: from what one attempt and the reread promise it derives
  what the operation promises.  The locale is interpreted for the three operations, and their
  properties follow.
\<close>

section \<open>Rows and records\<close>

text \<open>The row stores the record.\<close>

definition row_shows :: "ordered_row \<Rightarrow> ordered_record \<Rightarrow> bool" where
  "row_shows row r \<longleftrightarrow>
     o_ranking_scope row = rec_RankingScope r \<and> o_revision row = uint (rec_Revision r) \<and>
     o_order_id row = uint (rec_Order r) \<and>
     (if o_value_is_nil row then None else Some (o_value row)) = rec_Value r \<and>
     o_ranked row = rank_Ranked (rec_Rank r) \<and> o_rank_value row = rank_Value (rec_Rank r) \<and>
     o_due_state row = due_State (rec_Due r) \<and> o_due_at row = due_UnixMillis (rec_Due r) \<and>
     o_deleted row = rec_Deleted r"

definition shown :: "ordered_record \<Rightarrow> database \<Rightarrow> bool" where
  "shown r d \<longleftrightarrow> (\<exists>row. fmlookup (t_ordered_records d) (id_key (rec_ID r)) = Some row \<and> row_shows row r)"

lemma and_then_simps [simp]: "and_then (Inl e) f = Inl e" "and_then (Inr x) f = f x"
  by (simp_all add: and_then_def)

lemma and_then_Inr: "and_then r f = Inr y \<longleftrightarrow> (\<exists>x. r = Inr x \<and> f x = Inr y)"
  by (cases r) auto

lemma parse_minus: "parse_digits n (CHR ''-'' # s) = None"
  by (simp add: digit_value_def)

lemma FormatInt_FormatUint: "FormatInt z = FormatUint u \<longleftrightarrow> z = uint u"
proof (cases "z < 0")
  case True
  have "FormatInt z \<noteq> FormatUint u"
  proof
    assume "FormatInt z = FormatUint u"
    then have "parse_digits 0 (CHR ''-'' # format_nat (nat (- z))) = Some (unat u)"
      using True parse_format_nat [of "unat u"] by (simp add: FormatInt_def FormatUint_def)
    then show False by (simp only: parse_minus) simp
  qed
  moreover have "z \<noteq> uint u" using True uint_ge_0 [of u] by linarith
  ultimately show ?thesis by simp
next
  case False
  then have "nat z = unat u \<longleftrightarrow> z = int (unat u)" by linarith
  with False show ?thesis by (simp add: FormatInt_def FormatUint_def)
qed

lemma parseUint_FormatInt: "parseUint (FormatInt z) = Inr u \<longleftrightarrow> z = uint u"
proof
  assume "parseUint (FormatInt z) = Inr u"
  then have "FormatInt z = FormatUint u" by (auto simp: parseUint_def split: option.splits if_splits)
  then show "z = uint u" by (simp add: FormatInt_FormatUint)
next
  assume "z = uint u"
  then have "FormatInt z = FormatUint u" by (simp add: FormatInt_FormatUint)
  then show "parseUint (FormatInt z) = Inr u" by (simp add: parseUint_def)
qed

lemma scanRecord_row:
  "scanRecord api (record_row (ns, sc, sk) row) =
     (if \<not> (- max_int64 - 1 \<le> o_rank_value row \<and> o_rank_value row \<le> max_int64) then Inl DriverError
      else if \<not> (- 32768 \<le> o_due_state row \<and> o_due_state row \<le> 32767) then Inl DriverError
      else if \<not> (- max_int64 - 1 \<le> o_due_at row \<and> o_due_at row \<le> max_int64) then Inl DriverError
      else decodeRecord api \<lparr>Namespace = ns, OrderingScope = sc, StableKey = sk\<rparr> (o_ranking_scope row)
        (FormatInt (o_revision row)) (FormatInt (o_order_id row)) (Some (o_value row)) (o_value_is_nil row)
        \<lparr>rank_Ranked = o_ranked row, rank_Value = o_rank_value row\<rparr> (o_due_state row) (o_due_at row) (o_deleted row))"
  by (simp add: scanRecord_def record_row_def scan_text_def scan_bytes_def scan_bool_def scan_int64_def scan_int16_def)

lemma decodeRecord_ok:
  "decodeRecord api oid rs rt ot value nil rank ds um del = Inr r \<longleftrightarrow>
   rec_ID r = oid \<and> rec_RankingScope r = rs \<and> parseUint rt = Inr (rec_Revision r) \<and> parseUint ot = Inr (rec_Order r) \<and>
   0 \<le> ds \<and> ds \<le> 255 \<and> rec_Value r = (if nil then None else value) \<and> rec_Rank r = rank \<and>
   rec_Due r = \<lparr>due_State = ds, due_UnixMillis = um\<rparr> \<and> rec_Deleted r = del \<and> ValidateOrderedRecord api r = None"
  by (cases r) (auto simp: decodeRecord_def and_then_Inr Let_def split: option.splits if_splits)

lemma id_key_parts: "id_key oid = (Namespace oid, OrderingScope oid, StableKey oid)"
  by (simp add: id_key_def stableKeyBytes_def)

lemma id_key_inject [simp]: "id_key a = id_key b \<longleftrightarrow> a = (b :: ordered_id)"
  by (cases a; cases b) (simp add: id_key_parts)

lemma scanRecord_shows:
  assumes "scanRecord api (record_row (id_key oid) row) = Inr r"
  shows "rec_ID r = oid \<and> row_shows row r"
proof -
  have "decodeRecord api \<lparr>Namespace = Namespace oid, OrderingScope = OrderingScope oid, StableKey = StableKey oid\<rparr>
      (o_ranking_scope row) (FormatInt (o_revision row)) (FormatInt (o_order_id row)) (Some (o_value row)) (o_value_is_nil row)
      \<lparr>rank_Ranked = o_ranked row, rank_Value = o_rank_value row\<rparr> (o_due_state row) (o_due_at row) (o_deleted row) = Inr r"
    using assms by (auto simp: id_key_parts scanRecord_row split: if_splits)
  then show ?thesis
    by (auto simp: decodeRecord_ok row_shows_def parseUint_FormatInt)
qed

text \<open>A record within the range of its columns.\<close>

definition record_fits :: "ordered_record \<Rightarrow> bool" where
  "record_fits r \<longleftrightarrow>
     - max_int64 - 1 \<le> rank_Value (rec_Rank r) \<and> rank_Value (rec_Rank r) \<le> max_int64 \<and>
     0 \<le> due_State (rec_Due r) \<and> due_State (rec_Due r) \<le> 255 \<and>
     - max_int64 - 1 \<le> due_UnixMillis (rec_Due r) \<and> due_UnixMillis (rec_Due r) \<le> max_int64"

lemma scanRecord_complete:
  assumes "row_shows row r" and "record_fits r" and "ValidateOrderedRecord api r = None"
  shows "scanRecord api (record_row (id_key (rec_ID r)) row) = Inr r"
proof -
  have "decodeRecord api \<lparr>Namespace = Namespace (rec_ID r), OrderingScope = OrderingScope (rec_ID r), StableKey = StableKey (rec_ID r)\<rparr>
      (o_ranking_scope row) (FormatInt (o_revision row)) (FormatInt (o_order_id row)) (Some (o_value row)) (o_value_is_nil row)
      \<lparr>rank_Ranked = o_ranked row, rank_Value = o_rank_value row\<rparr> (o_due_state row) (o_due_at row) (o_deleted row) = Inr r"
    using assms by (auto simp: decodeRecord_ok row_shows_def record_fits_def parseUint_FormatInt)
  then show ?thesis
    using assms(1,2) by (simp add: id_key_parts scanRecord_row row_shows_def record_fits_def)
qed

lemma recordsEqual_iff: "recordsEqual a b \<longleftrightarrow> a = b"
  by (cases a; cases b) (auto simp: recordsEqual_def bytes_Equal_def split: option.splits)

section \<open>The steps\<close>

definition order_counter :: "database \<Rightarrow> ordered_id \<Rightarrow> int" where
  "order_counter d oid = (case fmlookup (t_ordered_scopes d) (Namespace oid, OrderingScope oid) of None \<Rightarrow> 0 | Some n \<Rightarrow> n)"

definition created_row :: "string \<Rightarrow> bytes option \<Rightarrow> rank \<Rightarrow> due \<Rightarrow> int \<Rightarrow> ordered_row" where
  "created_row rankingScope value rank due order =
     \<lparr>o_ranking_scope = rankingScope, o_revision = 1, o_order_id = order, o_value = fst (databaseValue value),
      o_value_is_nil = snd (databaseValue value), o_ranked = rank_Ranked rank, o_rank_value = rank_Value rank,
      o_due_state = due_State due, o_due_at = due_UnixMillis due, o_deleted = False\<rparr>"

definition updated_row :: "bytes option \<Rightarrow> rank \<Rightarrow> due \<Rightarrow> ordered_row \<Rightarrow> ordered_row" where
  "updated_row value rank due r =
     r\<lparr>o_revision := o_revision r + 1, o_value := fst (databaseValue value), o_value_is_nil := snd (databaseValue value),
       o_ranked := rank_Ranked rank, o_rank_value := rank_Value rank, o_due_state := due_State due,
       o_due_at := due_UnixMillis due\<rparr>"

definition deleted_row :: "ordered_row \<Rightarrow> ordered_row" where
  "deleted_row r = r\<lparr>o_revision := o_revision r + 1, o_ranked := False, o_rank_value := 0, o_due_state := 0,
     o_due_at := 0, o_deleted := True\<rparr>"

text \<open>
  Creation draws the next order of the scope and stores revision 1 of a record that did not
  exist; a mutation replaces the record at the expected revision by one at the next.
\<close>

definition create_step :: "ordered_id \<Rightarrow> string \<Rightarrow> bytes option \<Rightarrow> rank \<Rightarrow> due \<Rightarrow> database \<Rightarrow> database \<Rightarrow> bool" where
  "create_step oid rankingScope value rank due d d' \<longleftrightarrow>
     (let n = order_counter d oid + 1; row = created_row rankingScope value rank due n in
      fmlookup (t_ordered_records d) (id_key oid) = None \<and> ordered_row_ok row \<and>
      d' = d\<lparr>t_ordered_scopes := fmupd (Namespace oid, OrderingScope oid) n (t_ordered_scopes d),
             t_ordered_records := fmupd (id_key oid) row (t_ordered_records d)\<rparr>)"

definition mutation_step :: "ordered_id \<Rightarrow> u64 \<Rightarrow> (ordered_row \<Rightarrow> ordered_row) \<Rightarrow> database \<Rightarrow> database \<Rightarrow> bool" where
  "mutation_step oid expectedRevision f d d' \<longleftrightarrow>
     (\<exists>row. fmlookup (t_ordered_records d) (id_key oid) = Some row \<and> \<not> o_deleted row \<and>
        o_revision row = uint expectedRevision \<and> uint expectedRevision < max_uint64 \<and> ordered_row_ok (f row) \<and>
        d' = d\<lparr>t_ordered_records := fmupd (id_key oid) (f row) (t_ordered_records d)\<rparr>)"

definition update_step :: "ordered_id \<Rightarrow> u64 \<Rightarrow> bytes option \<Rightarrow> rank \<Rightarrow> due \<Rightarrow> database \<Rightarrow> database \<Rightarrow> bool" where
  "update_step oid expectedRevision value rank due = mutation_step oid expectedRevision (updated_row value rank due)"

definition delete_step :: "ordered_id \<Rightarrow> u64 \<Rightarrow> database \<Rightarrow> database \<Rightarrow> bool" where
  "delete_step oid expectedRevision = mutation_step oid expectedRevision deleted_row"

section \<open>The contract of an attempt\<close>

definition ambiguous :: "err \<Rightarrow> bool" where
  "ambiguous e \<longleftrightarrow> (\<exists>operation oid cause. e = OrderedAmbiguous operation oid cause)"

text \<open>
  \<open>step x\<close>: the change that goes with the result \<open>x\<close>; \<open>seen x\<close>: the states that bear \<open>x\<close> out;
  \<open>blames e\<close>: the states that bear the error out; \<open>intended\<close>: the result for a stored record;
  \<open>wanted\<close>: the records an attempt may mean to store.
\<close>

fun attempt_ok ::
  "('a \<Rightarrow> database \<Rightarrow> database \<Rightarrow> bool) \<Rightarrow> ('a \<Rightarrow> database \<Rightarrow> bool) \<Rightarrow> (err \<Rightarrow> database \<Rightarrow> bool) \<Rightarrow> (ordered_record \<Rightarrow> 'a) \<Rightarrow>
   (ordered_record \<Rightarrow> bool) \<Rightarrow> 'z world_scheme \<Rightarrow> 'a attempt \<Rightarrow> 'z world_scheme \<Rightarrow> bool" where
  "attempt_ok step seen blames intended wanted w (Finished x) w' \<longleftrightarrow>
     (others_only w w' \<or> committed (step x) w w') \<and> (\<exists>d \<in> set (states w w'). seen x d)"
| "attempt_ok step seen blames intended wanted w (Failed e) w' \<longleftrightarrow>
     others_only w w' \<and> (isContractError e \<longrightarrow> (\<exists>d \<in> set (states w w'). blames e d))"
| "attempt_ok step seen blames intended wanted w (Unknown want cause) w' \<longleftrightarrow> wanted want \<and>
     (others_only w w' \<or> (committed (step (intended want)) w w' \<and> \<not> reliable (script w)))"

text \<open>What an operation then promises.\<close>

fun operation_ok ::
  "string \<Rightarrow> ('a \<Rightarrow> database \<Rightarrow> database \<Rightarrow> bool) \<Rightarrow> ('a \<Rightarrow> database \<Rightarrow> bool) \<Rightarrow> (err \<Rightarrow> database \<Rightarrow> bool) \<Rightarrow>
   'z world_scheme \<Rightarrow> 'a result \<Rightarrow> 'z world_scheme \<Rightarrow> bool" where
  "operation_ok operation step seen blames w (Inr x) w' \<longleftrightarrow>
     (others_only w w' \<or> committed (step x) w w') \<and> (\<exists>d \<in> set (states w w'). seen x d)"
| "operation_ok operation step seen blames w (Inl e) w' \<longleftrightarrow>
     (others_only w w' \<and> (isContractError e \<and> (\<exists>d \<in> set (states w w'). blames e d) \<or>
        (\<exists>x. e = CtxError x) \<or> e = RedactedError operation \<or> ambiguous e)) \<or>
     (ambiguous e \<and> (\<exists>x. committed (step x) w w') \<and> \<not> reliable (script w))"

lemma later:
  assumes "others_only w w1"
  shows "others_only w1 w' \<Longrightarrow> others_only w w'"
    and "committed R w1 w' \<Longrightarrow> committed R w w'"
    and "\<not> reliable (script w1) \<Longrightarrow> \<not> reliable (script w)"
    and "leads_to w1 w' \<Longrightarrow> d \<in> set (states w1 w') \<Longrightarrow> d \<in> set (states w w')"
  using assms others_only_trans committed_before leads_to_reliable states_later by blast+

lemma seen_later:
  assumes "others_only w w1" and "others_only w1 w' \<or> committed R w1 w'" and "\<exists>d \<in> set (states w1 w'). P d"
  shows "\<exists>d \<in> set (states w w'). P d"
  using assms(2,3) later(4) [OF assms(1)] by (blast dest: committed_leads_to)

lemma attempt_ok_later:
  assumes oo: "others_only w w1" and "attempt_ok step seen blames intended wanted w1 a w'"
  shows "attempt_ok step seen blames intended wanted w a w'"
proof (cases a)
  case (Finished x)
  with assms(2) seen_later [OF oo, of w' "step x" "seen x"] later [OF oo] show ?thesis by auto
next
  case (Failed e)
  with assms(2) seen_later [OF oo, of w' "\<lambda>_ _. False" "blames e"] later [OF oo] show ?thesis by auto
next
  case (Unknown want cause)
  with assms(2) later [OF oo] show ?thesis by auto
qed

lemma operation_ok_later:
  assumes oo: "others_only w w1" and "operation_ok operation step seen blames w1 r w'"
  shows "operation_ok operation step seen blames w r w'"
proof (cases r)
  case (Inl e)
  have "\<exists>x. committed (step x) w1 w' \<Longrightarrow> \<exists>x. committed (step x) w w'" using later(2) [OF oo] by blast
  with Inl assms(2) seen_later [OF oo, of w' "\<lambda>_ _. False" "blames e"] later(1,3) [OF oo] show ?thesis by auto
next
  case (Inr x)
  with assms(2) seen_later [OF oo, of w' "step x" "seen x"] later [OF oo] show ?thesis by auto
qed

lemma not_contract [simp]:
  "driver_error e \<Longrightarrow> \<not> isContractError e" "\<not> isContractError (refusal_error x)"
  by (auto simp: driver_error_def elim: refusal_error.elims) (cases x; simp)

lemma attempt_Failed: "others_only w w' \<Longrightarrow> \<not> isContractError e \<Longrightarrow> attempt_ok step seen blames intended wanted w (Failed e) w'"
  by simp

locale attempts =
  fixes once :: "('z world_scheme, 'a attempt) state"
    and resolve :: "ordered_record \<Rightarrow> err \<Rightarrow> ('z world_scheme, 'a result) state"
    and step :: "'a \<Rightarrow> database \<Rightarrow> database \<Rightarrow> bool"
    and seen :: "'a \<Rightarrow> database \<Rightarrow> bool"
    and blames :: "err \<Rightarrow> database \<Rightarrow> bool"
    and intended :: "ordered_record \<Rightarrow> 'a"
    and wanted :: "ordered_record \<Rightarrow> bool"
  assumes once_ok: "run_state once w = (a, w') \<Longrightarrow> txn w = None \<Longrightarrow>
      txn w' = None \<and> attempt_ok step seen blames intended wanted w a w'"
    and resolve_ok: "run_state (resolve want cause) w = (r, w') \<Longrightarrow> txn w = None \<Longrightarrow> wanted want \<Longrightarrow>
      txn w' = None \<and> others_only w w' \<and>
      (case r of Inl e \<Rightarrow> ambiguous e | Inr x \<Rightarrow> x = intended want \<and> (\<exists>d \<in> set (states w w'). seen x d))"
begin

lemma resolved:
  assumes "attempt_ok step seen blames intended wanted w (Unknown want cause) w1" and "txn w1 = None"
    and "run_state (resolve want cause) w1 = (r, w')"
  shows "txn w' = None \<and> operation_ok operation step seen blames w r w'"
proof -
  have "wanted want" using assms(1) by simp
  from resolve_ok [OF assms(3,2) this] have res: "txn w' = None" "others_only w1 w'"
      "case r of Inl e \<Rightarrow> ambiguous e | Inr x \<Rightarrow> x = intended want \<and> (\<exists>d \<in> set (states w1 w'). seen x d)" by auto
  from assms(1) show ?thesis
  proof (cases "others_only w w1")
    case True
    have "others_only w w'" using True res(2) by (rule others_only_trans)
    with res seen_later [OF True, of w' "\<lambda>_ _. False" "seen (intended want)"] show ?thesis by (cases r) auto
  next
    case False
    with assms(1) have c: "committed (step (intended want)) w w1" "\<not> reliable (script w)" by auto
    have "committed (step (intended want)) w w'" using c(1) res(2) by (rule committed_after)
    moreover have "set (states w1 w') \<subseteq> set (states w w')"
      using committed_leads_to [OF c(1)] res(2)
      by (auto simp: others_only_def leads_to_def evolves_states [OF evolves_trans] evolves_states)
    ultimately show ?thesis using res c(2) by (cases r) auto
  qed
qed

lemma retry_ok:
  assumes "run_state (ordered_retry ctx operation once resolve attempt) w = (r, w')"
    and "txn w = None" and "attempt < Attempts"
  shows "txn w' = None \<and> operation_ok operation step seen blames w r w'"
  using assms
proof (induction "Attempts - attempt" arbitrary: attempt w)
  case 0
  then show ?case by simp
next
  case (Suc n)
  obtain a w1 where once: "run_state once w = (a, w1)" by (meson surj_pair)
  from once_ok [OF once Suc.prems(2)] have a: "txn w1 = None" "attempt_ok step seen blames intended wanted w a w1" by auto
  note run = Suc.prems(1) [unfolded ordered_retry.simps [of ctx operation once resolve attempt]]
  show ?case
  proof (cases a)
    case (Finished x)
    with run once Suc.prems(3) a show ?thesis by auto
  next
    case (Unknown want cause)
    with run once Suc.prems(3) have "run_state (resolve want cause) w1 = (r, w')" by simp
    with a Unknown show ?thesis by (intro resolved) simp_all
  next
    case (Failed e)
    let ?w2 = "w1\<lparr>script := tl (script w1)\<rparr>"
    let ?w3 = "?w2\<lparr>script := tl (script ?w2)\<rparr>"
    let ?w4 = "?w3\<lparr>script := tl (script ?w3)\<rparr>"
    from Failed a have w1: "others_only w w1" by simp
    have o2: "others_only w ?w2" using w1 by (rule others_only_tick)
    then have o3: "others_only w ?w3" by (rule others_only_tick)
    then have o4: "others_only w ?w4" by (rule others_only_tick)
    show ?thesis
    proof (cases "isContractError e")
      case True
      with run once Suc.prems(3) a Failed show ?thesis by auto
    next
      case False
      show ?thesis
      proof (cases "Retryable e \<and> ev_ctx_err (next_event w1) = None \<and> attempt + 1 < Attempts")
        case True
        with run once Suc.prems(3) Failed False
        have "run_state (ordered_retry ctx operation once resolve (attempt + 1)) ?w2 = (r, w')" by simp
        then have "txn w' = None \<and> operation_ok operation step seen blames ?w2 r w'"
          using Suc.hyps(1) [of "attempt + 1" ?w2] Suc.hyps(2) a(1) True by simp
        then show ?thesis using operation_ok_later [OF o2] by blast
      next
        case contd: False
        with run once Suc.prems(3) Failed False a(1) o2 o3 o4 show ?thesis
          by (auto simp: ordered_failure_def split: option.splits if_splits)
      qed
    qed
  qed
qed

end

section \<open>The statements in a transaction\<close>

lemma select_record_sem: "sql_sem (select_record_stmt s oid suffix) now d = (Inr (row_at d (id_key oid)), [])"
  by (simp add: select_record_stmt_def Let_def)

lemma select_record_locks:
  "sql_for_update (select_record_stmt s oid suffix) \<longleftrightarrow> suffix \<noteq> []"
  "sql_touches (select_record_stmt s oid suffix) = (if suffix = [] then [] else [id_row oid])"
  by (simp_all add: select_record_stmt_def Let_def)

lemma ordered_answers [simp]:
  "answers (select_record_stmt s oid suffix)" "answers (ensure_order_stmt s oid)" "answers (lock_order_stmt s oid)"
  "answers (advance_order_stmt s oid)" "answers (insert_ordered_stmt s oid rs ot n v nil rank due)"
  "answers (update_ordered_stmt s oid v nil rank due)" "answers (delete_ordered_stmt s oid)"
  by (auto simp: answers_def select_record_sem ensure_order_stmt_def lock_order_stmt_def advance_order_stmt_def
      insert_ordered_stmt_def update_ordered_stmt_def delete_ordered_stmt_def update_row_sem_def Let_def
      check_violation_def unique_violation_def split: option.splits if_splits)

lemma row_at_first:
  "first_row (Inr (row_at d k)) = (case fmlookup (t_ordered_records d) k of None \<Rightarrow> Inl ErrNoRows | Some row \<Rightarrow> Inr (record_row k row))"
  by (simp add: row_at_def split: option.split)

lemma present_id_row [simp]: "present d (id_row oid) \<longleftrightarrow> id_key oid |\<in>| fmdom (t_ordered_records d)"
  by (simp add: id_row_def id_key_def)

lemma same_id_row: "same_row (id_row oid) d d' \<longleftrightarrow> fmlookup (t_ordered_records d) (id_key oid) = fmlookup (t_ordered_records d') (id_key oid)"
  by (simp add: id_row_def id_key_def)

definition scope_writes :: "row_write list \<Rightarrow> bool" where
  "scope_writes ws \<longleftrightarrow> (\<forall>x \<in> set ws. \<exists>ns sc n. x = WOrderScope ns sc n)"

lemma scope_writes_records: "scope_writes ws \<Longrightarrow> t_ordered_records (apply_writes ws d) = t_ordered_records d"
proof (induction ws arbitrary: d)
  case (Cons x ws)
  then obtain ns sc n where "x = WOrderScope ns sc n" "scope_writes ws" by (auto simp: scope_writes_def)
  with Cons.IH show ?case by simp
qed simp

lemma tx_get_cases:
  assumes run: "run_state (ordered_getFrom api s (tx_QueryRow ctx) oid suffix) w = (g, w')" and wk: "weak ws ks w"
    and ws: "scope_writes ws"
  obtains (Failed) e where "g = Inl e" "driver_error e" "others_only w w'"
  | (Absent) "g = Inl ErrNoRows" "others_only w w'" "\<forall>k \<in> ks. same_row k (db w) (db w')" "weak ws ks w'"
      "fmlookup (t_ordered_records (db w')) (id_key oid) = None"
  | (Found) row where "g = scanRecord api (record_row (id_key oid) row)" "others_only w w'"
      "\<forall>k \<in> ks. same_row k (db w) (db w')" "weak ws (if suffix = [] then ks else insert (id_row oid) ks) w'"
      "fmlookup (t_ordered_records (db w')) (id_key oid) = Some row"
proof -
  obtain q where q: "run_state (tx_QueryRow ctx (select_record_stmt s oid suffix)) w = (q, w')"
      and g: "g = scanned (scanRecord api) q"
    using run by (auto simp: ordered_getFrom_def split: prod.splits)
  from q wk ordered_answers(1) show thesis
  proof (cases rule: weak_QueryRow_cases)
    case (Failed e)
    with g show thesis by (intro that(1) [of e]) auto
  next
    case (Done now rows ws')
    let ?v = "apply_writes ws (db w')"
    have recs: "t_ordered_records ?v = t_ordered_records (db w')" using ws by (rule scope_writes_records)
    have ws': "ws' = []" and rows: "rows = row_at ?v (id_key oid)" using Done(4) by (auto simp: select_record_sem)
    have locks: "set (new_locks (select_record_stmt s oid suffix) ?v ws') =
        (if suffix = [] \<or> id_key oid |\<notin>| fmdom (t_ordered_records (db w')) then {} else {id_row oid})"
      using ws' by (auto simp: new_locks_def select_record_locks recs)
    show thesis
    proof (cases "fmlookup (t_ordered_records (db w')) (id_key oid)")
      case None
      then have "id_key oid |\<notin>| fmdom (t_ordered_records (db w'))" by (simp add: fmdom_notI)
      with None Done ws' rows g locks recs show thesis by (intro that(2)) (auto simp: row_at_def)
    next
      case (Some row)
      then have "id_key oid |\<in>| fmdom (t_ordered_records (db w'))" by (rule fmdomI)
      with Some Done ws' rows g locks recs show thesis by (intro that(3) [of row]) (auto simp: row_at_def)
    qed
  qed
qed

lemma attempt_ok_txn [simp]:
  "attempt_ok step seen blames intended wanted w a (w1\<lparr>txn := t\<rparr>) = attempt_ok step seen blames intended wanted w a w1"
  by (cases a) auto

lemma attempt_try_cases:
  assumes "run_state (State_Monad.bind m (\<lambda>r. case r of Inl e \<Rightarrow> State_Monad.return (Failed e) | Inr x \<Rightarrow> f x)) w = (a, w')"
  obtains (Error) e where "run_state m w = (Inl e, w')" "a = Failed e"
  | (Ok) x w1 where "run_state m w = (Inr x, w1)" "run_state (f x) w1 = (a, w')"
proof -
  obtain r w1 where r: "run_state m w = (r, w1)" by (meson surj_pair)
  with assms show thesis by (cases r) (auto intro: that)
qed

lemma transaction_ok:
  assumes run: "run_state (ordered_transaction s ctx body) w = (a, w')" and none: "txn w = None"
    and body: "\<And>w1 a w2. weak [] {} w1 \<Longrightarrow> run_state body w1 = (a, w2) \<Longrightarrow> attempt_ok step seen blames intended wanted w1 a w2"
  shows "txn w' = None \<and> attempt_ok step seen blames intended wanted w a w'"
  using run [unfolded ordered_transaction_def]
proof (cases rule: attempt_try_cases)
  case (Error e)
  from Error(1) none show ?thesis by (cases rule: begin_cases) (use Error(2) in auto)
next
  case (Ok x wb)
  from Ok(1) none have b: "others_only w wb" "weak [] {} wb"
    by (cases rule: begin_cases; auto intro: begun_weak)+
  obtain wt where t: "run_state (do {
         t \<leftarrow> SetLocalTimeouts ctx (oi_statementTimeout s) (oi_lockTimeout s);
         case t of Inl e \<Rightarrow> State_Monad.return (Failed e) | Inr _ \<Rightarrow> body }) wb = (a, wt)" and w': "w' = wt\<lparr>txn := None\<rparr>"
    using Ok(2) by (auto split: prod.splits)
  from t have "attempt_ok step seen blames intended wanted wb a wt"
  proof (cases rule: attempt_try_cases)
    case (Error e)
    from Error(1) b(2) show ?thesis by (cases rule: weak_timeouts_cases) (use Error(2) in auto)
  next
    case (Ok y wc)
    from Ok(1) b(2) have c: "others_only wb wc" "weak [] {} wc" by (cases rule: weak_timeouts_cases; auto)+
    from attempt_ok_later [OF c(1) body [OF c(2) Ok(2)]] show ?thesis .
  qed
  with attempt_ok_later [OF b(1)] w' show ?thesis by simp
qed

text \<open>The commit, and the reread of an unknown outcome.\<close>

lemma commit_ok:
  assumes run: "run_state (ordered_commit ctx operation want x) w = (a, w')" and wk: "weak ws ks w" and "ws \<noteq> []"
    and step: "\<And>d. \<forall>k \<in> ks. same_row k (db w) d \<Longrightarrow> step x d (apply_writes ws d)"
    and seen: "\<And>d. step x d (apply_writes ws d) \<Longrightarrow> seen x (apply_writes ws d)"
    and "x = intended want" and "wanted want"
  shows "attempt_ok step seen blames intended wanted w a w'"
proof -
  obtain c w1 where c: "run_state (tx_Commit ctx) w = (c, w1)" by (meson surj_pair)
  from c wk show ?thesis
  proof (cases rule: weak_Commit_cases)
    case (Failed y)
    with run c \<open>wanted want\<close> show ?thesis
      by (auto simp: ordered_commit_def ordered_safeCause_def intro: others_only_tick split: if_splits)
  next
    case (Committed w2)
    have cm: "committed (step x) w w1"
      unfolding Committed(2) by (rule committed_direct [of w w2 ws]) (use Committed \<open>ws \<noteq> []\<close> step in auto)
    have seen1: "\<exists>d \<in> set (states w w1). seen x d"
      using seen [OF step [OF Committed(4)]] Committed(2) final_state [of w1 w] by auto
    from Committed(5) show ?thesis
    proof
      assume "c = Inr ()"
      with run c cm seen1 show ?thesis by (auto simp: ordered_commit_def)
    next
      assume lost: "c = Inl DriverError \<and> ev_fault (next_event w) = AckLost"
      let ?w3 = "w1\<lparr>script := tl (script w1)\<rparr>"
      from lost run c have "(\<exists>cause. a = Unknown want cause)" "w' = ?w3"
        by (auto simp: ordered_commit_def ordered_safeCause_def)
      moreover have "committed (step x) w ?w3" using cm by (rule committed_after) simp
      moreover have "\<not> reliable (script w)" using lost reliable_next [of w] by blast
      ultimately show ?thesis using \<open>x = intended want\<close> \<open>wanted want\<close> by auto
    qed
  qed
qed

lemma pool_get_cases:
  assumes "run_state (ordered_get api s ctx oid) w = (g, w')"
  obtains (Failed) e where "g = Inl e" "driver_error e" "others_only w w'" "txn w' = txn w"
  | (Absent) "g = Inl ErrNoRows" "others_only w w'" "txn w' = txn w"
      "fmlookup (t_ordered_records (db w')) (id_key oid) = None"
  | (Found) row where "g = scanRecord api (record_row (id_key oid) row)" "others_only w w'" "txn w' = txn w"
      "fmlookup (t_ordered_records (db w')) (id_key oid) = Some row"
proof -
  obtain q where q: "run_state (pool_run ctx (select_record_stmt s oid [])) w = (q, w')"
      and g: "g = scanned (scanRecord api) (first_row q)"
    using assms by (auto simp: ordered_get_def ordered_getFrom_def pool_QueryRow_def split: prod.splits)
  from q have "others_only w w' \<and> txn w' = txn w \<and>
      (q = Inr (row_at (db w') (id_key oid)) \<or> (\<exists>e. q = Inl e \<and> driver_error e))"
    using others_only_advance [of w]
    by (auto simp: pool_run_def Let_def select_record_sem split: fault.splits)
  then show thesis
    using g that by (auto simp: row_at_def split: option.splits)
qed

section \<open>Create\<close>

text \<open>The stored record of the identity is one that \<open>scanRecord\<close> refuses with this error.\<close>

definition rejected :: "storage_api \<Rightarrow> ordered_id \<Rightarrow> err \<Rightarrow> database \<Rightarrow> bool" where
  "rejected api oid e d \<longleftrightarrow> (\<exists>row. fmlookup (t_ordered_records d) (id_key oid) = Some row \<and>
     scanRecord api (record_row (id_key oid) row) = Inl e)"

definition create_blames :: "storage_api \<Rightarrow> ordered_id \<Rightarrow> err \<Rightarrow> database \<Rightarrow> bool" where
  "create_blames api oid e d \<longleftrightarrow> rejected api oid e d \<or> (e = OrderExhausted \<and> order_counter d oid = max_uint64)"

definition create_result ::
  "ordered_id \<Rightarrow> string \<Rightarrow> bytes option \<Rightarrow> rank \<Rightarrow> due \<Rightarrow> ordered_record \<times> bool \<Rightarrow> database \<Rightarrow> database \<Rightarrow> bool" where
  "create_result oid rankingScope value rank due x d d' \<longleftrightarrow> snd x \<and>
     create_step oid rankingScope value rank due d d' \<and>
     fst x = new_record oid rankingScope value rank due (word_of_int (order_counter d oid + 1)) \<and> shown (fst x) d'"

definition created_wanted :: "ordered_id \<Rightarrow> string \<Rightarrow> bytes option \<Rightarrow> rank \<Rightarrow> due \<Rightarrow> ordered_record \<Rightarrow> bool" where
  "created_wanted oid rankingScope value rank due r \<longleftrightarrow> (\<exists>order. r = new_record oid rankingScope value rank due order)"

definition create_seen ::
  "ordered_id \<Rightarrow> string \<Rightarrow> bytes option \<Rightarrow> rank \<Rightarrow> due \<Rightarrow> ordered_record \<times> bool \<Rightarrow> database \<Rightarrow> bool" where
  "create_seen oid rankingScope value rank due x d \<longleftrightarrow> rec_ID (fst x) = oid \<and> shown (fst x) d \<and>
     (snd x \<longrightarrow> created_wanted oid rankingScope value rank due (fst x))"

text \<open>
  The transaction holds the lock of the scope's counter row, and the counter stands at \<open>n\<close>: it was
  there, or the transaction has just written it.
\<close>

definition drawn :: "ordered_id \<Rightarrow> row_write list \<Rightarrow> int \<Rightarrow> row_key set \<Rightarrow> 'z world_scheme \<Rightarrow> bool" where
  "drawn oid ws n ks w \<longleftrightarrow> weak ws ks w \<and> OrderScopeRow (Namespace oid) (OrderingScope oid) \<in> ks \<and>
     (ws = [] \<and> fmlookup (t_ordered_scopes (db w)) (Namespace oid, OrderingScope oid) = Some n \<or>
      ws = [WOrderScope (Namespace oid) (OrderingScope oid) (Some 0)] \<and> n = 0 \<and>
        fmlookup (t_ordered_scopes (db w)) (Namespace oid, OrderingScope oid) = None)"

lemma drawn_scope_writes: "drawn oid ws n ks w \<Longrightarrow> scope_writes ws"
  by (auto simp: drawn_def scope_writes_def)

lemma drawn_lookup:
  "drawn oid ws n ks w \<Longrightarrow> fmlookup (t_ordered_scopes (apply_writes ws (db w))) (Namespace oid, OrderingScope oid) = Some n"
  by (auto simp: drawn_def)

lemma drawn_counter: "drawn oid ws n ks w \<Longrightarrow> order_counter (db w) oid = n"
  by (auto simp: drawn_def order_counter_def)

lemma drawn_stable:
  "drawn oid ws n ks w \<Longrightarrow> \<forall>k \<in> ks. same_row k (db w) (db w') \<Longrightarrow> weak ws ks w' \<Longrightarrow> drawn oid ws n ks w'"
  unfolding drawn_def by fastforce

lemma insert_ordered_sem:
  assumes "sql_sem (insert_ordered_stmt s oid rs ot order (fst (databaseValue value)) (snd (databaseValue value)) rank due) now d = (Inr rows, ws)"
  shows "fmlookup (t_ordered_records d) (id_key oid) = None \<and> ordered_row_ok (created_row rs value rank due (uint order)) \<and>
    ws = [WOrderRecord (Namespace oid) (OrderingScope oid) (stableKeyBytes (StableKey oid)) (Some (created_row rs value rank due (uint order)))]"
  using assms by (auto simp: insert_ordered_stmt_def created_row_def Let_def fmdom_notD split: if_splits)

lemma advance_order_sem:
  assumes "sql_sem (advance_order_stmt s oid) now d = (Inr rows, ws)"
    and "fmlookup (t_ordered_scopes d) (Namespace oid, OrderingScope oid) = Some n"
  shows "rows = [[CText (FormatInt (n + 1))]] \<and> ws = [WOrderScope (Namespace oid) (OrderingScope oid) (Some (n + 1))]"
  using assms by (auto simp: advance_order_stmt_def split: if_splits)

lemma created_shown:
  "shown (new_record oid rs value rank due order)
     (d\<lparr>t_ordered_records := fmupd (id_key oid) (created_row rs value rank due (uint order)) r\<rparr>)"
  by (auto simp: shown_def row_shows_def new_record_def created_row_def databaseValue_def cloneValue_def split: option.splits)

text \<open>The writes of a \<open>Create\<close>, applied to any database that agrees on the counter and still lacks the record.\<close>

lemma insert_applied:
  assumes dr: "drawn oid ws n ks0 w0" and keep: "\<forall>k \<in> ks0. same_row k (db w0) d"
    and none: "fmlookup (t_ordered_records d) (id_key oid) = None"
    and ok: "ordered_row_ok (created_row rs value rank due (n + 1))" and order: "n + 1 = uint order"
  shows "create_result oid rs value rank due (new_record oid rs value rank due order, True) d
    (apply_writes ((ws @ [WOrderScope (Namespace oid) (OrderingScope oid) (Some (n + 1))]) @
       [WOrderRecord (Namespace oid) (OrderingScope oid) (stableKeyBytes (StableKey oid)) (Some (created_row rs value rank due (n + 1)))]) d)"
proof -
  have "OrderScopeRow (Namespace oid) (OrderingScope oid) \<in> ks0" using dr by (simp add: drawn_def)
  with keep have "same_row (OrderScopeRow (Namespace oid) (OrderingScope oid)) (db w0) d" by blast
  then have cnt: "order_counter d oid = n" using drawn_counter [OF dr] by (simp add: order_counter_def)
  have "apply_writes ((ws @ [WOrderScope (Namespace oid) (OrderingScope oid) (Some (n + 1))]) @
       [WOrderRecord (Namespace oid) (OrderingScope oid) (stableKeyBytes (StableKey oid)) (Some (created_row rs value rank due (n + 1)))]) d =
      d\<lparr>t_ordered_scopes := fmupd (Namespace oid, OrderingScope oid) (n + 1) (t_ordered_scopes d),
        t_ordered_records := fmupd (id_key oid) (created_row rs value rank due (n + 1)) (t_ordered_records d)\<rparr>"
    using dr by (auto simp: drawn_def id_key_def)
  with cnt none ok order created_shown [of oid rs "value" rank due order]
  show ?thesis by (auto simp: create_result_def create_step_def Let_def)
qed

lemma create_insert_ok:
  assumes run: "run_state (ordered_createInsert s ctx oid rs value rank due (FormatInt (n + 1))) w = (a, w')"
    and wk: "weak (ws @ [WOrderScope (Namespace oid) (OrderingScope oid) (Some (n + 1))]) ks w"
    and dr: "drawn oid ws n ks0 w0" and ks0: "ks0 \<subseteq> ks" and same: "\<forall>k \<in> ks0. same_row k (db w0) (db w)"
  shows "attempt_ok (create_result oid rs value rank due) (create_seen oid rs value rank due) (create_blames api oid) (\<lambda>r. (r, True)) (created_wanted oid rs value rank due) w a w'"
proof (cases "parseUint (FormatInt (n + 1))")
  case (Inl e)
  with run show ?thesis by (auto simp: ordered_createInsert_def RedactedError_def)
next
  case (Inr order)
  then have n: "n + 1 = uint order" by (simp add: parseUint_FormatInt)
  let ?rec = "new_record oid rs value rank due order"
  let ?row = "created_row rs value rank due (n + 1)"
  let ?ws1 = "ws @ [WOrderScope (Namespace oid) (OrderingScope oid) (Some (n + 1))]"
  show ?thesis
  proof (cases "order = 0")
    case True
    with Inr run show ?thesis by (auto simp: ordered_createInsert_def RedactedError_def)
  next
    case False
    with Inr run have run': "run_state (do {
          i \<leftarrow> tx_Exec ctx (insert_ordered_stmt s oid rs (FormatInt (n + 1)) order (fst (databaseValue value)) (snd (databaseValue value)) rank due);
          case i of Inl e \<Rightarrow> State_Monad.return (Failed e) | Inr _ \<Rightarrow>
          ordered_commit ctx ''ordered create commit'' ?rec (?rec, True) }) w = (a, w')"
      by (simp add: ordered_createInsert_def case_prod_beta Let_def)
    from run' show ?thesis
    proof (cases rule: attempt_try_cases)
      case (Error e)
      from Error(1) wk ordered_answers(5) show ?thesis
        by (cases rule: weak_Exec_cases) (use Error(2) in auto)
    next
      case (Ok y wi)
      from Ok(1) wk ordered_answers(5) obtain now rows wsi where i: "others_only w wi"
          "\<forall>k \<in> ks. same_row k (db w) (db wi)"
          "sql_sem (insert_ordered_stmt s oid rs (FormatInt (n + 1)) order (fst (databaseValue value)) (snd (databaseValue value)) rank due)
             now (apply_writes ?ws1 (db wi)) = (Inr rows, wsi)"
          "weak (?ws1 @ wsi) (ks \<union> set (new_locks (insert_ordered_stmt s oid rs (FormatInt (n + 1)) order
             (fst (databaseValue value)) (snd (databaseValue value)) rank due) (apply_writes ?ws1 (db wi)) wsi)) wi"
        by (cases rule: weak_Exec_cases) auto
      have "scope_writes ?ws1" using drawn_scope_writes [OF dr] by (auto simp: scope_writes_def)
      then have recs: "t_ordered_records (apply_writes ?ws1 d) = t_ordered_records d" for d by (rule scope_writes_records)
      from insert_ordered_sem [OF i(3), unfolded recs] have ins: "fmlookup (t_ordered_records (db wi)) (id_key oid) = None"
          "ordered_row_ok ?row" "wsi = [WOrderRecord (Namespace oid) (OrderingScope oid) (stableKeyBytes (StableKey oid)) (Some ?row)]"
        by (auto simp: n)
      let ?ks = "ks \<union> {id_row oid}"
      have wk': "weak (?ws1 @ wsi) ?ks wi"
        using i(4) ins(3) by (simp add: new_locks_def insert_ordered_stmt_def id_row_def)
      have final: "create_result oid rs value rank due (?rec, True) d (apply_writes (?ws1 @ wsi) d)"
        if d: "\<forall>k \<in> ?ks. same_row k (db wi) d" for d
        unfolding ins(3)
      proof (rule insert_applied [OF dr _ _ ins(2) n])
        show "\<forall>k \<in> ks0. same_row k (db w0) d" using same ks0 i(2) d by (blast intro: same_row_trans)
        show "fmlookup (t_ordered_records d) (id_key oid) = None" using d ins(1) by (simp add: same_id_row)
      qed
      have "attempt_ok (create_result oid rs value rank due) (create_seen oid rs value rank due) (create_blames api oid) (\<lambda>r. (r, True)) (created_wanted oid rs value rank due) wi a w'"
      proof (rule commit_ok [OF Ok(2) wk'])
        show "create_result oid rs value rank due (?rec, True) d (apply_writes (?ws1 @ wsi) d)"
          if "\<forall>k \<in> ?ks. same_row k (db wi) d" for d using that by (rule final)
      qed (auto simp: ins(3) create_result_def create_seen_def created_wanted_def new_record_def)
      then show ?thesis using i(1) by (blast intro: attempt_ok_later)
    qed
  qed
qed

text \<open>The two looks for an existing record.\<close>

lemma create_read_ok:
  assumes run: "run_state (do { g \<leftarrow> ordered_getFrom api s (tx_QueryRow ctx) oid [];
        case g of Inr existing \<Rightarrow> State_Monad.return (Finished (existing, False))
        | Inl e \<Rightarrow> if e \<noteq> ErrNoRows then State_Monad.return (Failed e) else rest }) w = (a, w')"
    and wk: "weak ws ks w" and ws: "scope_writes ws"
    and rest: "\<And>wg. \<forall>k \<in> ks. same_row k (db w) (db wg) \<Longrightarrow> weak ws ks wg \<Longrightarrow> run_state rest wg = (a, w') \<Longrightarrow>
      attempt_ok step (create_seen oid rs value rank due) (create_blames api oid) intended wanted wg a w'"
  shows "attempt_ok step (create_seen oid rs value rank due) (create_blames api oid) intended wanted w a w'"
proof -
  obtain g wg where g: "run_state (ordered_getFrom api s (tx_QueryRow ctx) oid []) w = (g, wg)" by (meson surj_pair)
  note run' = run [simplified, simplified g, simplified]
  have absent: "attempt_ok step (create_seen oid rs value rank due) (create_blames api oid) intended wanted w a w'"
    if "g = Inl ErrNoRows" "others_only w wg" "\<forall>k \<in> ks. same_row k (db w) (db wg)" "weak ws ks wg"
    using that run' by (intro attempt_ok_later [OF that(2)] rest) simp_all
  from g wk ws show ?thesis
  proof (cases rule: tx_get_cases)
    case (Failed e)
    then have "e \<noteq> ErrNoRows" by auto
    with Failed run' show ?thesis by auto
  next
    case Absent
    then show ?thesis by (intro absent) auto
  next
    case (Found row)
    show ?thesis
    proof (cases g)
      case (Inr r)
      with Found(1) have "scanRecord api (record_row (id_key oid) row) = Inr r" by simp
      from scanRecord_shows [OF this] Found(5) have "create_seen oid rs value rank due (r, False) (db wg)"
        by (auto simp: create_seen_def shown_def)
      with Inr run' Found(2) final_state [of wg w] show ?thesis by auto
    next
      case (Inl e)
      show ?thesis
      proof (cases "e = ErrNoRows")
        case True
        with Inl Found show ?thesis by (intro absent) auto
      next
        case False
        from Inl Found have "create_blames api oid e (db wg)" by (auto simp: create_blames_def rejected_def)
        with Inl False run' Found(2) final_state [of wg w] show ?thesis by auto
      qed
    qed
  qed
qed

lemma create_locked_ok:
  assumes run: "run_state (ordered_createLocked api s ctx oid rs value rank due (FormatInt n)) w = (a, w')"
    and dr: "drawn oid ws n ks w"
  shows "attempt_ok (create_result oid rs value rank due) (create_seen oid rs value rank due) (create_blames api oid) (\<lambda>r. (r, True)) (created_wanted oid rs value rank due) w a w'"
  using run [unfolded ordered_createLocked_def] _ drawn_scope_writes [OF dr]
proof (rule create_read_ok)
  show "weak ws ks w" using dr by (simp add: drawn_def)
  fix wg
  assume same: "\<forall>k \<in> ks. same_row k (db w) (db wg)" and wk: "weak ws ks wg"
    and run: "run_state (case parseUint (FormatInt n) of Inl e \<Rightarrow> State_Monad.return (Failed e)
       | Inr currentOrder \<Rightarrow>
         if uint currentOrder = max_uint64 then State_Monad.return (Failed OrderExhausted)
         else do {
           u \<leftarrow> tx_QueryRow ctx (advance_order_stmt s oid);
           case scanned scan_one_text u of
             Inl e \<Rightarrow> State_Monad.return (Failed (if e = ErrNoRows then OrderExhausted else e))
           | Inr orderText' \<Rightarrow> ordered_createInsert s ctx oid rs value rank due orderText' }) wg = (a, w')"
  have dg: "drawn oid ws n ks wg" using dr same wk by (rule drawn_stable)
  show "attempt_ok (create_result oid rs value rank due) (create_seen oid rs value rank due) (create_blames api oid) (\<lambda>r. (r, True)) (created_wanted oid rs value rank due) wg a w'"
  proof (cases "parseUint (FormatInt n)")
    case (Inl e)
    with run show ?thesis by (auto simp: parseUint_def RedactedError_def split: option.splits if_splits)
  next
    case (Inr cur)
    then have n: "n = uint cur" by (simp add: parseUint_FormatInt)
    show ?thesis
    proof (cases "uint cur = max_uint64")
      case True
      have "create_blames api oid OrderExhausted (db wg)"
        using drawn_counter [OF dg] n True by (simp add: create_blames_def)
      with run Inr True final_state [of wg wg] show ?thesis by auto
    next
      case False
      obtain u wu where u: "run_state (tx_QueryRow ctx (advance_order_stmt s oid)) wg = (u, wu)" by (meson surj_pair)
      with run Inr False have run2: "run_state (case scanned scan_one_text u of
             Inl e \<Rightarrow> State_Monad.return (Failed (if e = ErrNoRows then OrderExhausted else e))
           | Inr orderText' \<Rightarrow> ordered_createInsert s ctx oid rs value rank due orderText') wu = (a, w')"
        by (auto split: sum.splits)
      from u wk ordered_answers(4) show ?thesis
      proof (cases rule: weak_QueryRow_cases)
        case (Failed e)
        with run2 show ?thesis by auto
      next
        case (Done now rows wsu)
        have "fmlookup (t_ordered_scopes (apply_writes ws (db wu))) (Namespace oid, OrderingScope oid) = Some n"
          using dg Done(3) by (force simp: drawn_def)
        from advance_order_sem [OF Done(4) this] have adv: "rows = [[CText (FormatInt (n + 1))]]"
            "wsu = [WOrderScope (Namespace oid) (OrderingScope oid) (Some (n + 1))]" by auto
        with run2 Done(1) have run3: "run_state (ordered_createInsert s ctx oid rs value rank due (FormatInt (n + 1))) wu = (a, w')"
          by (simp add: scan_one_text_def scan_text_def)
        have "attempt_ok (create_result oid rs value rank due) (create_seen oid rs value rank due) (create_blames api oid) (\<lambda>r. (r, True)) (created_wanted oid rs value rank due) wu a w'"
          by (rule create_insert_ok [OF run3 _ dg _ Done(3)]) (use Done(5) adv in auto)
        then show ?thesis using Done(2) by (blast intro: attempt_ok_later)
      qed
    qed
  qed
qed

lemma create_body_ok:
  assumes run: "run_state (ordered_createBody api s ctx oid rs value rank due) w = (a, w')" and wk: "weak [] {} w"
  shows "attempt_ok (create_result oid rs value rank due) (create_seen oid rs value rank due) (create_blames api oid) (\<lambda>r. (r, True)) (created_wanted oid rs value rank due) w a w'"
  using run [unfolded ordered_createBody_def] wk
proof (rule create_read_ok)
  fix wg
  assume wk: "weak [] {} wg" and run: "run_state (do {
       i \<leftarrow> tx_Exec ctx (ensure_order_stmt s oid);
       case i of Inl e \<Rightarrow> State_Monad.return (Failed e) | Inr _ \<Rightarrow> do {
       l \<leftarrow> tx_QueryRow ctx (lock_order_stmt s oid);
       case scanned scan_one_text l of Inl e \<Rightarrow> State_Monad.return (Failed e)
       | Inr orderText \<Rightarrow> ordered_createLocked api s ctx oid rs value rank due orderText } }) wg = (a, w')"
  let ?k = "OrderScopeRow (Namespace oid) (OrderingScope oid)"
  let ?look = "\<lambda>d. fmlookup (t_ordered_scopes d) (Namespace oid, OrderingScope oid)"
  from run show "attempt_ok (create_result oid rs value rank due) (create_seen oid rs value rank due) (create_blames api oid) (\<lambda>r. (r, True)) (created_wanted oid rs value rank due) wg a w'"
  proof (cases rule: attempt_try_cases)
    case (Error e)
    from Error(1) wk ordered_answers(2) show ?thesis
      by (cases rule: weak_Exec_cases) (use Error(2) in auto)
  next
    case (Ok x wi)
    from Ok(1) wk ordered_answers(2) obtain now rows ws where i: "others_only wg wi"
        "sql_sem (ensure_order_stmt s oid) now (db wi) = (Inr rows, ws)"
        "weak ws (set (new_locks (ensure_order_stmt s oid) (db wi) ws)) wi"
      by (cases rule: weak_Exec_cases) auto
    define ks where "ks = (if ws = [] then {} else {?k})"
    have ws: "ws = [] \<or> ws = [WOrderScope (Namespace oid) (OrderingScope oid) (Some 0)] \<and> ?look (db wi) = None"
      using i(2) by (auto simp: ensure_order_stmt_def split: option.splits)
    have wi: "weak ws ks wi"
      using i(3) ws by (auto simp: new_locks_def ensure_order_stmt_def ks_def)
    obtain l wl where l: "run_state (tx_QueryRow ctx (lock_order_stmt s oid)) wi = (l, wl)" by (meson surj_pair)
    with Ok(2) have run2: "run_state (case scanned scan_one_text l of Inl e \<Rightarrow> State_Monad.return (Failed e)
       | Inr orderText \<Rightarrow> ordered_createLocked api s ctx oid rs value rank due orderText) wl = (a, w')" by simp
    from l wi ordered_answers(3) show ?thesis
    proof (cases rule: weak_QueryRow_cases)
      case (Failed e)
      with run2 i(1) show ?thesis by (auto intro: others_only_trans)
    next
      case (Done now' rows' ws')
      have oo: "others_only wg wl" using i(1) Done(2) by (rule others_only_trans)
      have ws': "ws' = []" using Done(4) by (simp add: lock_order_stmt_def)
      show ?thesis
      proof (cases "?look (apply_writes ws (db wl))")
        case None
        with Done(1,4) have "l = Inl ErrNoRows" by (auto simp: lock_order_stmt_def)
        with run2 oo show ?thesis by auto
      next
        case (Some n)
        with Done(1,4) have "l = Inr [CText (FormatInt n)]" by (auto simp: lock_order_stmt_def)
        with run2 have run3: "run_state (ordered_createLocked api s ctx oid rs value rank due (FormatInt n)) wl = (a, w')"
          by (simp add: scan_one_text_def scan_text_def)
        have "present (apply_writes ws (db wl)) ?k" using Some by (auto intro: fmdomI)
        then have lk: "weak ws (ks \<union> {?k}) wl"
          using Done(5) ws' by (simp add: new_locks_def lock_order_stmt_def)
        have "drawn oid ws n (ks \<union> {?k}) wl"
          using lk ws Some Done(3) by (auto simp: drawn_def ks_def)
        from create_locked_ok [OF run3 this] show ?thesis using oo by (blast intro: attempt_ok_later)
      qed
    qed
  qed
qed (simp add: scope_writes_def)

section \<open>The reread\<close>

lemma get_shows:
  assumes "run_state (ordered_get api s ctx oid) w = (g, w')"
  shows "others_only w w' \<and> txn w' = txn w \<and> (\<forall>got. g = Inr got \<longrightarrow> rec_ID got = oid \<and> shown got (db w'))"
  using assms
proof (cases rule: pool_get_cases)
  case (Found row)
  have "rec_ID got = oid \<and> shown got (db w')" if "g = Inr got" for got
    using scanRecord_shows [of api oid row got] Found(1,4) that by (auto simp: shown_def)
  with Found(2,3) show ?thesis by blast
qed auto

lemma reread_ok:
  assumes "run_state (do {
      ctx \<leftarrow> WithTimeout Background AuthoritativeReadTimeout;
      g \<leftarrow> ordered_get api s ctx oid;
      State_Monad.return (f g) }) w = (r, w')"
  obtains g where "r = f g" "others_only w w'" "txn w' = txn w"
    "\<forall>got. g = Inr got \<longrightarrow> rec_ID got = oid \<and> shown got (db w')"
proof -
  let ?w1 = "w\<lparr>script := tl (script w)\<rparr>"
  obtain g where g: "run_state (ordered_get api s (WithDeadline Background (ev_clock (next_event w) + AuthoritativeReadTimeout)) oid) ?w1 = (g, w')"
      and r: "r = f g"
    using assms by (auto split: prod.splits)
  have oo: "others_only ?w1 w' \<Longrightarrow> others_only w w'" using others_only_trans [of w ?w1 w'] by simp
  from get_shows [OF g] r oo show thesis by (intro that [of g]) auto
qed

lemma resolve_create_ok:
  assumes "run_state (resolveCreate api s oid want cause) w = (r, w')" and "txn w = None"
    and "created_wanted oid rs value rank due want"
  shows "txn w' = None \<and> others_only w w' \<and> (case r of Inl e \<Rightarrow> ambiguous e
     | Inr x \<Rightarrow> x = (want, True) \<and> (\<exists>d \<in> set (states w w'). create_seen oid rs value rank due x d))"
proof (rule reread_ok [OF assms(1) [unfolded resolveCreate_def]])
  fix g
  assume g: "r = (case g of Inl _ \<Rightarrow> Inl (OrderedAmbiguous OrderedCreateOperation oid cause)
       | Inr got \<Rightarrow> if recordsEqual got want then Inr (got, True)
                    else Inl (OrderedAmbiguous OrderedCreateOperation oid cause))"
    "others_only w w'" "txn w' = txn w" "\<forall>got. g = Inr got \<longrightarrow> rec_ID got = oid \<and> shown got (db w')"
  show ?thesis
  proof (cases "g = Inr want")
    case True
    with g(4) assms(3) have "create_seen oid rs value rank due (want, True) (db w')" by (simp add: create_seen_def)
    with True g(1-3) assms(2) final_state [of w' w] show ?thesis by (auto simp: recordsEqual_iff)
  next
    case False
    with g(1) have "r = Inl (OrderedAmbiguous OrderedCreateOperation oid cause)"
      by (auto simp: recordsEqual_iff split: sum.splits)
    with g(2,3) assms(2) show ?thesis by (simp add: ambiguous_def)
  qed
qed

interpretation creating: attempts
  "ordered_createOnce api s ctx oid rs value rank due" "resolveCreate api s oid"
  "create_result oid rs value rank due" "create_seen oid rs value rank due" "create_blames api oid" "\<lambda>r. (r, True)"
  "created_wanted oid rs value rank due"
  for api s ctx oid rs "value" rank due
proof
  show "txn w' = None \<and> attempt_ok (create_result oid rs value rank due) (create_seen oid rs value rank due)
      (create_blames api oid) (\<lambda>r. (r, True)) (created_wanted oid rs value rank due) w a w'"
    if "run_state (ordered_createOnce api s ctx oid rs value rank due) w = (a, w')" "txn w = None" for w a w'
    using that(1) [unfolded ordered_createOnce_def] that(2) by (rule transaction_ok) (rule create_body_ok)
qed (rule resolve_create_ok)

section \<open>Update and Delete\<close>

definition mutation_blames :: "storage_api \<Rightarrow> ordered_id \<Rightarrow> u64 \<Rightarrow> (err \<Rightarrow> bool) \<Rightarrow> err \<Rightarrow> database \<Rightarrow> bool" where
  "mutation_blames api oid expectedRevision invalid e d \<longleftrightarrow>
     rejected api oid e d \<or> invalid e \<or>
     (e = OrderedRecordNotFound oid \<and>
        (fmlookup (t_ordered_records d) (id_key oid) = None \<or> rejected api oid ErrNoRows d)) \<or>
     (\<exists>row. fmlookup (t_ordered_records d) (id_key oid) = Some row \<and>
        (e = OrderedDeleted oid \<and> o_deleted row \<or>
         (\<exists>actual. e = OrderedRevisionConflict oid expectedRevision actual \<and> o_revision row = uint actual \<and>
            actual \<noteq> expectedRevision \<and> \<not> o_deleted row) \<or>
         (e = OrderedRevisionExhausted oid expectedRevision \<and> o_revision row = max_uint64 \<and>
            uint expectedRevision = max_uint64 \<and> \<not> o_deleted row)))"

definition update_invalid :: "storage_api \<Rightarrow> bytes option \<Rightarrow> due \<Rightarrow> err \<Rightarrow> bool" where
  "update_invalid api value due e \<longleftrightarrow> ValidateOrderedValue api value = Some e \<or> ValidateDue api due = Some e"

definition updated_wanted :: "ordered_id \<Rightarrow> u64 \<Rightarrow> bytes option \<Rightarrow> rank \<Rightarrow> due \<Rightarrow> ordered_record \<Rightarrow> bool" where
  "updated_wanted oid expectedRevision value rank due r \<longleftrightarrow> rec_ID r = oid \<and> rec_Revision r = expectedRevision + 1 \<and>
     rec_Value r = value \<and> rec_Rank r = rank \<and> rec_Due r = due \<and> \<not> rec_Deleted r"

definition update_result ::
  "ordered_id \<Rightarrow> u64 \<Rightarrow> bytes option \<Rightarrow> rank \<Rightarrow> due \<Rightarrow> ordered_record \<Rightarrow> database \<Rightarrow> database \<Rightarrow> bool" where
  "update_result oid expectedRevision value rank due r d d' \<longleftrightarrow>
     update_step oid expectedRevision value rank due d d' \<and> shown r d'"

definition update_seen :: "ordered_id \<Rightarrow> u64 \<Rightarrow> bytes option \<Rightarrow> rank \<Rightarrow> due \<Rightarrow> ordered_record \<Rightarrow> database \<Rightarrow> bool" where
  "update_seen oid expectedRevision value rank due r d \<longleftrightarrow>
     updated_wanted oid expectedRevision value rank due r \<and> shown r d"

text \<open>The record \<open>Delete\<close> returns carries \<open>storage.NotDue\<close>; the row gets 0.\<close>

definition deleted_wanted :: "storage_api \<Rightarrow> ordered_id \<Rightarrow> u64 \<Rightarrow> ordered_record \<Rightarrow> bool" where
  "deleted_wanted api oid expectedRevision r \<longleftrightarrow> rec_ID r = oid \<and> rec_Deleted r"

definition delete_result :: "storage_api \<Rightarrow> ordered_id \<Rightarrow> u64 \<Rightarrow> ordered_record \<Rightarrow> database \<Rightarrow> database \<Rightarrow> bool" where
  "delete_result api oid expectedRevision r d d' \<longleftrightarrow>
     delete_step oid expectedRevision d d' \<and> rec_Revision r = expectedRevision + 1 \<and> (NotDue api = 0 \<longrightarrow> shown r d')"

definition delete_seen :: "storage_api \<Rightarrow> ordered_id \<Rightarrow> u64 \<Rightarrow> ordered_record \<Rightarrow> database \<Rightarrow> bool" where
  "delete_seen api oid expectedRevision r d \<longleftrightarrow>
     deleted_wanted api oid expectedRevision r \<and> (NotDue api = 0 \<longrightarrow> shown r d)"

text \<open>The locked read; what follows has the row of the record it works on locked.\<close>

lemma locked_body_ok:
  assumes run: "run_state (ordered_lockedBody api s ctx oid rest) w = (a, w')" and wk: "weak [] {} w"
    and rest: "\<And>wg row current. weak [] {id_row oid} wg \<Longrightarrow> fmlookup (t_ordered_records (db wg)) (id_key oid) = Some row \<Longrightarrow>
      rec_ID current = oid \<Longrightarrow> row_shows row current \<Longrightarrow> run_state (rest current) wg = (a, w') \<Longrightarrow>
      attempt_ok step seen (mutation_blames api oid expectedRevision invalid) intended wanted wg a w'"
  shows "attempt_ok step seen (mutation_blames api oid expectedRevision invalid) intended wanted w a w'"
proof -
  obtain g wg where g: "run_state (ordered_getFrom api s (tx_QueryRow ctx) oid '' FOR UPDATE'') w = (g, wg)" by (meson surj_pair)
  have run': "run_state (case g of
       Inl e \<Rightarrow> State_Monad.return (Failed (if e = ErrNoRows then OrderedRecordNotFound oid else e))
     | Inr current \<Rightarrow> rest current) wg = (a, w')"
    using run g by (simp add: ordered_lockedBody_def ordered_getForUpdate_def del: run_state_case_sum)
  have "scope_writes []" by (simp add: scope_writes_def)
  with g wk show ?thesis
  proof (cases rule: tx_get_cases)
    case (Failed e)
    then have "e \<noteq> ErrNoRows" by auto
    with Failed run' show ?thesis by auto
  next
    case Absent
    then have "mutation_blames api oid expectedRevision invalid (OrderedRecordNotFound oid) (db wg)"
      by (simp add: mutation_blames_def)
    with Absent(1,2) run' final_state [of wg w] show ?thesis by auto
  next
    case (Found row)
    show ?thesis
    proof (cases g)
      case (Inr r)
      with Found(1) have "scanRecord api (record_row (id_key oid) row) = Inr r" by simp
      from scanRecord_shows [OF this] have r: "rec_ID r = oid" "row_shows row r" by auto
      have "weak [] {id_row oid} wg" using Found(4) by simp
      from attempt_ok_later [OF Found(2) rest [OF this Found(5) r]] Inr run' show ?thesis by simp
    next
      case (Inl e)
      then have "rejected api oid e (db wg)" using Found by (auto simp: rejected_def)
      then have "mutation_blames api oid expectedRevision invalid (if e = ErrNoRows then OrderedRecordNotFound oid else e) (db wg)"
        by (auto simp: mutation_blames_def)
      with Inl run' Found(2) final_state [of wg w] show ?thesis
        by (auto split: if_splits intro!: bexI [of _ "db w'"])
    qed
  qed
qed

lemma update_row_sem_ok:
  assumes "update_row_sem oid f d = (Inr rows, ws)" and "fmlookup (t_ordered_records d) (id_key oid) = Some row"
  shows "ordered_row_ok (f row) \<and> ws = [WOrderRecord (Namespace oid) (OrderingScope oid) (stableKeyBytes (StableKey oid)) (Some (f row))]"
  using assms by (auto simp: update_row_sem_def split: if_splits)

text \<open>The write of a mutation and its commit.\<close>

lemma mutate_ok:
  assumes run: "run_state (do { u \<leftarrow> tx_Exec ctx st;
          case u of Inl e \<Rightarrow> State_Monad.return (Failed e) | Inr _ \<Rightarrow> ordered_commit ctx operation want want }) w = (a, w')"
    and wk: "weak [] {id_row oid} w" and st: "answers st"
    and sem: "\<And>now d. sql_sem st now d = update_row_sem oid f d" "\<not> sql_for_update st"
    and row: "fmlookup (t_ordered_records (db w)) (id_key oid) = Some row" "\<not> o_deleted row"
      "o_revision row = uint expectedRevision" "uint expectedRevision < max_uint64"
    and step: "\<And>d d'. mutation_step oid expectedRevision f d d' \<Longrightarrow> fmlookup (t_ordered_records d') (id_key oid) = Some (f row) \<Longrightarrow>
      step want d d' \<and> seen want d'"
    and "wanted want"
  shows "attempt_ok step seen blames id wanted w a w'"
  using run
proof (cases rule: attempt_try_cases)
  case (Error e)
  from Error(1) wk st show ?thesis by (cases rule: weak_Exec_cases) (use Error(2) in auto)
next
  case (Ok x wu)
  from Ok(1) wk st obtain now rows ws where u: "others_only w wu" "same_row (id_row oid) (db w) (db wu)"
      "sql_sem st now (db wu) = (Inr rows, ws)" "weak ws ({id_row oid} \<union> set (new_locks st (db wu) ws)) wu"
    by (cases rule: weak_Exec_cases) auto
  have "fmlookup (t_ordered_records (db wu)) (id_key oid) = Some row" using u(2) row(1) by (simp add: same_id_row)
  from update_row_sem_ok [OF u(3) [unfolded sem(1)] this]
  have ws: "ordered_row_ok (f row)" "ws = [WOrderRecord (Namespace oid) (OrderingScope oid) (stableKeyBytes (StableKey oid)) (Some (f row))]"
    by auto
  have wk': "weak ws {id_row oid} wu" using u(4) ws(2) sem(2) by (simp add: new_locks_def id_row_def)
  have both: "step want d (apply_writes ws d) \<and> seen want (apply_writes ws d)"
    if "\<forall>k \<in> {id_row oid}. same_row k (db wu) d" for d
  proof -
    have "fmlookup (t_ordered_records d) (id_key oid) = Some row" using that u(2) row(1) by (simp add: same_id_row)
    then have "mutation_step oid expectedRevision f d (apply_writes ws d)"
      using row ws by (simp add: mutation_step_def id_key_def)
    then show ?thesis by (rule step) (simp add: ws(2) id_key_def)
  qed
  have "attempt_ok (\<lambda>x d d'. step x d d' \<and> seen x d') seen blames id wanted wu a w'"
  proof (rule commit_ok [OF Ok(2) wk'])
    show "step want d (apply_writes ws d) \<and> seen want (apply_writes ws d)"
      if "\<forall>k \<in> {id_row oid}. same_row k (db wu) d" for d using that by (rule both)
  qed (use ws(2) \<open>wanted want\<close> in auto)
  then have "attempt_ok step seen blames id wanted wu a w'"
    by (cases a) (auto intro: committed_mono)
  with u(1) show ?thesis by (rule attempt_ok_later)
qed

lemma mutations_no_lock [simp]:
  "\<not> sql_for_update (update_ordered_stmt s oid v nil rank due)" "\<not> sql_for_update (delete_ordered_stmt s oid)"
  by (simp_all add: update_ordered_stmt_def delete_ordered_stmt_def)

lemma uint_not_max: "uint (u :: u64) \<noteq> max_uint64 \<Longrightarrow> uint u < max_uint64"
  using uint_less_max [of u] by linarith

lemma databaseValue_value: "(if snd (databaseValue value) then None else Some (fst (databaseValue value))) = value"
  by (simp add: databaseValue_def split: option.split)

lemma cloneValue_id [simp]: "cloneValue value = value"
  by (simp add: cloneValue_def split: option.split)

text \<open>
  The two guards both mutations share: a live record at another revision or at the last one is
  refused with an error that is true of the database, and otherwise the rest runs.
\<close>

lemma revision_guard:
  assumes "run_state (if rec_Revision current \<noteq> expectedRevision
      then State_Monad.return (Failed (OrderedRevisionConflict oid expectedRevision (rec_Revision current)))
      else if uint (rec_Revision current) = max_uint64
      then State_Monad.return (Failed (OrderedRevisionExhausted oid (rec_Revision current))) else m) w = (a, w')"
    and "fmlookup (t_ordered_records (db w)) (id_key oid) = Some row" and "row_shows row current" and "\<not> rec_Deleted current"
  obtains (Refused) e where "a = Failed e" "w' = w" "mutation_blames api oid expectedRevision invalid e (db w)"
  | (Goes_on) "rec_Revision current = expectedRevision" "uint expectedRevision < max_uint64" "run_state m w = (a, w')"
proof -
  have rev: "o_revision row = uint (rec_Revision current)" "\<not> o_deleted row"
    using assms(3,4) by (auto simp: row_shows_def)
  consider "rec_Revision current \<noteq> expectedRevision"
    | "rec_Revision current = expectedRevision" "uint expectedRevision = max_uint64"
    | "rec_Revision current = expectedRevision" "uint expectedRevision \<noteq> max_uint64" by blast
  then show thesis
  proof cases
    case 1
    with assms(1) show thesis
      by (intro that(1) [of "OrderedRevisionConflict oid expectedRevision (rec_Revision current)"])
        (use assms(2) rev 1 in \<open>auto simp: mutation_blames_def\<close>)
  next
    case 2
    with assms(1) show thesis
      by (intro that(1) [of "OrderedRevisionExhausted oid expectedRevision"])
        (use assms(2) rev 2 in \<open>auto simp: mutation_blames_def\<close>)
  next
    case 3
    with assms(1) uint_not_max show thesis by (intro that(2)) auto
  qed
qed

lemma update_locked_ok:
  assumes run: "run_state (ordered_updateLocked api s ctx oid expectedRevision value rank due current) w = (a, w')"
    and wk: "weak [] {id_row oid} w" and row: "fmlookup (t_ordered_records (db w)) (id_key oid) = Some row"
    and cur: "rec_ID current = oid" "row_shows row current"
  shows "attempt_ok (update_result oid expectedRevision value rank due) (update_seen oid expectedRevision value rank due)
    (mutation_blames api oid expectedRevision (update_invalid api value due)) id
    (updated_wanted oid expectedRevision value rank due) w a w'"
proof -
  let ?next = "\<lambda>revision. current\<lparr>rec_Revision := revision + 1, rec_Value := value, rec_Rank := rank, rec_Due := due\<rparr>"
  let ?blames = "mutation_blames api oid expectedRevision (update_invalid api value due)"
  have blamed: ?thesis if "a = Failed e" "w' = w" "?blames e (db w)" for e
    using that final_state [of w w] by auto
  have rev: "o_revision row = uint (rec_Revision current)" "o_deleted row = rec_Deleted current"
    using cur(2) by (auto simp: row_shows_def)
  note run' = run [unfolded ordered_updateLocked_def]
  consider "rec_Deleted current"
    | e where "\<not> rec_Deleted current" "update_invalid api value due e" "a = Failed e" "w' = w"
    | "\<not> rec_Deleted current" "ValidateOrderedValue api value = None" "ValidateDue api due = None"
    using run' by (cases "ValidateOrderedValue api value"; cases "ValidateDue api due") (auto simp: update_invalid_def split: if_splits)
  then show ?thesis
  proof cases
    case 1
    with run' have "a = Failed (OrderedDeleted oid)" "w' = w" by auto
    then show ?thesis by (rule blamed) (use row rev 1 in \<open>auto simp: mutation_blames_def\<close>)
  next
    case (2 e)
    then show ?thesis by (intro blamed) (auto simp: mutation_blames_def)
  next
    case 3
    then have "ordered_updateLocked api s ctx oid expectedRevision value rank due current = (if rec_Revision current \<noteq> expectedRevision
        then State_Monad.return (Failed (OrderedRevisionConflict oid expectedRevision (rec_Revision current)))
        else if uint (rec_Revision current) = max_uint64
        then State_Monad.return (Failed (OrderedRevisionExhausted oid (rec_Revision current)))
        else do {
          u \<leftarrow> tx_Exec ctx (update_ordered_stmt s oid (fst (databaseValue value)) (snd (databaseValue value)) rank due);
          case u of Inl e \<Rightarrow> State_Monad.return (Failed e) | Inr _ \<Rightarrow>
          ordered_commit ctx ''ordered update commit'' (?next (rec_Revision current)) (?next (rec_Revision current)) })"
      by (simp add: ordered_updateLocked_def case_prod_beta Let_def)
    from run [unfolded this] row cur(2) 3(1) show ?thesis
    proof (cases rule: revision_guard [where api = api and invalid = "update_invalid api value due"])
      case (Refused e)
      then show ?thesis by (rule blamed)
    next
      case Goes_on
      let ?new = "?next expectedRevision"
      have want: "updated_wanted oid expectedRevision value rank due ?new"
        using cur Goes_on(1) 3 by (simp add: updated_wanted_def)
      have disp: "row_shows (updated_row value rank due row) ?new"
        using cur(2) Goes_on(1,2) 3 databaseValue_value [of "value"]
        by (auto simp: row_shows_def updated_row_def uint_succ_u64 split: if_splits)
      from Goes_on(3) [unfolded Goes_on(1)] wk show ?thesis
      proof (rule mutate_ok [where f = "updated_row value rank due" and row = row and expectedRevision = expectedRevision])
        show "\<And>now d. sql_sem (update_ordered_stmt s oid (fst (databaseValue value)) (snd (databaseValue value)) rank due) now d =
            update_row_sem oid (updated_row value rank due) d"
          by (simp add: update_ordered_stmt_def updated_row_def [abs_def])
        show "update_result oid expectedRevision value rank due ?new d d' \<and> update_seen oid expectedRevision value rank due ?new d'"
          if "mutation_step oid expectedRevision (updated_row value rank due) d d'"
            "fmlookup (t_ordered_records d') (id_key oid) = Some (updated_row value rank due row)" for d d'
          using that want disp cur(1) by (auto simp: update_result_def update_step_def update_seen_def shown_def)
      qed (use row rev Goes_on 3 want in auto)
    qed
  qed
qed

lemma delete_locked_ok:
  assumes run: "run_state (ordered_deleteLocked api s ctx oid expectedRevision current) w = (a, w')"
    and wk: "weak [] {id_row oid} w" and row: "fmlookup (t_ordered_records (db w)) (id_key oid) = Some row"
    and cur: "rec_ID current = oid" "row_shows row current"
  shows "attempt_ok (delete_result api oid expectedRevision) (delete_seen api oid expectedRevision)
    (mutation_blames api oid expectedRevision (\<lambda>_. False)) id (deleted_wanted api oid expectedRevision) w a w'"
proof -
  let ?next = "\<lambda>revision. current\<lparr>rec_Revision := revision + 1, rec_Deleted := True,
     rec_Rank := \<lparr>rank_Ranked = False, rank_Value = 0\<rparr>, rec_Due := \<lparr>due_State = NotDue api, due_UnixMillis = 0\<rparr>\<rparr>"
  let ?blames = "mutation_blames api oid expectedRevision (\<lambda>_. False)"
  have blamed: ?thesis if "a = Failed e" "w' = w" "?blames e (db w)" for e
    using that final_state [of w w] by auto
  have rev: "o_revision row = uint (rec_Revision current)" "o_deleted row = rec_Deleted current"
    using cur(2) by (auto simp: row_shows_def)
  note run' = run [unfolded ordered_deleteLocked_def]
  show ?thesis
  proof (cases "rec_Deleted current")
    case True
    with row cur have "delete_seen api oid expectedRevision current (db w)"
      by (auto simp: delete_seen_def deleted_wanted_def shown_def)
    with True run' final_state [of w w] show ?thesis by auto
  next
    case False
    then have "ordered_deleteLocked api s ctx oid expectedRevision current = (if rec_Revision current \<noteq> expectedRevision
        then State_Monad.return (Failed (OrderedRevisionConflict oid expectedRevision (rec_Revision current)))
        else if uint (rec_Revision current) = max_uint64
        then State_Monad.return (Failed (OrderedRevisionExhausted oid (rec_Revision current)))
        else do { u \<leftarrow> tx_Exec ctx (delete_ordered_stmt s oid);
            case u of Inl e \<Rightarrow> State_Monad.return (Failed e) | Inr _ \<Rightarrow>
            ordered_commit ctx ''ordered delete commit'' (?next (rec_Revision current)) (?next (rec_Revision current)) })"
      by (simp add: ordered_deleteLocked_def Let_def)
    from run [unfolded this] row cur(2) False show ?thesis
    proof (cases rule: revision_guard [where api = api and invalid = "\<lambda>_. False"])
      case (Refused e)
      then show ?thesis by (rule blamed)
    next
      case Goes_on
      let ?new = "?next expectedRevision"
      have want: "deleted_wanted api oid expectedRevision ?new" using cur by (simp add: deleted_wanted_def)
      have disp: "NotDue api = 0 \<Longrightarrow> row_shows (deleted_row row) ?new"
        using cur(2) Goes_on(1,2) by (auto simp: row_shows_def deleted_row_def uint_succ_u64)
      from Goes_on(3) [unfolded Goes_on(1)] wk show ?thesis
      proof (rule mutate_ok [where f = deleted_row and row = row and expectedRevision = expectedRevision])
        show "\<And>now d. sql_sem (delete_ordered_stmt s oid) now d = update_row_sem oid deleted_row d"
          by (simp add: delete_ordered_stmt_def deleted_row_def [abs_def])
        show "delete_result api oid expectedRevision ?new d d' \<and> delete_seen api oid expectedRevision ?new d'"
          if "mutation_step oid expectedRevision deleted_row d d'"
            "fmlookup (t_ordered_records d') (id_key oid) = Some (deleted_row row)" for d d'
          using that want disp cur(1) Goes_on(1)
          by (auto simp: delete_result_def delete_step_def delete_seen_def deleted_wanted_def shown_def)
      qed (use row rev Goes_on False want in auto)
    qed
  qed
qed

lemma resolve_mutation_ok:
  assumes "run_state (resolveMutation api s operation oid want cause) w = (r, w')" and "txn w = None"
  shows "txn w' = None \<and> others_only w w' \<and> (case r of Inl e \<Rightarrow> ambiguous e | Inr x \<Rightarrow> x = want \<and> shown want (db w'))"
proof (rule reread_ok [OF assms(1) [unfolded resolveMutation_def]])
  fix g
  assume g: "r = (case g of Inl _ \<Rightarrow> Inl (OrderedAmbiguous operation oid cause)
       | Inr got \<Rightarrow> if mutationMatchesExactPostState got want then Inr got
                    else Inl (OrderedAmbiguous operation oid cause))"
    "others_only w w'" "txn w' = txn w" "\<forall>got. g = Inr got \<longrightarrow> rec_ID got = oid \<and> shown got (db w')"
  show ?thesis
  proof (cases "g = Inr want")
    case True
    with g assms(2) show ?thesis by (simp add: mutationMatchesExactPostState_def recordsEqual_iff)
  next
    case False
    with g(1) have "r = Inl (OrderedAmbiguous operation oid cause)"
      by (auto simp: mutationMatchesExactPostState_def recordsEqual_iff split: sum.splits)
    with g(2,3) assms(2) show ?thesis by (simp add: ambiguous_def)
  qed
qed

interpretation updating: attempts
  "ordered_updateOnce api s ctx oid expectedRevision value rank due" "resolveMutation api s OrderedUpdateOperation oid"
  "update_result oid expectedRevision value rank due" "update_seen oid expectedRevision value rank due"
  "mutation_blames api oid expectedRevision (update_invalid api value due)" id
  "updated_wanted oid expectedRevision value rank due"
  for api s ctx oid expectedRevision "value" rank due
proof
  show "txn w' = None \<and> attempt_ok (update_result oid expectedRevision value rank due)
      (update_seen oid expectedRevision value rank due)
      (mutation_blames api oid expectedRevision (update_invalid api value due)) id
      (updated_wanted oid expectedRevision value rank due) w a w'"
    if "run_state (ordered_updateOnce api s ctx oid expectedRevision value rank due) w = (a, w')" "txn w = None" for w a w'
    using that(1) [unfolded ordered_updateOnce_def] that(2)
    by (rule transaction_ok) (rule locked_body_ok, assumption+, rule update_locked_ok)
  show "txn w' = None \<and> others_only w w' \<and> (case r of Inl e \<Rightarrow> ambiguous e
      | Inr x \<Rightarrow> x = id want \<and> (\<exists>d \<in> set (states w w'). update_seen oid expectedRevision value rank due x d))"
    if "run_state (resolveMutation api s OrderedUpdateOperation oid want cause) w = (r, w')" "txn w = None"
      "updated_wanted oid expectedRevision value rank due want" for want cause w r w'
    using resolve_mutation_ok [OF that(1,2)] that(3) final_state [of w' w]
    by (auto simp: update_seen_def split: sum.splits)
qed

interpretation deleting: attempts
  "ordered_deleteOnce api s ctx oid expectedRevision" "resolveMutation api s OrderedDeleteOperation oid"
  "delete_result api oid expectedRevision" "delete_seen api oid expectedRevision"
  "mutation_blames api oid expectedRevision (\<lambda>_. False)" id "deleted_wanted api oid expectedRevision"
  for api s ctx oid expectedRevision
proof
  show "txn w' = None \<and> attempt_ok (delete_result api oid expectedRevision) (delete_seen api oid expectedRevision)
      (mutation_blames api oid expectedRevision (\<lambda>_. False)) id (deleted_wanted api oid expectedRevision) w a w'"
    if "run_state (ordered_deleteOnce api s ctx oid expectedRevision) w = (a, w')" "txn w = None" for w a w'
    using that(1) [unfolded ordered_deleteOnce_def] that(2)
    by (rule transaction_ok) (rule locked_body_ok, assumption+, rule delete_locked_ok)
  show "txn w' = None \<and> others_only w w' \<and> (case r of Inl e \<Rightarrow> ambiguous e
      | Inr x \<Rightarrow> x = id want \<and> (\<exists>d \<in> set (states w w'). delete_seen api oid expectedRevision x d))"
    if "run_state (resolveMutation api s OrderedDeleteOperation oid want cause) w = (r, w')" "txn w = None"
      "deleted_wanted api oid expectedRevision want" for want cause w r w'
    using resolve_mutation_ok [OF that(1,2)] that(3) final_state [of w' w]
    by (auto simp: delete_seen_def split: sum.splits)
qed

end
