(* ===== verification/OrderedProperties.thy ===== *)
theory OrderedProperties
  imports OrderedChanges
begin

text \<open>
  The properties of the ordered index's \<open>Create\<close>, \<open>Update\<close>, \<open>Delete\<close> and \<open>Get\<close>: what they commit,
  what success and every error mean, that acceptance orders are assigned without gaps and
  without repetition, and that a record's identity, order and ranking scope never change.
\<close>

section \<open>The operations as a whole\<close>

lemma failure_run [simp]:
  "run_state (ordered_failure ctx operation) w =
     ((case ev_ctx_err (next_event w) of Some x \<Rightarrow> CtxError x | None \<Rightarrow> RedactedError operation),
      w\<lparr>script := tl (script w)\<rparr>)"
  by (simp add: ordered_failure_def)

lemma create_outcome:
  assumes run: "run_state (ordered_Create api s c oid rs value rank due) w = (r, w')" and none: "txn w = None"
  shows "txn w' = None \<and>
    ((\<exists>e. r = Inl e \<and> others_only w w' \<and> (e = DeadlineRequired ''OrderedIndex.Create'' \<or> ValidateOrderedID api oid = Some e \<or>
        validateCandidate api rs value due = Some e \<or> e = RedactedError ''ordered create lookup'' \<or> (\<exists>x. e = CtxError x))) \<or>
     operation_ok ''ordered create'' (create_result oid rs value rank due) (create_seen oid rs value rank due) (create_blames api oid) w r w')"
  using run [unfolded ordered_Create_def]
proof (cases rule: after_Bound)
  case Refused
  with none show ?thesis by auto
next
  case (Bounded ctx w0)
  show ?thesis
  proof (cases "ValidateOrderedID api oid")
    case (Some e)
    with Bounded none show ?thesis by auto
  next
    case None
    obtain g wg where g: "run_state (ordered_get api s ctx oid) w0 = (g, wg)" by (meson surj_pair)
    note get = get_shows [OF g]
    have oo: "others_only w wg" using Bounded(2) get by (blast intro: others_only_trans)
    show ?thesis
    proof (cases g)
      case (Inr existing)
      with Bounded(4) None g have "r = Inr (existing, False)" "w' = wg" by auto
      with Inr get oo Bounded(3) none final_state [of wg w] show ?thesis by (auto simp: create_seen_def)
    next
      case (Inl e)
      show ?thesis
      proof (cases "e = ErrNoRows \<and> validateCandidate api rs value due = None")
        case True
        with Inl Bounded(4) None g have "run_state (ordered_retry ctx ''ordered create''
            (ordered_createOnce api s ctx oid rs value rank due) (resolveCreate api s oid) 0) wg = (r, w')" by simp
        moreover have "txn wg = None" using get Bounded(3) none by simp
        ultimately have "txn w' = None \<and> operation_ok ''ordered create'' (create_result oid rs value rank due)
            (create_seen oid rs value rank due) (create_blames api oid) wg r w'"
          by (intro creating.retry_ok) auto
        with operation_ok_later [OF oo] show ?thesis by blast
      next
        case False
        with Inl Bounded(4) None g get oo Bounded(3) none show ?thesis
          by (auto intro: others_only_tick split: if_splits option.splits)
      qed
    qed
  qed
qed

lemma mutation_outcome:
  assumes run: "run_state (do {
       b \<leftarrow> Bound c operation t;
       case b of Inl e \<Rightarrow> State_Monad.return (Inl e) | Inr ctx \<Rightarrow>
       (case ValidateOrderedID api oid of Some e \<Rightarrow> State_Monad.return (Inl e) | None \<Rightarrow> f ctx) }) w = (r, w')"
    and none: "txn w = None"
    and f: "\<And>ctx w0. run_state (f ctx) w0 = (r, w') \<Longrightarrow> txn w0 = None \<Longrightarrow> txn w' = None \<and> operation_ok name step seen blames w0 r w'"
  shows "txn w' = None \<and> ((\<exists>e. r = Inl e \<and> others_only w w' \<and> (e = DeadlineRequired operation \<or> ValidateOrderedID api oid = Some e)) \<or>
     operation_ok name step seen blames w r w')"
  using run
proof (cases rule: after_Bound)
  case Refused
  with none show ?thesis by auto
next
  case (Bounded ctx w0)
  show ?thesis
  proof (cases "ValidateOrderedID api oid")
    case (Some e)
    with Bounded none show ?thesis by auto
  next
    case None
    with Bounded have "run_state (f ctx) w0 = (r, w')" by simp
    from f [OF this] Bounded(3) none have "txn w' = None" "operation_ok name step seen blames w0 r w'" by auto
    with operation_ok_later [OF Bounded(2)] show ?thesis by blast
  qed
qed

lemma update_outcome:
  assumes "run_state (ordered_Update api s c oid expectedRevision value rank due) w = (r, w')" and "txn w = None"
  shows "txn w' = None \<and>
    ((\<exists>e. r = Inl e \<and> others_only w w' \<and> (e = DeadlineRequired ''OrderedIndex.Update'' \<or> ValidateOrderedID api oid = Some e)) \<or>
     operation_ok ''ordered update'' (update_result oid expectedRevision value rank due) (update_seen oid expectedRevision value rank due)
       (mutation_blames api oid expectedRevision (update_invalid api value due)) w r w')"
  using assms(1) [unfolded ordered_Update_def] assms(2)
  by (rule mutation_outcome) (erule updating.retry_ok, simp_all)

lemma delete_outcome:
  assumes "run_state (ordered_Delete api s c oid expectedRevision) w = (r, w')" and "txn w = None"
  shows "txn w' = None \<and>
    ((\<exists>e. r = Inl e \<and> others_only w w' \<and> (e = DeadlineRequired ''OrderedIndex.Delete'' \<or> ValidateOrderedID api oid = Some e)) \<or>
     operation_ok ''ordered delete'' (delete_result api oid expectedRevision) (delete_seen api oid expectedRevision)
       (mutation_blames api oid expectedRevision (\<lambda>_. False)) w r w')"
  using assms(1) [unfolded ordered_Delete_def] assms(2)
  by (rule mutation_outcome) (erule deleting.retry_ok, simp_all)

text \<open>An outcome that is in order commits at most one step of the operation.\<close>

lemma outcome_commits:
  assumes "(\<exists>e. r = Inl e \<and> others_only w w' \<and> P e) \<or> operation_ok name step seen blames w r w'"
    and "\<And>x d d'. step x d d' \<Longrightarrow> R d d'"
  shows "others_only w w' \<or> committed R w w'"
  using assms by (cases r) (auto intro: committed_mono)

lemma create_guarantee: "guarantees (create_step oid rs value rank due) (ordered_Create api s c oid rs value rank due)"
  by (rule guaranteesI_committed)
    (frule (1) create_outcome, elim conjE, drule outcome_commits [where R = "create_step oid rs value rank due"],
     auto simp: create_result_def)

lemma update_guarantee: "guarantees (update_step oid expectedRevision value rank due) (ordered_Update api s c oid expectedRevision value rank due)"
  by (rule guaranteesI_committed)
    (frule (1) update_outcome, elim conjE, drule outcome_commits [where R = "update_step oid expectedRevision value rank due"],
     auto simp: update_result_def)

lemma delete_guarantee: "guarantees (delete_step oid expectedRevision) (ordered_Delete api s c oid expectedRevision)"
  by (rule guaranteesI_committed)
    (frule (1) delete_outcome, elim conjE, drule outcome_commits [where R = "delete_step oid expectedRevision"],
     auto simp: delete_result_def)

text \<open>
  C4. Whatever the other sessions, the network and the clocks do, every change \<open>Create\<close>
  commits draws exactly the next order of its scope and stores the new record with it, revision 1,
  where there was none; every change \<open>Update\<close> and \<open>Delete\<close> commit replaces a live record at
  exactly the expected revision by the next revision, and nothing else.
\<close>

theorem ordered_changes_commit:
  "guarantees (create_step oid rankingScope value rank due) (ordered_Create api s c oid rankingScope value rank due) \<and>
   guarantees (update_step oid expectedRevision value rank due) (ordered_Update api s c oid expectedRevision value rank due) \<and>
   guarantees (delete_step oid expectedRevision) (ordered_Delete api s c oid expectedRevision)"
  by (intro conjI create_guarantee update_guarantee delete_guarantee)

section \<open>What errors mean\<close>

text \<open>
  At most one commit, and none behind an error unless the error says that the outcome is unknown
  and an acknowledgement was indeed lost.
\<close>

definition definite :: "('z world_scheme, 'a result) state \<Rightarrow> 'z world_scheme \<Rightarrow> bool" where
  "definite m w \<longleftrightarrow> (let (r, w') = run_state m w in
     length (our_commits w w') \<le> 1 \<and>
     (case r of Inr _ \<Rightarrow> True
      | Inl e \<Rightarrow> \<not> (ambiguous e \<and> \<not> reliable (script w)) \<longrightarrow> our_commits w w' = []))"

lemma outcome_definite:
  assumes "run_state m w = (r, w')"
    and "(\<exists>e. r = Inl e \<and> others_only w w' \<and> P e) \<or> operation_ok name step seen blames w r w'"
  shows "definite m w"
  using assms by (cases r) (auto simp: definite_def others_only_ours committed_def)

text \<open>
  C8. Retrying never applies a change twice, and an error tells the truth about it: \<open>Create\<close>,
  \<open>Update\<close> and \<open>Delete\<close> commit at most once over all their attempts, and when one of them
  returns an error it committed nothing -- unless the error is \<open>OrderedAmbiguousError\<close> and an
  acknowledgement was lost.
\<close>

theorem ordered_errors_definite:
  assumes "txn w = None"
  shows "definite (ordered_Create api s c oid rankingScope value rank due) w \<and>
    definite (ordered_Update api s c oid expectedRevision value rank due) w \<and>
    definite (ordered_Delete api s c oid expectedRevision) w"
  using create_outcome [OF prod.collapse [symmetric] assms, of api s c oid rankingScope "value" rank due]
    update_outcome [OF prod.collapse [symmetric] assms, of api s c oid expectedRevision "value" rank due]
    delete_outcome [OF prod.collapse [symmetric] assms, of api s c oid expectedRevision]
  by (auto intro: outcome_definite [OF prod.collapse [symmetric]] simp del: operation_ok.simps)

section \<open>What success means\<close>

text \<open>
  C20. When \<open>Create\<close> succeeds, some committed state during the call held the returned record
  under the requested identity.  With \<open>created\<close> set the record has the caller's value, rank, due
  time and ranking scope at revision 1; without it \<open>Create\<close> changed nothing.
\<close>

theorem ordered_Create_success:
  assumes "run_state (ordered_Create api s c oid rankingScope value rank due) w = (Inr (record, created), w')"
    and "txn w = None"
  shows "rec_ID record = oid \<and> (\<exists>d \<in> set (states w w'). shown record d) \<and>
    (created \<longrightarrow> (\<exists>order. record = new_record oid rankingScope value rank due order)) \<and>
    (\<not> created \<longrightarrow> our_commits w w' = [])"
  using create_outcome [OF assms]
  by (auto simp: create_seen_def created_wanted_def create_result_def committed_def others_only_ours)

text \<open>
  When \<open>Update\<close> succeeds, some committed state held the returned record: the identity asked
  for, the expected revision plus one, and the caller's value, rank and due time.
\<close>

theorem ordered_Update_success:
  assumes "run_state (ordered_Update api s c oid expectedRevision value rank due) w = (Inr record, w')"
    and "txn w = None"
  shows "rec_ID record = oid \<and> rec_Revision record = expectedRevision + 1 \<and> rec_Value record = value \<and>
    rec_Rank record = rank \<and> rec_Due record = due \<and> \<not> rec_Deleted record \<and>
    (\<exists>d \<in> set (states w w'). shown record d)"
  using update_outcome [OF assms] by (auto simp: update_seen_def updated_wanted_def)

text \<open>
  When \<open>Delete\<close> succeeds, some committed state held the returned record as deleted, under
  the identity asked for; and if \<open>Delete\<close> committed a change, the record has the expected revision
  plus one.  The hypothesis is that \<open>storage.NotDue\<close> is the state 0 that the schema requires of a
  deleted row.
\<close>

theorem ordered_Delete_success:
  assumes "run_state (ordered_Delete api s c oid expectedRevision) w = (Inr record, w')"
    and "txn w = None" and "NotDue api = 0"
  shows "rec_ID record = oid \<and> rec_Deleted record \<and> (\<exists>d \<in> set (states w w'). shown record d) \<and>
    (our_commits w w' \<noteq> [] \<longrightarrow> rec_Revision record = expectedRevision + 1)"
  using delete_outcome [OF assms(1,2)] assms(3)
  by (auto simp: delete_seen_def deleted_wanted_def delete_result_def committed_def others_only_ours)

section \<open>Refusals are justified\<close>

text \<open>
  The validator of stored records reports errors of its own, not \<open>pgx.ErrNoRows\<close> and not one of
  the outcomes the index itself reports.
\<close>

fun index_outcome :: "err \<Rightarrow> bool" where
  "index_outcome (OrderedRecordNotFound _) = True"
| "index_outcome (OrderedDeleted _) = True"
| "index_outcome (OrderedRevisionConflict _ _ _) = True"
| "index_outcome (OrderedRevisionExhausted _ _) = True"
| "index_outcome OrderExhausted = True"
| "index_outcome ErrNoRows = True"
| "index_outcome _ = False"

definition own_errors :: "storage_api \<Rightarrow> bool" where
  "own_errors api \<longleftrightarrow> (\<forall>r e. ValidateOrderedRecord api r = Some e \<longrightarrow> \<not> index_outcome e) \<and>
     (\<forall>v e. ValidateOrderedValue api v = Some e \<longrightarrow> \<not> index_outcome e) \<and>
     (\<forall>d e. ValidateDue api d = Some e \<longrightarrow> \<not> index_outcome e) \<and>
     (\<forall>i e. ValidateOrderedID api i = Some e \<longrightarrow> \<not> index_outcome e) \<and>
     (\<forall>n e. ValidateName api n = Some e \<longrightarrow> \<not> index_outcome e)"

lemma decodeRecord_error:
  "decodeRecord api oid rs rt ot value nil rank ds um del = Inl e \<Longrightarrow> own_errors api \<Longrightarrow> \<not> index_outcome e"
  by (auto simp: decodeRecord_def and_then_def Let_def parseUint_def RedactedError_def own_errors_def
      split: sum.splits option.splits if_splits)

lemma rejected_own: "rejected api oid e d \<Longrightarrow> own_errors api \<Longrightarrow> \<not> index_outcome e"
  by (auto simp: rejected_def id_key_parts scanRecord_row dest: decodeRecord_error split: if_splits)

definition refusal_true :: "ordered_id \<Rightarrow> u64 \<Rightarrow> err \<Rightarrow> database \<Rightarrow> bool" where
  "refusal_true oid expectedRevision e d \<longleftrightarrow>
     (case fmlookup (t_ordered_records d) (id_key oid) of
        None \<Rightarrow> e = OrderedRecordNotFound oid
      | Some row \<Rightarrow>
          if o_deleted row then e = OrderedDeleted oid
          else (\<exists>actual. e = OrderedRevisionConflict oid expectedRevision actual \<and> o_revision row = uint actual \<and> actual \<noteq> expectedRevision) \<or>
               (e = OrderedRevisionExhausted oid expectedRevision \<and> o_revision row = max_uint64 \<and> o_revision row = uint expectedRevision))"

lemma mutation_blames_true:
  assumes "mutation_blames api oid expectedRevision invalid e d" and "index_outcome e" and "own_errors api"
    and "invalid e \<Longrightarrow> \<not> index_outcome e"
  shows "refusal_true oid expectedRevision e d"
  using assms rejected_own [of api oid e d] rejected_own [of api oid ErrNoRows d]
  by (auto simp: mutation_blames_def refusal_true_def)

lemma refusal_outcome:
  assumes "(\<exists>e. (Inl e0 :: 'a result) = Inl e \<and> others_only w w' \<and> (e = DeadlineRequired operation \<or> ValidateOrderedID api oid = Some e)) \<or>
     operation_ok name step seen (mutation_blames api oid expectedRevision invalid) w (Inl e0 :: 'a result) w'"
    and "own_errors api" and "index_outcome e0" and "\<And>e. invalid e \<Longrightarrow> \<not> index_outcome e"
  shows "\<exists>d \<in> set (states w w'). refusal_true oid expectedRevision e0 d"
proof -
  have "\<not> ambiguous e0" "e0 \<noteq> RedactedError name" "\<And>x. e0 \<noteq> CtxError x" "\<And>x. e0 \<noteq> DeadlineRequired x"
    using assms(3) by (auto simp: ambiguous_def RedactedError_def)
  moreover have "ValidateOrderedID api oid \<noteq> Some e0" using assms(2,3) by (auto simp: own_errors_def)
  moreover have "refusal_true oid expectedRevision e0 d" if "mutation_blames api oid expectedRevision invalid e0 d" for d
    using that assms(3,2,4) by (rule mutation_blames_true)
  ultimately show ?thesis
    using assms(1) by (auto intro: bexI)
qed

text \<open>
  C26. A refusal is justified by a committed state of the call: when \<open>Update\<close> or \<open>Delete\<close> reports
  that the record does not exist, is deleted, stands at another revision or has no revision
  left, there was a committed state in which exactly that was so.  The hypothesis is that the
  \<open>storage\<close> validators report errors of their own.
\<close>

theorem ordered_refusals_justified:
  assumes "own_errors api" and "txn w = None" and "index_outcome e"
    and "run_state (ordered_Update api s c oid expectedRevision value rank due) w = (Inl e, w') \<or>
         run_state (ordered_Delete api s c oid expectedRevision) w = (Inl e, w')"
  shows "\<exists>d \<in> set (states w w'). refusal_true oid expectedRevision e d"
  using assms(4)
proof
  assume "run_state (ordered_Update api s c oid expectedRevision value rank due) w = (Inl e, w')"
  from conjunct2 [OF update_outcome [OF this assms(2)]] assms(1,3) show ?thesis
    by (rule refusal_outcome) (use assms(1) in \<open>auto simp: update_invalid_def own_errors_def\<close>)
next
  assume "run_state (ordered_Delete api s c oid expectedRevision) w = (Inl e, w')"
  from conjunct2 [OF delete_outcome [OF this assms(2)]] assms(1,3) show ?thesis
    by (rule refusal_outcome) simp
qed

section \<open>Acceptance orders\<close>

definition scope_counter :: "database \<Rightarrow> string \<Rightarrow> string \<Rightarrow> int" where
  "scope_counter d ns sc = (case fmlookup (t_ordered_scopes d) (ns, sc) of None \<Rightarrow> 0 | Some n \<Rightarrow> n)"

lemma order_counter_scope: "order_counter d oid = scope_counter d (Namespace oid) (OrderingScope oid)"
  by (simp add: order_counter_def scope_counter_def)

text \<open>
  The orders in use in a scope are exactly those from 1 to the scope's counter, and no two
  records of a scope share one.
\<close>

definition ordered_inv :: "database \<Rightarrow> bool" where
  "ordered_inv d \<longleftrightarrow>
     (\<forall>ns sc. 0 \<le> scope_counter d ns sc \<and> scope_counter d ns sc \<le> max_uint64) \<and>
     (\<forall>ns sc i. (\<exists>sk row. fmlookup (t_ordered_records d) (ns, sc, sk) = Some row \<and> o_order_id row = i) \<longleftrightarrow>
        1 \<le> i \<and> i \<le> scope_counter d ns sc) \<and>
     (\<forall>ns sc sk sk' row row'. fmlookup (t_ordered_records d) (ns, sc, sk) = Some row \<longrightarrow>
        fmlookup (t_ordered_records d) (ns, sc, sk') = Some row' \<longrightarrow> o_order_id row = o_order_id row' \<longrightarrow> sk = sk')"

definition ordered_step :: "database \<Rightarrow> database \<Rightarrow> bool" where
  "ordered_step d d' \<longleftrightarrow>
     (\<exists>oid rankingScope value rank due. create_step oid rankingScope value rank due d d') \<or>
     (\<exists>oid expectedRevision value rank due. update_step oid expectedRevision value rank due d d') \<or>
     (\<exists>oid expectedRevision. delete_step oid expectedRevision d d')"

lemma create_keeps_orders:
  assumes step: "create_step oid rs value rank due d d'" and inv: "ordered_inv d"
  shows "ordered_inv d'"
proof -
  let ?ns = "Namespace oid" and ?sc = "OrderingScope oid" and ?sk = "StableKey oid"
  define n where "n = scope_counter d ?ns ?sc + 1"
  define row where "row = created_row rs value rank due n"
  from step have new: "fmlookup (t_ordered_records d) (?ns, ?sc, ?sk) = None" and ok: "ordered_row_ok row"
    and d': "d' = d\<lparr>t_ordered_scopes := fmupd (?ns, ?sc) n (t_ordered_scopes d),
       t_ordered_records := fmupd (?ns, ?sc, ?sk) row (t_ordered_records d)\<rparr>"
    by (simp_all add: create_step_def order_counter_scope n_def row_def id_key_parts Let_def)
  have order: "o_order_id row = n" by (simp add: row_def created_row_def)
  have counter: "scope_counter d' ns sc = (if ns = ?ns \<and> sc = ?sc then n else scope_counter d ns sc)" for ns sc
    by (auto simp: d' scope_counter_def)
  have look: "fmlookup (t_ordered_records d') (ns, sc, sk) =
      (if ns = ?ns \<and> sc = ?sc \<and> sk = ?sk then Some row else fmlookup (t_ordered_records d) (ns, sc, sk))" for ns sc sk
    by (auto simp: d')
  have bounds: "1 \<le> n" "n \<le> max_uint64" using ok order by (auto simp: ordered_row_ok_def)
  have used: "(\<exists>sk row. fmlookup (t_ordered_records d) (ns, sc, sk) = Some row \<and> o_order_id row = i) \<longleftrightarrow>
      1 \<le> i \<and> i \<le> scope_counter d ns sc" for ns sc i
    using inv by (simp add: ordered_inv_def)
  have "(\<exists>sk r. fmlookup (t_ordered_records d') (ns, sc, sk) = Some r \<and> o_order_id r = i) \<longleftrightarrow>
      1 \<le> i \<and> i \<le> scope_counter d' ns sc" for ns sc i
  proof (cases "ns = ?ns \<and> sc = ?sc")
    case True
    have "(\<exists>sk r. fmlookup (t_ordered_records d') (ns, sc, sk) = Some r \<and> o_order_id r = i) \<longleftrightarrow>
        i = n \<or> (\<exists>sk r. fmlookup (t_ordered_records d) (ns, sc, sk) = Some r \<and> o_order_id r = i)"
      using True new order by (auto simp: look split: if_splits) (metis option.distinct(1))
    then show ?thesis using True used [of ns sc i] bounds by (auto simp: counter n_def)
  next
    case False
    then show ?thesis using used [of ns sc i] by (auto simp: counter look)
  qed
  moreover have "sk = sk'" if "fmlookup (t_ordered_records d') (ns, sc, sk) = Some r"
      "fmlookup (t_ordered_records d') (ns, sc, sk') = Some r'" "o_order_id r = o_order_id r'" for ns sc sk sk' r r'
  proof -
    have fresh: "o_order_id x \<noteq> n" if "fmlookup (t_ordered_records d) (?ns, ?sc, k) = Some x" for k x
      using that used [of ?ns ?sc "o_order_id x"] by (auto simp: n_def)
    have old: "fmlookup (t_ordered_records d) (ns, sc, sk) = Some r \<Longrightarrow> fmlookup (t_ordered_records d) (ns, sc, sk') = Some r' \<Longrightarrow> sk = sk'"
      using inv that(3) unfolding ordered_inv_def by blast
    show ?thesis using that old fresh order by (auto simp: look split: if_splits)
  qed
  moreover have "0 \<le> scope_counter d' ns sc \<and> scope_counter d' ns sc \<le> max_uint64" for ns sc
    using inv bounds by (auto simp: ordered_inv_def counter)
  ultimately show ?thesis unfolding ordered_inv_def by blast
qed

lemma mutation_keeps_orders:
  assumes step: "mutation_step oid expectedRevision f d d'" and inv: "ordered_inv d"
    and f: "\<And>r. o_order_id (f r) = o_order_id r"
  shows "ordered_inv d'"
proof -
  from step obtain row where row: "fmlookup (t_ordered_records d) (id_key oid) = Some row"
      "d' = d\<lparr>t_ordered_records := fmupd (id_key oid) (f row) (t_ordered_records d)\<rparr>"
    by (auto simp: mutation_step_def)
  have counter: "scope_counter d' = scope_counter d" by (simp add: row(2) scope_counter_def fun_eq_iff)
  have ids: "map_option o_order_id (fmlookup (t_ordered_records d') k) = map_option o_order_id (fmlookup (t_ordered_records d) k)" for k
    using row f by auto
  have look: "(\<exists>r. fmlookup (t_ordered_records d') k = Some r \<and> o_order_id r = i) \<longleftrightarrow>
      (\<exists>r. fmlookup (t_ordered_records d) k = Some r \<and> o_order_id r = i)" for k i
    using ids [of k] by (cases "fmlookup (t_ordered_records d') k"; cases "fmlookup (t_ordered_records d) k") auto
  have "sk = sk'" if "fmlookup (t_ordered_records d') (ns, sc, sk) = Some r"
      "fmlookup (t_ordered_records d') (ns, sc, sk') = Some r'" "o_order_id r = o_order_id r'" for ns sc sk sk' r r'
  proof -
    from that look [of "(ns, sc, sk)" "o_order_id r"] look [of "(ns, sc, sk')" "o_order_id r"]
    obtain x x' where "fmlookup (t_ordered_records d) (ns, sc, sk) = Some x" "o_order_id x = o_order_id r"
        "fmlookup (t_ordered_records d) (ns, sc, sk') = Some x'" "o_order_id x' = o_order_id r" by auto
    with inv show ?thesis unfolding ordered_inv_def by metis
  qed
  with inv show ?thesis unfolding ordered_inv_def counter look by blast
qed

interpretation orders: protocol ordered_step ordered_inv
  by unfold_locales
    (auto simp: ordered_step_def update_step_def delete_step_def updated_row_def deleted_row_def
      intro: create_keeps_orders mutation_keeps_orders)

section \<open>Histories\<close>

text \<open>
  A record never disappears; its ranking scope and order never change; its revision never
  decreases, every change raises it, and a deleted record stays as it is.  Counters only grow.
\<close>

definition ordered_forward :: "database \<Rightarrow> database \<Rightarrow> bool" where
  "ordered_forward d d' \<longleftrightarrow>
     (\<forall>k row. fmlookup (t_ordered_records d) k = Some row \<longrightarrow>
        (\<exists>row'. fmlookup (t_ordered_records d') k = Some row' \<and>
           o_ranking_scope row' = o_ranking_scope row \<and> o_order_id row' = o_order_id row \<and>
           (row' = row \<or> o_revision row < o_revision row' \<and> \<not> o_deleted row))) \<and>
     (\<forall>ns sc. scope_counter d ns sc \<le> scope_counter d' ns sc)"

lemma ordered_forward_trans:
  assumes "ordered_forward d d'" and "ordered_forward d' d''"
  shows "ordered_forward d d''"
proof -
  have "\<exists>row''. fmlookup (t_ordered_records d'') k = Some row'' \<and> o_ranking_scope row'' = o_ranking_scope row \<and>
      o_order_id row'' = o_order_id row \<and> (row'' = row \<or> o_revision row < o_revision row'' \<and> \<not> o_deleted row)"
    if row: "fmlookup (t_ordered_records d) k = Some row" for k row
  proof -
    from assms(1) row obtain row' where 1: "fmlookup (t_ordered_records d') k = Some row'"
        "o_ranking_scope row' = o_ranking_scope row" "o_order_id row' = o_order_id row"
        "row' = row \<or> o_revision row < o_revision row' \<and> \<not> o_deleted row"
      unfolding ordered_forward_def by blast
    from assms(2) 1(1) obtain row'' where "fmlookup (t_ordered_records d'') k = Some row''"
        "o_ranking_scope row'' = o_ranking_scope row'" "o_order_id row'' = o_order_id row'"
        "row'' = row' \<or> o_revision row' < o_revision row'' \<and> \<not> o_deleted row'"
      unfolding ordered_forward_def by blast
    with 1 show ?thesis by auto
  qed
  with assms show ?thesis unfolding ordered_forward_def by (meson order_trans)
qed

lemma create_forward: "create_step oid rs value rank due d d' \<Longrightarrow> ordered_forward d d'"
  by (auto simp: create_step_def ordered_forward_def order_counter_scope scope_counter_def Let_def)

lemma mutation_forward:
  "mutation_step oid expectedRevision f d d' \<Longrightarrow>
   (\<And>r. o_ranking_scope (f r) = o_ranking_scope r \<and> o_order_id (f r) = o_order_id r \<and> o_revision (f r) = o_revision r + 1) \<Longrightarrow>
   ordered_forward d d'"
  by (auto simp: mutation_step_def ordered_forward_def scope_counter_def)

interpretation ordered_history: history ordered_step ordered_forward
proof
  show "ordered_forward d d" for d by (simp add: ordered_forward_def)
  show "ordered_forward d d'" if "ordered_step d d'" for d d'
    using that
    by (auto simp: ordered_step_def update_step_def delete_step_def updated_row_def deleted_row_def
        intro: create_forward mutation_forward)
qed (rule ordered_forward_trans)

lemma ordered_guarantees:
  "guarantees ordered_step (ordered_Create api s c oid rs value rank due)"
  "guarantees ordered_step (ordered_Update api s c oid expectedRevision value rank due)"
  "guarantees ordered_step (ordered_Delete api s c oid expectedRevision)"
  by (rule guarantees_mono [OF create_guarantee] guarantees_mono [OF update_guarantee] guarantees_mono [OF delete_guarantee];
      auto simp: ordered_step_def)+

text \<open>
  C7. Acceptance orders are gap-free and unique: in every committed state \<open>Create\<close>, \<open>Update\<close> and
  \<open>Delete\<close> run through, the orders used in each scope are exactly 1 up to its counter, each by one
  record, if that held at the start and the other sessions keep it.
\<close>

theorem ordered_orders_gap_free:
  assumes "ordered_inv (db w)" and "keeps ordered_inv (script w)" and "txn w = None"
  shows "(\<forall>d \<in> set (states w (snd (run_state (ordered_Create api s c oid rankingScope value rank due) w))). ordered_inv d) \<and>
    (\<forall>d \<in> set (states w (snd (run_state (ordered_Update api s c oid expectedRevision value rank due) w))). ordered_inv d) \<and>
    (\<forall>d \<in> set (states w (snd (run_state (ordered_Delete api s c oid expectedRevision) w))). ordered_inv d)"
  by (intro conjI orders.invariant_everywhere [OF _ prod.collapse [symmetric] assms(3,1,2)] ordered_guarantees)

text \<open>
  C21. The index only moves forward: whatever \<open>Create\<close>, \<open>Update\<close> and \<open>Delete\<close> do, in every
  committed state each record of the first state is still there with the same ranking scope and
  acceptance order; it is unchanged, or it was not deleted and has a higher revision -- if the
  other sessions only move forward too.
\<close>

theorem ordered_only_forward:
  assumes "\<forall>ev \<in> set (script w). \<forall>d. ordered_forward d (ev_others ev d)" and "txn w = None"
  shows "(\<forall>d \<in> set (states w (snd (run_state (ordered_Create api s c oid rankingScope value rank due) w))). ordered_forward (db w) d) \<and>
    (\<forall>d \<in> set (states w (snd (run_state (ordered_Update api s c oid expectedRevision value rank due) w))). ordered_forward (db w) d) \<and>
    (\<forall>d \<in> set (states w (snd (run_state (ordered_Delete api s c oid expectedRevision) w))). ordered_forward (db w) d)"
  by (intro conjI ordered_history.ahead_everywhere [OF _ prod.collapse [symmetric] assms(2,1)] ordered_guarantees)

end
