(* ===== verification/OrderedReads.thy ===== *)
theory OrderedReads
  imports OrderedProperties
begin

text \<open>
  The reads of the ordered index: the round trip of a record through its row, \<open>Get\<close>, and
  \<open>ListOrdered\<close> with the law that reading page after page yields every record of the scope, once
  and in acceptance order.
\<close>

section \<open>The round trip of a record\<close>

text \<open>The row \<open>Create\<close> and \<open>Update\<close> write for a record.\<close>

definition stored_row :: "ordered_record \<Rightarrow> ordered_row" where
  "stored_row r =
     \<lparr>o_ranking_scope = rec_RankingScope r, o_revision = uint (rec_Revision r), o_order_id = uint (rec_Order r),
      o_value = fst (databaseValue (rec_Value r)), o_value_is_nil = snd (databaseValue (rec_Value r)),
      o_ranked = rank_Ranked (rec_Rank r), o_rank_value = rank_Value (rec_Rank r),
      o_due_state = due_State (rec_Due r), o_due_at = due_UnixMillis (rec_Due r), o_deleted = rec_Deleted r\<rparr>"

lemma stored_row_shows: "row_shows (stored_row r) r"
  using databaseValue_value [of "rec_Value r"] by (auto simp: row_shows_def stored_row_def split: if_splits)

lemma stored_row_created: "stored_row (new_record oid rs value rank due order) = created_row rs value rank due (uint order)"
  by (simp add: stored_row_def new_record_def created_row_def)

text \<open>
  C25. A record survives storage unchanged: what \<open>Create\<close> and \<open>Update\<close> write, \<open>scanRecord\<close> reads
  back as the same record -- a nil value stays nil and an empty one stays empty -- for every record
  within the range of its columns that the \<open>storage\<close> validator accepts; and whatever row
  \<open>scanRecord\<close> accepts stores exactly the record it returns.
\<close>

theorem ordered_record_roundtrip:
  assumes "record_fits r" and "ValidateOrderedRecord api r = None"
  shows "scanRecord api (record_row (id_key (rec_ID r)) (stored_row r)) = Inr r \<and>
    (\<forall>oid row r'. scanRecord api (record_row (id_key oid) row) = Inr r' \<longrightarrow> rec_ID r' = oid \<and> row_shows row r')"
  using scanRecord_complete [OF stored_row_shows assms] scanRecord_shows by blast

section \<open>Get\<close>

text \<open>
  \<open>Get\<close> returns only committed data: it changes nothing, a returned record stood under the
  identity in a committed state of the call, and the not-found error means that there was a
  committed state without it.  Every other error is the caller's own, the context's or the
  redacted one.
\<close>

theorem ordered_Get_reads_committed:
  assumes run: "run_state (ordered_Get api s c oid) w = (r, w')" and own: "own_errors api"
  shows "our_commits w w' = [] \<and>
    (case r of
       Inr record \<Rightarrow> rec_ID record = oid \<and> (\<exists>d \<in> set (states w w'). shown record d)
     | Inl e \<Rightarrow> e = DeadlineRequired ''OrderedIndex.Get'' \<or> ValidateOrderedID api oid = Some e \<or> (\<exists>x. e = CtxError x) \<or>
         e = Redacted ''ordered get'' \<or>
         (e = OrderedRecordNotFound oid \<and> (\<exists>d \<in> set (states w w'). fmlookup (t_ordered_records d) (id_key oid) = None)))"
  using run [unfolded ordered_Get_def]
proof (cases rule: after_Bound)
  case Refused
  then show ?thesis by (simp add: our_commits_def commits_def)
next
  case (Bounded ctx w0)
  show ?thesis
  proof (cases "ValidateOrderedID api oid")
    case (Some e)
    with Bounded show ?thesis by (auto simp: others_only_ours)
  next
    case None
    obtain g wg where g: "run_state (ordered_get api s ctx oid) w0 = (g, wg)" by (meson surj_pair)
    have oo: "others_only w wg" using Bounded(2) get_shows [OF g] by (blast intro: others_only_trans)
    let ?w2 = "wg\<lparr>script := tl (script wg)\<rparr>"
    have o2: "others_only w ?w2" using oo by (rule others_only_tick)
    have absent: "fmlookup (t_ordered_records (db wg)) (id_key oid) = None" if "g = Inl ErrNoRows"
      using g
    proof (cases rule: pool_get_cases)
      case (Found row)
      with that have "rejected api oid ErrNoRows (db wg)" by (auto simp: rejected_def)
      from rejected_own [OF this own] show ?thesis by simp
    qed (use that in auto)
    consider x where "g = Inr x" | "g = Inl ErrNoRows" | e where "g = Inl e" "e \<noteq> ErrNoRows"
      by (cases g) auto
    then show ?thesis
    proof cases
      case (1 x)
      with Bounded(4) None g have "r = Inr x" "w' = wg" by auto
      with 1 get_shows [OF g] oo final_state [of wg w] show ?thesis by (auto simp: others_only_ours)
    next
      case 2
      with Bounded(4) None g have "r = Inl (OrderedRecordNotFound oid)" "w' = wg" by auto
      with absent [OF 2] oo final_state [of wg w] show ?thesis by (auto simp: others_only_ours)
    next
      case (3 e)
      with Bounded(4) None g have "w' = ?w2" "r = Inl (case ev_ctx_err (next_event wg) of Some x \<Rightarrow> CtxError x | None \<Rightarrow> RedactedError ''ordered get'')"
        by auto
      with others_only_ours [OF o2] show ?thesis by (auto simp: RedactedError_def split: option.splits)
    qed
  qed
qed

section \<open>One page\<close>

text \<open>The records of a page are those of the listing's entries.\<close>

definition entry_of :: "ordered_record \<Rightarrow> int \<times> bytes" where
  "entry_of r = (uint (rec_Order r), StableKey (rec_ID r))"

definition in_scope :: "string \<Rightarrow> string \<Rightarrow> database \<Rightarrow> ordered_record \<Rightarrow> bool" where
  "in_scope ns sc d r \<longleftrightarrow> Namespace (rec_ID r) = ns \<and> OrderingScope (rec_ID r) = sc \<and> shown r d"

lemma entry_row:
  assumes "(n, sk) \<in> set (ordered_entries ns sc d)"
  obtains row where "fmlookup (t_ordered_records d) (ns, sc, sk) = Some row" "o_order_id row = n"
    "row_at d (ns, sc, sk) = [record_row (ns, sc, sk) row]"
  using assms by (auto simp: set_ordered_entries row_at_def)

lemma entries_scanned:
  assumes "set es \<subseteq> set (ordered_entries ns sc d)"
    and "scanRecords api (concat (map (\<lambda>(n, sk). row_at d (ns, sc, sk)) es)) = Inr rs"
  shows "map entry_of rs = es \<and> (\<forall>r \<in> set rs. in_scope ns sc d r)"
  using assms
proof (induction es arbitrary: rs)
  case (Cons e es)
  obtain n sk where e: "e = (n, sk)" by (cases e)
  from Cons.prems(1) e obtain row where row: "fmlookup (t_ordered_records d) (ns, sc, sk) = Some row" "o_order_id row = n"
      "row_at d (ns, sc, sk) = [record_row (ns, sc, sk) row]"
    by (auto elim: entry_row)
  let ?oid = "\<lparr>Namespace = ns, OrderingScope = sc, StableKey = sk\<rparr>"
  from Cons.prems(2) e row(3) obtain r rs' where rs: "rs = r # rs'" "scanRecord api (record_row (id_key ?oid) row) = Inr r"
      "scanRecords api (concat (map (\<lambda>(n, sk). row_at d (ns, sc, sk)) es)) = Inr rs'"
    by (auto simp: id_key_parts split: sum.splits)
  from scanRecord_shows [OF rs(2)] row have "entry_of r = e" "in_scope ns sc d r"
    by (auto simp: entry_of_def in_scope_def shown_def id_key_parts e row_shows_def)
  moreover from Cons.IH [OF _ rs(3)] Cons.prems(1) have "map entry_of rs' = es" "\<forall>r \<in> set rs'. in_scope ns sc d r" by auto
  ultimately show ?case using rs(1) by simp
qed simp

definition page_entries :: "string \<Rightarrow> string \<Rightarrow> u64 \<Rightarrow> int \<Rightarrow> database \<Rightarrow> (int \<times> bytes) list" where
  "page_entries ns sc afterOrder limit d = take (nat limit) (filter (\<lambda>e. uint afterOrder < fst e) (ordered_entries ns sc d))"

lemma Ordered_sem:
  "sql_sem (Ordered table ns sc afterOrder limit) now d =
     (if limit < 0 then Inl (PgError ''2201W'')
      else Inr (concat (map (\<lambda>(n, sk). row_at d (ns, sc, sk)) (page_entries ns sc afterOrder limit d))), [])"
  by (simp add: Ordered_def sql_limit_def page_entries_def)

lemma page_entries_subset: "set (page_entries ns sc afterOrder limit d) \<subseteq> set (ordered_entries ns sc d)"
  by (auto simp: page_entries_def dest: in_set_takeD)

text \<open>
  A page of \<open>ListOrdered\<close> is exact: it changes nothing, and for one committed state of the call
  the page holds precisely the records of the scope whose order exceeds the given one, the first
  \<open>limit\<close> of them in ascending order; its continuation is the order of its last record.
\<close>

theorem ordered_ListOrdered_page:
  assumes run: "run_state (ordered_ListOrdered api s c ns sc afterOrder limit) w = (Inr page, w')"
  shows "our_commits w w' = [] \<and> (\<exists>d \<in> set (states w w').
    map entry_of (page_Records page) = page_entries ns sc afterOrder limit d \<and>
    (\<forall>r \<in> set (page_Records page). in_scope ns sc d r)) \<and>
    page_NextAfterOrder page = (if page_Records page = [] then 0 else rec_Order (last (page_Records page)))"
  using run [unfolded ordered_ListOrdered_def]
proof (cases rule: after_Bound)
  case (Bounded ctx w0)
  have v: "ValidateName api ns = None" "ValidateName api sc = None" "ValidateOrderedLimit api limit = None"
    using Bounded(4) by (auto split: option.splits)
  obtain q wq where q: "run_state (pool_Query ctx (Ordered (recordsTable s) ns sc afterOrder limit)) w0 = (q, wq)" by (meson surj_pair)
  from Bounded(4) v q obtain records where rs: "and_then q (scanRecords api) = Inr records" "w' = wq"
      "page = \<lparr>page_Records = records, page_NextAfterOrder = (if records = [] then 0 else rec_Order (last records))\<rparr>"
    by (auto split: sum.splits)
  then obtain rows where rows: "q = Inr rows" "scanRecords api rows = Inr records" by (auto simp: and_then_Inr)
  have "others_only w0 wq \<and> rows = concat (map (\<lambda>(n, sk). row_at (db wq) (ns, sc, sk)) (page_entries ns sc afterOrder limit (db wq)))"
    using q rows(1) others_only_advance [of w0]
    by (auto simp: pool_Query_def pool_run_def Let_def Ordered_sem split: fault.splits if_splits)
  then have oo: "others_only w wq" and eq: "rows = concat (map (\<lambda>(n, sk). row_at (db wq) (ns, sc, sk)) (page_entries ns sc afterOrder limit (db wq)))"
    using Bounded(2) by (auto intro: others_only_trans)
  from entries_scanned [OF page_entries_subset rows(2) [unfolded eq]] rs final_state [of wq w] others_only_ours [OF oo]
  show ?thesis by auto
qed simp

section \<open>Page after page\<close>

text \<open>A reader that asks for page after page, from each page's continuation, until a page is empty.\<close>

fun read_all :: "nat \<Rightarrow> (u64 \<Rightarrow> ordered_page result) \<Rightarrow> u64 \<Rightarrow> ordered_record list result" where
  "read_all 0 fetch afterOrder = Inr []"
| "read_all (Suc n) fetch afterOrder = and_then (fetch afterOrder) (\<lambda>page.
     if page_Records page = [] then Inr []
     else and_then (read_all n fetch (page_NextAfterOrder page)) (\<lambda>rs. Inr (page_Records page @ rs)))"

text \<open>\<open>ListOrdered\<close> on a database nobody changes, with every call served.\<close>

definition list_page ::
  "storage_api \<Rightarrow> ordered_store \<Rightarrow> go_context option \<Rightarrow> string \<Rightarrow> string \<Rightarrow> int \<Rightarrow> database \<Rightarrow> u64 \<Rightarrow> ordered_page result" where
  "list_page api s c ns sc limit d afterOrder =
     fst (run_state (ordered_ListOrdered api s c ns sc afterOrder limit) (open_world d []))"

definition readable :: "storage_api \<Rightarrow> string \<Rightarrow> string \<Rightarrow> database \<Rightarrow> bool" where
  "readable api ns sc d \<longleftrightarrow> (\<forall>sk row. fmlookup (t_ordered_records d) (ns, sc, sk) = Some row \<longrightarrow>
     (\<exists>r. scanRecord api (record_row (ns, sc, sk) row) = Inr r))"

lemma readable_scanned:
  assumes "readable api ns sc d" and "set es \<subseteq> set (ordered_entries ns sc d)"
  shows "\<exists>rs. scanRecords api (concat (map (\<lambda>(n, sk). row_at d (ns, sc, sk)) es)) = Inr rs"
  using assms(2)
proof (induction es)
  case (Cons e es)
  obtain n sk where e: "e = (n, sk)" by (cases e)
  from Cons.prems e obtain row where row: "fmlookup (t_ordered_records d) (ns, sc, sk) = Some row"
      "row_at d (ns, sc, sk) = [record_row (ns, sc, sk) row]"
    by (auto elim: entry_row)
  from assms(1) row(1) obtain r where "scanRecord api (record_row (ns, sc, sk) row) = Inr r"
    unfolding readable_def by blast
  with Cons e row(2) show ?case by auto
qed simp

lemma ordered_keyset:
  assumes "ordered_inv d"
  shows "keyset (\<lambda>x y. fst x < fst y) (ordered_entries ns sc d)"
proof
  have "sorted_wrt (\<lambda>x y. x \<in> set (ordered_entries ns sc d) \<and> y \<in> set (ordered_entries ns sc d) \<and> x < y) (ordered_entries ns sc d)"
    using ordered_entries_sorted [of ns sc d] by (rule sorted_wrt_mono_rel [rotated]) auto
  then show "sorted_wrt (\<lambda>x y. fst x < fst y) (ordered_entries ns sc d)"
  proof (rule sorted_wrt_mono_rel [rotated])
    fix x y :: "int \<times> bytes"
    assume xy: "x \<in> set (ordered_entries ns sc d) \<and> y \<in> set (ordered_entries ns sc d) \<and> x < y"
    have "snd x = snd y" if "fst x = fst y"
    proof -
      from xy obtain rx ry where "fmlookup (t_ordered_records d) (ns, sc, snd x) = Some rx" "o_order_id rx = fst x"
          "fmlookup (t_ordered_records d) (ns, sc, snd y) = Some ry" "o_order_id ry = fst y"
        by (cases x; cases y) (auto simp: set_ordered_entries)
      with that assms show ?thesis unfolding ordered_inv_def by metis
    qed
    moreover have "fst x < fst y \<or> fst x = fst y \<and> snd x < snd y"
      using xy by (cases x; cases y) (auto simp: less_prod_simp)
    ultimately show "fst x < fst y" by auto
  qed
qed auto

lemma list_page_quiet:
  assumes v: "ValidateName api ns = None" "ValidateName api sc = None" "ValidateOrderedLimit api limit = None"
    and "0 < limit" and "readable api ns sc d"
  obtains rs where "list_page api s (Some ctx) ns sc limit d afterOrder =
      Inr \<lparr>page_Records = rs, page_NextAfterOrder = (if rs = [] then 0 else rec_Order (last rs))\<rparr>"
    "map entry_of rs = page_entries ns sc afterOrder limit d" "\<forall>r \<in> set rs. in_scope ns sc d r"
proof -
  let ?rows = "concat (map (\<lambda>(n, sk). row_at d (ns, sc, sk)) (page_entries ns sc afterOrder limit d))"
  from readable_scanned [OF assms(5) page_entries_subset] obtain rs where rs: "scanRecords api ?rows = Inr rs" by blast
  let ?w = "open_world d []"
  have "script ?w = []" by simp
  then obtain ctx' w0 where b: "run_state (Bound (Some ctx) ''OrderedIndex.ListOrdered'' (oi_operationTimeout s)) ?w = (Inr ctx', w0)"
      "script w0 = []" "db w0 = d"
    by (rule Bound_quiet) simp
  have q: "fst (run_state (pool_Query ctx' (Ordered (recordsTable s) ns sc afterOrder limit)) w0) = Inr ?rows"
    using b(2,3) assms(4) by (simp add: pool_Query_def pool_run_def Let_def Ordered_sem)
  have "list_page api s (Some ctx) ns sc limit d afterOrder =
      Inr \<lparr>page_Records = rs, page_NextAfterOrder = (if rs = [] then 0 else rec_Order (last rs))\<rparr>"
    using b(1) v q rs unfolding list_page_def ordered_ListOrdered_def
    by (cases "run_state (pool_Query ctx' (Ordered (recordsTable s) ns sc afterOrder limit)) w0") simp
  with entries_scanned [OF page_entries_subset rs] show thesis by (intro that [of rs]) auto
qed

lemma read_all_rest:
  assumes v: "ValidateName api ns = None" "ValidateName api sc = None" "ValidateOrderedLimit api limit = None"
    and "0 < limit" and "readable api ns sc d" and inv: "ordered_inv d"
    and "length (filter (\<lambda>e. uint afterOrder < fst e) (ordered_entries ns sc d)) < pages"
  shows "\<exists>rs. read_all pages (list_page api s (Some ctx) ns sc limit d) afterOrder = Inr rs \<and>
    map entry_of rs = filter (\<lambda>e. uint afterOrder < fst e) (ordered_entries ns sc d) \<and> (\<forall>r \<in> set rs. in_scope ns sc d r)"
  using assms(7)
proof (induction pages arbitrary: afterOrder)
  case (Suc pages)
  let ?rest = "\<lambda>n :: int. filter (\<lambda>e. n < fst e) (ordered_entries ns sc d)"
  have rest: "?rest n = rest_after (\<lambda>x y. fst x < fst y) (Some (n, z)) (ordered_entries ns sc d)" for n z
    by (simp add: rest_after_def)
  from v \<open>0 < limit\<close> assms(5) obtain rs where rs: "list_page api s (Some ctx) ns sc limit d afterOrder =
      Inr \<lparr>page_Records = rs, page_NextAfterOrder = (if rs = [] then 0 else rec_Order (last rs))\<rparr>"
      "map entry_of rs = take (nat limit) (?rest (uint afterOrder))" "\<forall>r \<in> set rs. in_scope ns sc d r"
    unfolding page_entries_def [symmetric] by (rule list_page_quiet)
  show ?case
  proof (cases "rs = []")
    case True
    with rs(2) \<open>0 < limit\<close> have "?rest (uint afterOrder) = []" by (cases "?rest (uint afterOrder)") auto
    with True rs(1) show ?thesis by simp
  next
    case False
    then have ne: "?rest (uint afterOrder) \<noteq> []" using rs(2) by auto
    have last: "last (take (nat limit) (?rest (uint afterOrder))) = entry_of (last rs)"
      using rs(2) False by (metis last_map)
    have "?rest (uint (rec_Order (last rs))) = drop (nat limit) (?rest (uint afterOrder))"
      using keyset.rest_after_page [OF ordered_keyset [OF inv, of ns sc], of "Some (uint afterOrder, [])" "nat limit"] ne \<open>0 < limit\<close>
      by (simp add: rest [symmetric] rest_after_def last entry_of_def)
    moreover from this have "length (?rest (uint (rec_Order (last rs)))) < pages"
      using Suc.prems \<open>0 < limit\<close> ne [unfolded length_greater_0_conv [symmetric]] by (simp only: length_drop)
    ultimately obtain rs' where "read_all pages (list_page api s (Some ctx) ns sc limit d) (rec_Order (last rs)) = Inr rs'"
        "map entry_of rs' = drop (nat limit) (?rest (uint afterOrder))" "\<forall>r \<in> set rs'. in_scope ns sc d r"
      using Suc.IH [of "rec_Order (last rs)"] by auto
    with False rs show ?thesis by auto
  qed
qed simp

text \<open>
  C23. Reading page after page is complete: on a database that satisfies the order invariant, a
  reader that follows \<open>ListOrdered\<close>'s continuations from 0 gets, for any positive limit, every
  record of the scope exactly once, in ascending acceptance order.
\<close>

theorem ordered_ListOrdered_complete:
  assumes "ValidateName api ns = None" and "ValidateName api sc = None" and "ValidateOrderedLimit api limit = None"
    and "0 < limit" and "readable api ns sc d" and "ordered_inv d"
  shows "\<exists>rs. read_all (Suc (length (ordered_entries ns sc d))) (list_page api s (Some ctx) ns sc limit d) 0 = Inr rs \<and>
    sorted_wrt (\<lambda>a b. rec_Order a < rec_Order b) rs \<and> (\<forall>r \<in> set rs. in_scope ns sc d r) \<and>
    (\<forall>sk row. fmlookup (t_ordered_records d) (ns, sc, sk) = Some row \<longrightarrow>
       (\<exists>r \<in> set rs. StableKey (rec_ID r) = sk \<and> row_shows row r))"
proof -
  have all: "filter (\<lambda>e. uint (0 :: u64) < fst e) (ordered_entries ns sc d) = ordered_entries ns sc d"
    using assms(6) by (auto simp: filter_id_conv set_ordered_entries ordered_inv_def) (metis int_one_le_iff_zero_less)
  from read_all_rest [OF assms, of 0 "Suc (length (ordered_entries ns sc d))" s ctx, unfolded all] obtain rs where rs:
      "read_all (Suc (length (ordered_entries ns sc d))) (list_page api s (Some ctx) ns sc limit d) 0 = Inr rs"
      "map entry_of rs = ordered_entries ns sc d" "\<forall>r \<in> set rs. in_scope ns sc d r"
    by blast
  have "sorted_wrt (\<lambda>x y. fst x < fst y) (map entry_of rs)"
    using keyset.in_order [OF ordered_keyset [OF assms(6)]] rs(2) by simp
  then have sorted: "sorted_wrt (\<lambda>a b. rec_Order a < rec_Order b) rs"
    by (simp add: sorted_wrt_map entry_of_def word_less_def)
  have "\<exists>r \<in> set rs. StableKey (rec_ID r) = sk \<and> row_shows row r"
    if row: "fmlookup (t_ordered_records d) (ns, sc, sk) = Some row" for sk row
  proof -
    have "(o_order_id row, sk) \<in> set (map entry_of rs)" using row by (simp add: rs(2) set_ordered_entries)
    then obtain r where r: "r \<in> set rs" "StableKey (rec_ID r) = sk" by (auto simp: entry_of_def)
    with rs(3) row have "row_shows row r" by (auto simp: in_scope_def shown_def id_key_parts)
    with r show ?thesis by blast
  qed
  with rs(1,3) sorted show ?thesis by blast
qed

end
