(* ===== verification/OrderedSpec.thy ===== *)
theory OrderedSpec
  imports OrderedReads
begin

text \<open>
  What the ordered index promises, as a specification on maps -- identities to records and scopes
  to counters -- and the refinement: with nothing interfering, \<open>Create\<close>, \<open>Update\<close> and
  \<open>Delete\<close> return what the specification returns and leave the database in the specified state,
  on every branch.
\<close>

section \<open>The specification\<close>

record index =
  ix_records :: "ordered_id \<Rightarrow> ordered_record option"
  ix_counter :: "string \<times> string \<Rightarrow> int"

definition scope_of :: "ordered_id \<Rightarrow> string \<times> string" where
  "scope_of oid = (Namespace oid, OrderingScope oid)"

definition spec_create ::
  "ordered_id \<Rightarrow> string \<Rightarrow> bytes option \<Rightarrow> rank \<Rightarrow> due \<Rightarrow> index \<Rightarrow> (ordered_record \<times> bool) result \<times> index" where
  "spec_create oid rankingScope value rank due ix =
     (case ix_records ix oid of
        Some r \<Rightarrow> (Inr (r, False), ix)
      | None \<Rightarrow>
          (let n = ix_counter ix (scope_of oid) + 1 in
           if max_uint64 < n then (Inl OrderExhausted, ix)
           else
            (let r = new_record oid rankingScope value rank due (word_of_int n) in
             (Inr (r, True), ix\<lparr>ix_records := (ix_records ix)(oid \<mapsto> r), ix_counter := (ix_counter ix)(scope_of oid := n)\<rparr>))))"

definition spec_mutate ::
  "ordered_id \<Rightarrow> u64 \<Rightarrow> (ordered_record \<Rightarrow> ordered_record) \<Rightarrow> ordered_record \<Rightarrow> index \<Rightarrow> ordered_record result \<times> index" where
  "spec_mutate oid expectedRevision f r ix =
     (if rec_Revision r \<noteq> expectedRevision then (Inl (OrderedRevisionConflict oid expectedRevision (rec_Revision r)), ix)
      else if uint expectedRevision = max_uint64 then (Inl (OrderedRevisionExhausted oid expectedRevision), ix)
      else (let r' = f (r\<lparr>rec_Revision := expectedRevision + 1\<rparr>) in
        (Inr r', ix\<lparr>ix_records := (ix_records ix)(oid \<mapsto> r')\<rparr>)))"

definition spec_update ::
  "ordered_id \<Rightarrow> u64 \<Rightarrow> bytes option \<Rightarrow> rank \<Rightarrow> due \<Rightarrow> index \<Rightarrow> ordered_record result \<times> index" where
  "spec_update oid expectedRevision value rank due ix =
     (case ix_records ix oid of
        None \<Rightarrow> (Inl (OrderedRecordNotFound oid), ix)
      | Some r \<Rightarrow>
          if rec_Deleted r then (Inl (OrderedDeleted oid), ix)
          else spec_mutate oid expectedRevision (\<lambda>r. r\<lparr>rec_Value := value, rec_Rank := rank, rec_Due := due\<rparr>) r ix)"

definition spec_delete :: "ordered_id \<Rightarrow> u64 \<Rightarrow> index \<Rightarrow> ordered_record result \<times> index" where
  "spec_delete oid expectedRevision ix =
     (case ix_records ix oid of
        None \<Rightarrow> (Inl (OrderedRecordNotFound oid), ix)
      | Some r \<Rightarrow>
          if rec_Deleted r then (Inr r, ix)
          else spec_mutate oid expectedRevision (\<lambda>r. r\<lparr>rec_Deleted := True,
            rec_Rank := \<lparr>rank_Ranked = False, rank_Value = 0\<rparr>, rec_Due := \<lparr>due_State = 0, due_UnixMillis = 0\<rparr>\<rparr>) r ix)"

section \<open>The abstraction\<close>

definition record_of :: "ordered_id \<Rightarrow> ordered_row \<Rightarrow> ordered_record" where
  "record_of oid row =
     \<lparr>rec_ID = oid, rec_RankingScope = o_ranking_scope row, rec_Revision = word_of_int (o_revision row),
      rec_Order = word_of_int (o_order_id row), rec_Value = (if o_value_is_nil row then None else Some (o_value row)),
      rec_Rank = \<lparr>rank_Ranked = o_ranked row, rank_Value = o_rank_value row\<rparr>,
      rec_Due = \<lparr>due_State = o_due_state row, due_UnixMillis = o_due_at row\<rparr>, rec_Deleted = o_deleted row\<rparr>"

definition index_of :: "database \<Rightarrow> index" where
  "index_of d = \<lparr>ix_records = (\<lambda>oid. map_option (record_of oid) (fmlookup (t_ordered_records d) (id_key oid))),
     ix_counter = (\<lambda>(ns, sc). scope_counter d ns sc)\<rparr>"

text \<open>Every row satisfies its constraints and is accepted by \<open>scanRecord\<close>; counters are in range.\<close>

definition well_stored :: "storage_api \<Rightarrow> database \<Rightarrow> bool" where
  "well_stored api d \<longleftrightarrow>
     (\<forall>oid row. fmlookup (t_ordered_records d) (id_key oid) = Some row \<longrightarrow>
        ordered_row_ok row \<and> (\<exists>r. scanRecord api (record_row (id_key oid) row) = Inr r)) \<and>
     (\<forall>ns sc. 0 \<le> scope_counter d ns sc \<and> scope_counter d ns sc \<le> max_uint64)"

text \<open>The \<open>storage\<close> limits on values and due times are those of the schema's CHECK constraints.\<close>

definition schema_limits :: "storage_api \<Rightarrow> bool" where
  "schema_limits api \<longleftrightarrow>
     (\<forall>v. ValidateOrderedValue api v = None \<longrightarrow> length (fst (databaseValue v)) \<le> 1048576) \<and>
     (\<forall>x. ValidateDue api x = None \<longrightarrow> due_State x = 0 \<and> due_UnixMillis x = 0 \<or> due_State x = 1)"

lemma row_shows_record_of: "row_shows row r \<Longrightarrow> rec_ID r = oid \<Longrightarrow> r = record_of oid row"
  by (cases r) (auto simp: row_shows_def record_of_def)

lemma well_stored_scan:
  assumes "well_stored api d" and "fmlookup (t_ordered_records d) (id_key oid) = Some row"
  shows "scanRecord api (record_row (id_key oid) row) = Inr (record_of oid row)" and "ordered_row_ok row"
    and "uint (rec_Revision (record_of oid row)) = o_revision row"
proof -
  from assms obtain r where ok: "ordered_row_ok row" and r: "scanRecord api (record_row (id_key oid) row) = Inr r"
    unfolding well_stored_def by blast
  from scanRecord_shows [OF r] have eq: "r = record_of oid row" and "row_shows row r"
    by (auto intro: row_shows_record_of)
  with r ok show "scanRecord api (record_row (id_key oid) row) = Inr (record_of oid row)" "ordered_row_ok row"
    "uint (rec_Revision (record_of oid row)) = o_revision row"
    by (auto simp: row_shows_def)
qed

lemma index_of_records [simp]: "ix_records (index_of d) oid = map_option (record_of oid) (fmlookup (t_ordered_records d) (id_key oid))"
  and index_of_counter: "ix_counter (index_of d) (scope_of oid) = order_counter d oid"
  by (simp_all add: index_of_def scope_of_def order_counter_scope)

lemma index_of_mutated:
  "index_of (d\<lparr>t_ordered_records := fmupd (id_key oid) row (t_ordered_records d)\<rparr>) =
   (index_of d)\<lparr>ix_records := (ix_records (index_of d))(oid \<mapsto> record_of oid row)\<rparr>"
  by (auto simp: index_of_def scope_counter_def fun_eq_iff)

section \<open>Quiet runs\<close>

definition settles :: "('z world_scheme, 'a) state \<Rightarrow> 'z world_scheme \<Rightarrow> 'a \<Rightarrow> database \<Rightarrow> bool" where
  "settles m w a d \<longleftrightarrow> (\<exists>w'. run_state m w = (a, w') \<and> script w' = [] \<and> db w' = d)"

lemma calm_settles: "calm ws d w \<Longrightarrow> settles (State_Monad.return a) w a d"
  by (auto simp: settles_def calm_def)

lemma transaction_quiet:
  assumes "script w = []" and "\<And>w1. calm [] (db w) w1 \<Longrightarrow> settles body w1 a d"
  shows "settles (ordered_transaction s ctx body) w a d"
proof -
  from assms(1) obtain wb where b: "run_state (BeginTx ctx ReadCommitted) w = (Inr (), wb)" "calm [] (db w) wb" by (rule calm_begin)
  from b(2) obtain wt where t: "run_state (SetLocalTimeouts ctx (oi_statementTimeout s) (oi_lockTimeout s)) wb = (Inr (), wt)"
      "calm [] (db w) wt" by (rule calm_timeouts)
  from assms(2) [OF t(2)] obtain w' where "run_state body wt = (a, w')" "script w' = []" "db w' = d"
    by (auto simp: settles_def)
  with b(1) t(1) show ?thesis by (auto simp: settles_def ordered_transaction_def)
qed

lemma retry_quiet:
  assumes "settles once w a d" and "a = Finished x \<and> r = Inr x \<or> a = Failed e \<and> isContractError e \<and> r = Inl e"
  shows "settles (ordered_retry ctx operation once resolve 0) w r d"
  using assms by (subst ordered_retry.simps) (auto simp: settles_def)

lemma calm_get:
  assumes "calm ws d w" and "scope_writes ws"
  obtains w' where "run_state (ordered_getFrom api s (tx_QueryRow ctx) oid suffix) w =
      (case fmlookup (t_ordered_records d) (id_key oid) of None \<Rightarrow> Inl ErrNoRows
       | Some row \<Rightarrow> scanRecord api (record_row (id_key oid) row), w')" "calm ws d w'"
proof -
  from assms(1) select_record_sem obtain w' where "run_state (tx_QueryRow ctx (select_record_stmt s oid suffix)) w =
      (first_row (Inr (row_at (apply_writes ws d) (id_key oid))), w')" "calm (ws @ []) d w'"
    by (rule calm_QueryRow)
  then show thesis
    using scope_writes_records [OF assms(2)]
    by (intro that [of w']) (auto simp: ordered_getFrom_def row_at_def split: option.split)
qed

lemma calm_commit:
  assumes "calm ws d w"
  shows "settles (ordered_commit ctx operation want x) w (Finished x) (apply_writes ws d)"
proof -
  from assms obtain w' where "run_state (tx_Commit ctx) w = (Inr (), w')" "script w' = []" "db w' = apply_writes ws d" by (rule calm_Commit)
  then show ?thesis by (auto simp: settles_def ordered_commit_def)
qed

lemma calm_exec_then:
  assumes "calm ws d w" and "sql_sem st 0 (apply_writes ws d) = (Inr rows, ws')"
    and "\<And>w1. calm (ws @ ws') d w1 \<Longrightarrow> settles rest w1 a d'"
  shows "settles (do { u \<leftarrow> tx_Exec ctx st; case u of Inl e \<Rightarrow> State_Monad.return (Failed e) | Inr _ \<Rightarrow> rest }) w a d'"
proof -
  from assms(1,2) obtain w1 where "run_state (tx_Exec ctx st) w = (Inr (), w1)" "calm (ws @ ws') d w1" by (rule calm_Exec)
  with assms(3) [of w1] show ?thesis by (auto simp: settles_def)
qed

section \<open>Update and Delete refine the specification\<close>

lemma mutated_ok:
  assumes "ordered_row_ok row" and "o_revision row < max_uint64"
  shows "ordered_row_ok (deleted_row row)"
    and "schema_limits api \<Longrightarrow> ValidateOrderedValue api value = None \<Longrightarrow> ValidateDue api due = None \<Longrightarrow> \<not> o_deleted row \<Longrightarrow>
      ordered_row_ok (updated_row value rank due row)"
  using assms by (auto simp: ordered_row_ok_def deleted_row_def updated_row_def schema_limits_def)

text \<open>The write and the commit of a mutation.\<close>

lemma mutate_quiet:
  assumes "calm [] d w" and "fmlookup (t_ordered_records d) (id_key oid) = Some row" and "ordered_row_ok (f row)"
    and "\<And>now d. sql_sem st now d = update_row_sem oid f d"
  shows "settles (do { u \<leftarrow> tx_Exec ctx st; case u of Inl e \<Rightarrow> State_Monad.return (Failed e) | Inr _ \<Rightarrow>
      ordered_commit ctx operation want want }) w (Finished want)
      (d\<lparr>t_ordered_records := fmupd (id_key oid) (f row) (t_ordered_records d)\<rparr>)"
proof -
  have "sql_sem st 0 (apply_writes [] d) =
      (Inr [], [WOrderRecord (Namespace oid) (OrderingScope oid) (stableKeyBytes (StableKey oid)) (Some (f row))])"
    using assms(2-4) by (simp add: update_row_sem_def)
  moreover have "d\<lparr>t_ordered_records := fmupd (id_key oid) (f row) (t_ordered_records d)\<rparr> = apply_writes ([] @
      [WOrderRecord (Namespace oid) (OrderingScope oid) (stableKeyBytes (StableKey oid)) (Some (f row))]) d"
    by (simp add: id_key_def)
  ultimately show ?thesis
    using calm_exec_then [OF assms(1) _ calm_commit] by metis
qed

lemma record_of_updated:
  assumes "uint (rec_Revision (record_of oid row)) = o_revision row"
  shows "record_of oid (updated_row value rank due row) = (record_of oid row)\<lparr>rec_Revision := rec_Revision (record_of oid row) + 1,
      rec_Value := value, rec_Rank := rank, rec_Due := due\<rparr>"
  using databaseValue_value [of "value"] by (auto simp: record_of_def updated_row_def)

lemma record_of_deleted:
  "record_of oid (deleted_row row) = (record_of oid row)\<lparr>rec_Revision := rec_Revision (record_of oid row) + 1,
      rec_Deleted := True, rec_Rank := \<lparr>rank_Ranked = False, rank_Value = 0\<rparr>, rec_Due := \<lparr>due_State = 0, due_UnixMillis = 0\<rparr>\<rparr>"
  by (simp add: record_of_def deleted_row_def)

text \<open>The shape of both operations on a quiet world.\<close>

lemma locked_body_quiet:
  assumes "calm [] d w" and "well_stored api d"
    and "fmlookup (t_ordered_records d) (id_key oid) = None \<Longrightarrow> a = Failed (OrderedRecordNotFound oid) \<and> d' = d"
    and "\<And>row w1. fmlookup (t_ordered_records d) (id_key oid) = Some row \<Longrightarrow> calm [] d w1 \<Longrightarrow>
      settles (rest (record_of oid row)) w1 a d'"
  shows "settles (ordered_lockedBody api s ctx oid rest) w a d'"
proof -
  have "scope_writes []" by (simp add: scope_writes_def)
  with assms(1) obtain wg where g: "run_state (ordered_getFrom api s (tx_QueryRow ctx) oid '' FOR UPDATE'') w =
      (case fmlookup (t_ordered_records d) (id_key oid) of None \<Rightarrow> Inl ErrNoRows
       | Some row \<Rightarrow> scanRecord api (record_row (id_key oid) row), wg)" "calm [] d wg"
    by (rule calm_get)
  show ?thesis
  proof (cases "fmlookup (t_ordered_records d) (id_key oid)")
    case None
    with g assms(3) show ?thesis
      by (auto simp: settles_def ordered_lockedBody_def ordered_getForUpdate_def calm_def)
  next
    case (Some row)
    with g well_stored_scan(1) [OF assms(2) Some] assms(4) [OF Some g(2)] show ?thesis
      by (auto simp: settles_def ordered_lockedBody_def ordered_getForUpdate_def)
  qed
qed

fun attempt_of :: "'a result \<Rightarrow> 'a attempt" where
  "attempt_of (Inr x) = Finished x"
| "attempt_of (Inl e) = Failed e"

lemma update_locked_quiet:
  assumes ws: "well_stored api d" and row: "fmlookup (t_ordered_records d) (id_key oid) = Some row"
    and lim: "schema_limits api" and v: "ValidateOrderedValue api value = None" "ValidateDue api due = None"
  shows "\<exists>d'. (\<forall>w. calm [] d w \<longrightarrow>
      settles (ordered_updateLocked api s ctx oid expectedRevision value rank due (record_of oid row)) w
        (attempt_of (fst (spec_update oid expectedRevision value rank due (index_of d)))) d') \<and>
    index_of d' = snd (spec_update oid expectedRevision value rank due (index_of d))"
proof -
  let ?r = "record_of oid row"
  note scan = well_stored_scan [OF ws row]
  have del: "rec_Deleted ?r = o_deleted row" by (simp add: record_of_def)
  consider "o_deleted row" | "\<not> o_deleted row" "rec_Revision ?r \<noteq> expectedRevision"
    | "\<not> o_deleted row" "rec_Revision ?r = expectedRevision" "uint expectedRevision = max_uint64"
    | "\<not> o_deleted row" "rec_Revision ?r = expectedRevision" "uint expectedRevision \<noteq> max_uint64" by blast
  then show ?thesis
  proof cases
    case 4
    have lt: "o_revision row < max_uint64" using uint_not_max [OF 4(3)] 4(2) scan(3) by simp
    have ok: "ordered_row_ok (updated_row value rank due row)"
      using mutated_ok(2) [OF scan(2) lt lim v 4(1)] .
    have new: "record_of oid (updated_row value rank due row) = ?r\<lparr>rec_Revision := expectedRevision + 1, rec_Value := value, rec_Rank := rank, rec_Due := due\<rparr>"
      using record_of_updated [OF scan(3)] 4(2) by simp
    let ?d' = "d\<lparr>t_ordered_records := fmupd (id_key oid) (updated_row value rank due row) (t_ordered_records d)\<rparr>"
    let ?next = "?r\<lparr>rec_Revision := expectedRevision + 1, rec_Value := value, rec_Rank := rank, rec_Due := due\<rparr>"
    have sem: "sql_sem (update_ordered_stmt s oid (fst (databaseValue value)) (snd (databaseValue value)) rank due) now e =
        update_row_sem oid (updated_row value rank due) e" for now e
      by (simp add: update_ordered_stmt_def updated_row_def [abs_def])
    have "settles (ordered_updateLocked api s ctx oid expectedRevision value rank due ?r) w (Finished ?next) ?d'"
      if "calm [] d w" for w :: "'a world_scheme"
      using mutate_quiet [OF that row ok sem, of ctx "''ordered update commit''" ?next] 4 v del
      by (simp add: ordered_updateLocked_def case_prod_beta Let_def)
    then show ?thesis
      using 4 del row new by (auto simp: spec_update_def spec_mutate_def index_of_mutated Let_def intro!: exI [of _ ?d'])
  qed (use row del v in \<open>auto simp: ordered_updateLocked_def spec_update_def spec_mutate_def intro!: exI [of _ d] calm_settles\<close>)
qed

lemma delete_locked_quiet:
  assumes ws: "well_stored api d" and row: "fmlookup (t_ordered_records d) (id_key oid) = Some row"
    and nd: "NotDue api = 0"
  shows "\<exists>d'. (\<forall>w. calm [] d w \<longrightarrow>
      settles (ordered_deleteLocked api s ctx oid expectedRevision (record_of oid row)) w
        (attempt_of (fst (spec_delete oid expectedRevision (index_of d)))) d') \<and>
    index_of d' = snd (spec_delete oid expectedRevision (index_of d))"
proof -
  let ?r = "record_of oid row"
  note scan = well_stored_scan [OF ws row]
  have del: "rec_Deleted ?r = o_deleted row" by (simp add: record_of_def)
  consider "o_deleted row" | "\<not> o_deleted row" "rec_Revision ?r \<noteq> expectedRevision"
    | "\<not> o_deleted row" "rec_Revision ?r = expectedRevision" "uint expectedRevision = max_uint64"
    | "\<not> o_deleted row" "rec_Revision ?r = expectedRevision" "uint expectedRevision \<noteq> max_uint64" by blast
  then show ?thesis
  proof cases
    case 4
    have lt: "o_revision row < max_uint64" using uint_not_max [OF 4(3)] 4(2) scan(3) by simp
    let ?d' = "d\<lparr>t_ordered_records := fmupd (id_key oid) (deleted_row row) (t_ordered_records d)\<rparr>"
    let ?next = "?r\<lparr>rec_Revision := expectedRevision + 1, rec_Deleted := True,
       rec_Rank := \<lparr>rank_Ranked = False, rank_Value = 0\<rparr>, rec_Due := \<lparr>due_State = 0, due_UnixMillis = 0\<rparr>\<rparr>"
    have new: "record_of oid (deleted_row row) = ?next" using record_of_deleted [of oid row] 4(2) by simp
    have sem: "sql_sem (delete_ordered_stmt s oid) now e = update_row_sem oid deleted_row e" for now e
      by (simp add: delete_ordered_stmt_def deleted_row_def [abs_def])
    have "settles (ordered_deleteLocked api s ctx oid expectedRevision ?r) w (Finished ?next) ?d'"
      if "calm [] d w" for w :: "'a world_scheme"
      using mutate_quiet [OF that row mutated_ok(1) [OF scan(2) lt] sem, of ctx "''ordered delete commit''" ?next] 4 del nd
      by (simp add: ordered_deleteLocked_def Let_def)
    then show ?thesis
      using 4 del row new by (auto simp: spec_delete_def spec_mutate_def index_of_mutated Let_def intro!: exI [of _ ?d'])
  qed (use row del in \<open>auto simp: ordered_deleteLocked_def spec_delete_def spec_mutate_def intro!: exI [of _ d] calm_settles\<close>)
qed

lemma mutation_quiet:
  assumes w: "script w = []" "well_stored api (db w)"
    and none: "fmlookup (t_ordered_records (db w)) (id_key oid) = None \<Longrightarrow> spec = (Inl (OrderedRecordNotFound oid), index_of (db w))"
    and some: "\<And>row. fmlookup (t_ordered_records (db w)) (id_key oid) = Some row \<Longrightarrow>
      \<exists>d'. (\<forall>w1. calm [] (db w) w1 \<longrightarrow> settles (rest (record_of oid row)) w1 (attempt_of (fst spec)) d') \<and> index_of d' = snd spec"
    and contract: "\<And>e. fst spec = Inl e \<Longrightarrow> isContractError e"
  shows "\<exists>d'. settles (ordered_retry ctx operation (ordered_transaction s ctx (ordered_lockedBody api s ctx oid rest)) resolve 0) w (fst spec) d' \<and>
    index_of d' = snd spec"
proof -
  have "\<exists>d'. settles (ordered_transaction s ctx (ordered_lockedBody api s ctx oid rest)) w (attempt_of (fst spec)) d' \<and> index_of d' = snd spec"
  proof (cases "fmlookup (t_ordered_records (db w)) (id_key oid)")
    case None
    with none show ?thesis
      by (intro exI [of _ "db w"] conjI transaction_quiet w(1) locked_body_quiet [OF _ w(2)]) auto
  next
    case (Some row)
    from some [OF this] obtain d' where d': "\<And>w1. calm [] (db w) w1 \<Longrightarrow> settles (rest (record_of oid row)) w1 (attempt_of (fst spec)) d'"
        "index_of d' = snd spec" by blast
    with Some show ?thesis
      by (intro exI [of _ d'] conjI transaction_quiet w(1) locked_body_quiet [OF _ w(2)]) auto
  qed
  then obtain d' where "settles (ordered_transaction s ctx (ordered_lockedBody api s ctx oid rest)) w (attempt_of (fst spec)) d'"
      "index_of d' = snd spec" by blast
  then show ?thesis
    using contract by (intro exI [of _ d'] conjI) (cases "fst spec"; auto intro!: retry_quiet)+
qed

lemma spec_contract:
  "fst (spec_update oid expectedRevision value rank due ix) = Inl e \<Longrightarrow> isContractError e"
  "fst (spec_delete oid expectedRevision ix) = Inl e \<Longrightarrow> isContractError e"
  "fst (spec_create oid rs value rank due ix) = Inl e \<Longrightarrow> isContractError e"
  by (auto simp: spec_update_def spec_delete_def spec_mutate_def spec_create_def Let_def split: option.splits if_splits)

text \<open>An operation that first bounds its context and validates the identity.\<close>

lemma operation_quiet:
  assumes "script w = []" and "ValidateOrderedID api oid = None"
    and "\<And>ctx w0. script w0 = [] \<Longrightarrow> db w0 = db w \<Longrightarrow> \<exists>d'. settles (f ctx) w0 r d' \<and> Q d'"
  shows "\<exists>d'. settles (do {
       b \<leftarrow> Bound (Some c) operation t;
       case b of Inl e \<Rightarrow> State_Monad.return (Inl e) | Inr ctx \<Rightarrow>
       (case ValidateOrderedID api oid of Some e \<Rightarrow> State_Monad.return (Inl e) | None \<Rightarrow> f ctx) }) w r d' \<and> Q d'"
proof -
  from assms(1) obtain ctx w0 where b: "run_state (Bound (Some c) operation t) w = (Inr ctx, w0)" "script w0 = []" "db w0 = db w"
    by (rule Bound_quiet)
  from assms(3) [OF b(2,3)] b(1) assms(2) show ?thesis by (auto simp: settles_def)
qed

lemma update_quiet:
  assumes "script w = []" and "well_stored api (db w)" and "schema_limits api"
    and v: "ValidateOrderedID api oid = None" "ValidateOrderedValue api value = None" "ValidateDue api due = None"
  shows "\<exists>d'. settles (ordered_Update api s (Some c) oid expectedRevision value rank due) w
      (fst (spec_update oid expectedRevision value rank due (index_of (db w)))) d' \<and>
    index_of d' = snd (spec_update oid expectedRevision value rank due (index_of (db w)))"
  unfolding ordered_Update_def ordered_updateOnce_def
proof (rule operation_quiet [OF assms(1) v(1)])
  fix ctx and w0 :: "'a world_scheme"
  assume w0: "script w0 = []" "db w0 = db w"
  show "\<exists>d'. settles (ordered_retry ctx ''ordered update'' (ordered_transaction s ctx (ordered_lockedBody api s ctx oid
        (ordered_updateLocked api s ctx oid expectedRevision value rank due))) (resolveMutation api s OrderedUpdateOperation oid) 0) w0
      (fst (spec_update oid expectedRevision value rank due (index_of (db w)))) d' \<and>
    index_of d' = snd (spec_update oid expectedRevision value rank due (index_of (db w)))"
  proof (rule mutation_quiet)
    show "spec_update oid expectedRevision value rank due (index_of (db w)) = (Inl (OrderedRecordNotFound oid), index_of (db w0))"
      if "fmlookup (t_ordered_records (db w0)) (id_key oid) = None" using that w0 by (simp add: spec_update_def)
    show "isContractError e" if "fst (spec_update oid expectedRevision value rank due (index_of (db w))) = Inl e" for e
      using that by (rule spec_contract)
  qed (use w0 assms(2) update_locked_quiet [OF assms(2) _ assms(3) v(2,3)] in simp_all)
qed

lemma delete_quiet:
  assumes "script w = []" and "well_stored api (db w)" and "NotDue api = 0" and v: "ValidateOrderedID api oid = None"
  shows "\<exists>d'. settles (ordered_Delete api s (Some c) oid expectedRevision) w
      (fst (spec_delete oid expectedRevision (index_of (db w)))) d' \<and>
    index_of d' = snd (spec_delete oid expectedRevision (index_of (db w)))"
  unfolding ordered_Delete_def ordered_deleteOnce_def
proof (rule operation_quiet [OF assms(1) v])
  fix ctx and w0 :: "'a world_scheme"
  assume w0: "script w0 = []" "db w0 = db w"
  show "\<exists>d'. settles (ordered_retry ctx ''ordered delete'' (ordered_transaction s ctx (ordered_lockedBody api s ctx oid
        (ordered_deleteLocked api s ctx oid expectedRevision))) (resolveMutation api s OrderedDeleteOperation oid) 0) w0
      (fst (spec_delete oid expectedRevision (index_of (db w)))) d' \<and>
    index_of d' = snd (spec_delete oid expectedRevision (index_of (db w)))"
  proof (rule mutation_quiet)
    show "spec_delete oid expectedRevision (index_of (db w)) = (Inl (OrderedRecordNotFound oid), index_of (db w0))"
      if "fmlookup (t_ordered_records (db w0)) (id_key oid) = None" using that w0 by (simp add: spec_delete_def)
    show "isContractError e" if "fst (spec_delete oid expectedRevision (index_of (db w))) = Inl e" for e
      using that by (rule spec_contract)
  qed (use w0 assms(2) delete_locked_quiet [OF assms(2) _ assms(3)] in simp_all)
qed

section \<open>Create refines the specification\<close>

definition ensured :: "database \<Rightarrow> ordered_id \<Rightarrow> row_write list" where
  "ensured d oid = (if scope_of oid |\<in>| fmdom (t_ordered_scopes d) then [] else [WOrderScope (Namespace oid) (OrderingScope oid) (Some 0)])"

lemma ensured_lookup:
  "fmlookup (t_ordered_scopes (apply_writes (ensured d oid) d)) (scope_of oid) = Some (order_counter d oid)"
proof (cases "fmlookup (t_ordered_scopes d) (scope_of oid)")
  case None
  then have "scope_of oid |\<notin>| fmdom (t_ordered_scopes d)" by (rule fmdom_notI)
  with None show ?thesis by (simp add: ensured_def order_counter_def scope_of_def)
next
  case (Some n)
  then have "scope_of oid |\<in>| fmdom (t_ordered_scopes d)" by (rule fmdomI)
  with Some show ?thesis by (simp add: ensured_def order_counter_def scope_of_def)
qed

lemma ensured_scope_writes: "scope_writes (ensured d oid)"
  by (simp add: ensured_def scope_writes_def)

definition created_db :: "ordered_id \<Rightarrow> string \<Rightarrow> bytes option \<Rightarrow> rank \<Rightarrow> due \<Rightarrow> database \<Rightarrow> database" where
  "created_db oid rs value rank due d = (let n = order_counter d oid + 1 in
     d\<lparr>t_ordered_scopes := fmupd (scope_of oid) n (t_ordered_scopes d),
       t_ordered_records := fmupd (id_key oid) (created_row rs value rank due n) (t_ordered_records d)\<rparr>)"

lemma calm_query_then:
  assumes "calm ws d w" and "sql_sem st 0 (apply_writes ws d) = (Inr rows, ws')"
    and "\<And>w1. calm (ws @ ws') d w1 \<Longrightarrow> settles (k (first_row (Inr rows))) w1 a d'"
  shows "settles (do { u \<leftarrow> tx_QueryRow ctx st; k u }) w a d'"
proof -
  from assms(1,2) obtain w1 where "run_state (tx_QueryRow ctx st) w = (first_row (Inr rows), w1)" "calm (ws @ ws') d w1" by (rule calm_QueryRow)
  with assms(3) [of w1] show ?thesis by (auto simp: settles_def)
qed

lemma calm_get_absent:
  assumes "calm ws d w" and "scope_writes ws" and "fmlookup (t_ordered_records d) (id_key oid) = None"
    and "\<And>w1. calm ws d w1 \<Longrightarrow> settles rest w1 a d'"
  shows "settles (do { g \<leftarrow> ordered_getFrom api s (tx_QueryRow ctx) oid [];
        case g of Inr existing \<Rightarrow> State_Monad.return (Finished (existing, False))
        | Inl e \<Rightarrow> if e \<noteq> ErrNoRows then State_Monad.return (Failed e) else rest }) w a d'"
proof -
  from assms(1,2) obtain w' where "run_state (ordered_getFrom api s (tx_QueryRow ctx) oid []) w =
      (case fmlookup (t_ordered_records d) (id_key oid) of None \<Rightarrow> Inl ErrNoRows
       | Some row \<Rightarrow> scanRecord api (record_row (id_key oid) row), w')" "calm ws d w'"
    by (rule calm_get)
  with assms(3) assms(4) [of w'] show ?thesis by (auto simp: settles_def)
qed

lemma create_insert_quiet:
  assumes "calm (ensured d oid @ [WOrderScope (Namespace oid) (OrderingScope oid) (Some n)]) d w"
    and n: "n = order_counter d oid + 1" "n = uint order" and "order \<noteq> 0"
    and absent: "fmlookup (t_ordered_records d) (id_key oid) = None" and ok: "ordered_row_ok (created_row rs value rank due n)"
  shows "settles (ordered_createInsert s ctx oid rs value rank due (FormatInt n)) w
    (Finished (new_record oid rs value rank due order, True)) (created_db oid rs value rank due d)"
proof -
  let ?ws = "ensured d oid @ [WOrderScope (Namespace oid) (OrderingScope oid) (Some n)]"
  have parse: "parseUint (FormatInt n) = Inr order" using n(2) by (simp add: parseUint_FormatInt)
  have "scope_writes ?ws" using ensured_scope_writes [of d oid] by (auto simp: scope_writes_def)
  then have recs: "t_ordered_records (apply_writes ?ws d) = t_ordered_records d" by (rule scope_writes_records)
  have "fmlookup (t_ordered_records (apply_writes ?ws d)) (id_key oid) = None" using absent recs by simp
  then have sem: "sql_sem (insert_ordered_stmt s oid rs (FormatInt n) order (fst (databaseValue value)) (snd (databaseValue value)) rank due) 0 (apply_writes ?ws d) =
      (Inr [], [WOrderRecord (Namespace oid) (OrderingScope oid) (stableKeyBytes (StableKey oid)) (Some (created_row rs value rank due n))])"
    using ok n(2) by (auto simp: insert_ordered_stmt_def created_row_def Let_def fmdom_notI)
  have target: "created_db oid rs value rank due d = apply_writes (?ws @
      [WOrderRecord (Namespace oid) (OrderingScope oid) (stableKeyBytes (StableKey oid)) (Some (created_row rs value rank due n))]) d"
    using n(1) by (simp add: created_db_def ensured_def scope_of_def id_key_def Let_def)
  have "settles (do { i \<leftarrow> tx_Exec ctx (insert_ordered_stmt s oid rs (FormatInt n) order (fst (databaseValue value)) (snd (databaseValue value)) rank due);
      case i of Inl e \<Rightarrow> State_Monad.return (Failed e) | Inr _ \<Rightarrow>
      ordered_commit ctx ''ordered create commit'' (new_record oid rs value rank due order) (new_record oid rs value rank due order, True) }) w
    (Finished (new_record oid rs value rank due order, True)) (created_db oid rs value rank due d)"
    unfolding target by (rule calm_exec_then [OF assms(1) sem calm_commit])
  with parse \<open>order \<noteq> 0\<close> show ?thesis by (simp add: ordered_createInsert_def case_prod_beta Let_def)
qed

text \<open>What an undisturbed \<open>Create\<close> ends with, and the database it leaves.\<close>

definition created_attempt ::
  "ordered_id \<Rightarrow> string \<Rightarrow> bytes option \<Rightarrow> rank \<Rightarrow> due \<Rightarrow> database \<Rightarrow> (ordered_record \<times> bool) attempt" where
  "created_attempt oid rs value rank due d =
     (if order_counter d oid = max_uint64 then Failed OrderExhausted
      else Finished (new_record oid rs value rank due (word_of_int (order_counter d oid + 1)), True))"

definition after_create :: "ordered_id \<Rightarrow> string \<Rightarrow> bytes option \<Rightarrow> rank \<Rightarrow> due \<Rightarrow> database \<Rightarrow> database" where
  "after_create oid rs value rank due d =
     (if order_counter d oid = max_uint64 then d else created_db oid rs value rank due d)"

lemma create_advance_quiet:
  assumes w: "calm (ensured d oid) d w" and absent: "fmlookup (t_ordered_records d) (id_key oid) = None"
    and counter: "order_counter d oid = uint cur" "uint cur < max_uint64"
    and ok: "ordered_row_ok (created_row rs value rank due (uint cur + 1))"
  shows "settles (do { u \<leftarrow> tx_QueryRow ctx (advance_order_stmt s oid);
       case scanned scan_one_text u of
         Inl e \<Rightarrow> State_Monad.return (Failed (if e = ErrNoRows then OrderExhausted else e))
       | Inr orderText' \<Rightarrow> ordered_createInsert s ctx oid rs value rank due orderText' }) w
      (Finished (new_record oid rs value rank due (cur + 1), True)) (created_db oid rs value rank due d)"
proof -
  have succ: "uint (cur + 1) = order_counter d oid + 1" using counter by (simp add: uint_succ_u64)
  then have "uint (cur + 1) \<noteq> 0" using counter(1) uint_ge_0 [of cur] by linarith
  then have "cur + 1 \<noteq> 0" by auto
  have adv: "sql_sem (advance_order_stmt s oid) 0 (apply_writes (ensured d oid) d) =
      (Inr [[CText (FormatInt (order_counter d oid + 1))]],
       [WOrderScope (Namespace oid) (OrderingScope oid) (Some (order_counter d oid + 1))])"
    using ensured_lookup [of d oid] counter by (simp add: advance_order_stmt_def scope_of_def next_order_ok_def)
  show ?thesis
  proof (rule calm_query_then [OF w adv])
    fix w2 :: "'a world_scheme"
    assume "calm (ensured d oid @ [WOrderScope (Namespace oid) (OrderingScope oid) (Some (order_counter d oid + 1))]) d w2"
    from create_insert_quiet [OF this refl succ [symmetric] \<open>cur + 1 \<noteq> 0\<close> absent] ok counter(1)
    show "settles (case scanned scan_one_text (first_row (Inr [[CText (FormatInt (order_counter d oid + 1))]])) of
         Inl e \<Rightarrow> State_Monad.return (Failed (if e = ErrNoRows then OrderExhausted else e))
       | Inr orderText' \<Rightarrow> ordered_createInsert s ctx oid rs value rank due orderText') w2
      (Finished (new_record oid rs value rank due (cur + 1), True)) (created_db oid rs value rank due d)"
      by (simp add: scan_one_text_def scan_text_def)
  qed
qed

lemma create_locked_quiet:
  assumes w: "calm (ensured d oid) d w" and absent: "fmlookup (t_ordered_records d) (id_key oid) = None"
    and counter: "0 \<le> order_counter d oid" "order_counter d oid \<le> max_uint64"
    and ok: "order_counter d oid < max_uint64 \<Longrightarrow> ordered_row_ok (created_row rs value rank due (order_counter d oid + 1))"
  shows "settles (ordered_createLocked api s ctx oid rs value rank due (FormatInt (order_counter d oid))) w
    (created_attempt oid rs value rank due d) (after_create oid rs value rank due d)"
  unfolding ordered_createLocked_def
proof (rule calm_get_absent [OF w ensured_scope_writes absent])
  fix w1 :: "'a world_scheme"
  assume w1: "calm (ensured d oid) d w1"
  define cur :: u64 where "cur = word_of_int (order_counter d oid)"
  have cur: "order_counter d oid = uint cur" using counter word_of_int_eq_iff_range [of "order_counter d oid" cur] by (simp add: cur_def)
  have word: "word_of_int (order_counter d oid + 1) = cur + 1" by (simp add: cur_def)
  have parse: "parseUint (FormatInt (order_counter d oid)) = Inr cur" using cur by (simp add: parseUint_FormatInt)
  show "settles (case parseUint (FormatInt (order_counter d oid)) of Inl e \<Rightarrow> State_Monad.return (Failed e)
     | Inr currentOrder \<Rightarrow>
       if uint currentOrder = max_uint64 then State_Monad.return (Failed OrderExhausted)
       else do {
         u \<leftarrow> tx_QueryRow ctx (advance_order_stmt s oid);
         case scanned scan_one_text u of
           Inl e \<Rightarrow> State_Monad.return (Failed (if e = ErrNoRows then OrderExhausted else e))
         | Inr orderText' \<Rightarrow> ordered_createInsert s ctx oid rs value rank due orderText' }) w1
      (created_attempt oid rs value rank due d) (after_create oid rs value rank due d)"
  proof (cases "order_counter d oid = max_uint64")
    case True
    with w1 parse cur show ?thesis by (auto simp: created_attempt_def after_create_def intro: calm_settles)
  next
    case False
    with counter(2) cur have "uint cur < max_uint64" by linarith
    from create_advance_quiet [OF w1 absent cur this, of rs "value" rank due ctx s] ok cur False parse this word show ?thesis
      by (simp add: created_attempt_def after_create_def)
  qed
qed

lemma create_body_quiet:
  assumes "calm [] d w" and absent: "fmlookup (t_ordered_records d) (id_key oid) = None"
    and counter: "0 \<le> order_counter d oid" "order_counter d oid \<le> max_uint64"
    and ok: "order_counter d oid < max_uint64 \<Longrightarrow> ordered_row_ok (created_row rs value rank due (order_counter d oid + 1))"
  shows "settles (ordered_createBody api s ctx oid rs value rank due) w
    (created_attempt oid rs value rank due d) (after_create oid rs value rank due d)"
  unfolding ordered_createBody_def
proof (rule calm_get_absent [OF assms(1) _ absent])
  fix wg :: "'a world_scheme"
  assume wg: "calm [] d wg"
  have ensure: "sql_sem (ensure_order_stmt s oid) 0 (apply_writes [] d) = (Inr [], ensured d oid)"
    by (cases "fmlookup (t_ordered_scopes d) (scope_of oid)")
      (simp_all add: ensure_order_stmt_def ensured_def scope_of_def fmdom_notI fmdomI)
  have lock: "sql_sem (lock_order_stmt s oid) 0 (apply_writes (ensured d oid) d) = (Inr [[CText (FormatInt (order_counter d oid))]], [])"
    using ensured_lookup [of d oid] by (simp add: lock_order_stmt_def scope_of_def)
  show "settles (do {
       i \<leftarrow> tx_Exec ctx (ensure_order_stmt s oid);
       case i of Inl e \<Rightarrow> State_Monad.return (Failed e) | Inr _ \<Rightarrow> do {
       l \<leftarrow> tx_QueryRow ctx (lock_order_stmt s oid);
       case scanned scan_one_text l of Inl e \<Rightarrow> State_Monad.return (Failed e)
       | Inr orderText \<Rightarrow> ordered_createLocked api s ctx oid rs value rank due orderText } }) wg
      (created_attempt oid rs value rank due d) (after_create oid rs value rank due d)"
  proof (rule calm_exec_then [OF wg ensure])
    fix wi :: "'a world_scheme"
    assume "calm ([] @ ensured d oid) d wi"
    then have wi: "calm (ensured d oid) d wi" by simp
    show "settles (do { l \<leftarrow> tx_QueryRow ctx (lock_order_stmt s oid);
       case scanned scan_one_text l of Inl e \<Rightarrow> State_Monad.return (Failed e)
       | Inr orderText \<Rightarrow> ordered_createLocked api s ctx oid rs value rank due orderText }) wi
      (created_attempt oid rs value rank due d) (after_create oid rs value rank due d)"
      by (rule calm_query_then [OF wi lock])
        (use create_locked_quiet [OF _ absent counter ok] in \<open>simp add: scan_one_text_def scan_text_def\<close>)
  qed
qed (simp add: scope_writes_def)

lemma index_of_created:
  assumes "0 \<le> order_counter d oid" and "order_counter d oid < max_uint64"
  shows "index_of (created_db oid rs value rank due d) =
    (index_of d)\<lparr>ix_records := (ix_records (index_of d))(oid \<mapsto> new_record oid rs value rank due (word_of_int (order_counter d oid + 1))),
      ix_counter := (ix_counter (index_of d))(scope_of oid := order_counter d oid + 1)\<rparr>"
proof -
  have "record_of oid (created_row rs value rank due n) = new_record oid rs value rank due (word_of_int n)" for n
    using databaseValue_value [of "value"] by (auto simp: record_of_def created_row_def new_record_def)
  then show ?thesis
    by (auto simp: index_of_def created_db_def scope_of_def scope_counter_def fun_eq_iff Let_def)
qed

lemma create_quiet:
  assumes "script w = []" and ws: "well_stored api (db w)" and lim: "schema_limits api"
    and v: "ValidateOrderedID api oid = None" "validateCandidate api rs value due = None"
  shows "\<exists>d'. settles (ordered_Create api s (Some c) oid rs value rank due) w
      (fst (spec_create oid rs value rank due (index_of (db w)))) d' \<and>
    index_of d' = snd (spec_create oid rs value rank due (index_of (db w)))"
  unfolding ordered_Create_def
proof (rule operation_quiet [OF assms(1) v(1)])
  fix ctx and w0 :: "'a world_scheme"
  assume w0: "script w0 = []" "db w0 = db w"
  let ?d = "db w" and ?spec = "spec_create oid rs value rank due (index_of (db w))"
  obtain wg where g: "run_state (ordered_get api s ctx oid) w0 =
      (case fmlookup (t_ordered_records ?d) (id_key oid) of None \<Rightarrow> Inl ErrNoRows
       | Some row \<Rightarrow> scanRecord api (record_row (id_key oid) row), wg)" "script wg = []" "db wg = ?d"
    using w0 by (auto simp: ordered_get_def ordered_getFrom_def pool_QueryRow_def pool_run_def select_record_sem Let_def row_at_def split: option.split)
  show "\<exists>d'. settles (do { g \<leftarrow> ordered_get api s ctx oid;
        case g of Inl e \<Rightarrow> if e \<noteq> ErrNoRows
            then do { f \<leftarrow> ordered_failure ctx ''ordered create lookup''; State_Monad.return (Inl f) }
            else (case validateCandidate api rs value due of
                None \<Rightarrow> ordered_retry ctx ''ordered create''
                  (ordered_createOnce api s ctx oid rs value rank due) (resolveCreate api s oid) 0
              | Some e \<Rightarrow> State_Monad.return (Inl e))
        | Inr existing \<Rightarrow> State_Monad.return (Inr (existing, False)) }) w0 (fst ?spec) d' \<and> index_of d' = snd ?spec"
  proof (cases "fmlookup (t_ordered_records ?d) (id_key oid)")
    case (Some row)
    with g well_stored_scan(1) [OF ws Some] show ?thesis
      by (auto simp: settles_def spec_create_def intro!: exI [of _ ?d])
  next
    case None
    let ?n = "order_counter ?d oid"
    have counter: "0 \<le> ?n" "?n \<le> max_uint64" using ws by (auto simp: well_stored_def order_counter_scope)
    have ok: "ordered_row_ok (created_row rs value rank due (?n + 1))" if "?n < max_uint64"
      using that counter lim v(2)
      by (auto simp: ordered_row_ok_def created_row_def schema_limits_def validateCandidate_def max_uint64_def split: option.splits)
    let ?a = "if ?n = max_uint64 then Failed OrderExhausted else Finished (new_record oid rs value rank due (word_of_int (?n + 1)), True)"
    let ?d' = "if ?n = max_uint64 then ?d else created_db oid rs value rank due ?d"
    have "settles (ordered_createOnce api s ctx oid rs value rank due) wg ?a ?d'"
      unfolding ordered_createOnce_def
    proof (rule transaction_quiet [OF g(2)])
      show "settles (ordered_createBody api s ctx oid rs value rank due) w1 ?a ?d'" if "calm [] (db wg) w1" for w1
        using that unfolding g(3)
        by (rule create_body_quiet [OF _ None counter ok, unfolded created_attempt_def after_create_def])
    qed
    moreover have "fst ?spec = (if ?n = max_uint64 then Inl OrderExhausted else Inr (new_record oid rs value rank due (word_of_int (?n + 1)), True))"
      "index_of ?d' = snd ?spec"
      using None counter index_of_created [of ?d oid rs "value" rank due]
      by (auto simp: spec_create_def index_of_counter Let_def)
    ultimately have "settles (ordered_retry ctx ''ordered create'' (ordered_createOnce api s ctx oid rs value rank due) (resolveCreate api s oid) 0) wg (fst ?spec) ?d'"
      by (auto intro: retry_quiet)
    with None g v(2) \<open>index_of ?d' = snd ?spec\<close> show ?thesis
      by (intro exI [of _ ?d']) (auto simp: settles_def)
  qed
qed

text \<open>
  C17. \<open>Create\<close>, \<open>Update\<close> and \<open>Delete\<close> implement the specification: with nothing interfering,
  each returns the specified result -- the existing record, the new one, not found, deleted, revision
  conflict, revision or order exhausted -- and leaves the specified map of records and counters.
  The hypotheses: the arguments are valid, the stored rows are well-formed, and the \<open>storage\<close>
  limits are those of the schema.
\<close>

theorem ordered_refines_spec:
  assumes "script w = []" and "well_stored api (db w)" and "schema_limits api" and "NotDue api = 0"
    and "ValidateOrderedID api oid = None" and "ValidateName api rankingScope = None"
    and "ValidateOrderedValue api value = None" and "ValidateDue api due = None"
  shows "(\<exists>d. settles (ordered_Create api s (Some c) oid rankingScope value rank due) w
        (fst (spec_create oid rankingScope value rank due (index_of (db w)))) d \<and>
      index_of d = snd (spec_create oid rankingScope value rank due (index_of (db w)))) \<and>
    (\<exists>d. settles (ordered_Update api s (Some c) oid expectedRevision value rank due) w
        (fst (spec_update oid expectedRevision value rank due (index_of (db w)))) d \<and>
      index_of d = snd (spec_update oid expectedRevision value rank due (index_of (db w)))) \<and>
    (\<exists>d. settles (ordered_Delete api s (Some c) oid expectedRevision) w
        (fst (spec_delete oid expectedRevision (index_of (db w)))) d \<and>
      index_of d = snd (spec_delete oid expectedRevision (index_of (db w))))"
  using assms by (intro conjI create_quiet update_quiet delete_quiet) (auto simp: validateCandidate_def)

end
