(* ===== verification/OrderedExamples.thy ===== *)
theory OrderedExamples
  imports OrderedSpec
begin

text \<open>
  A concrete \<open>storage\<close> package and a concrete index with one record, at which the hypotheses of
  the ordered index's properties hold.
\<close>

section \<open>The example\<close>

definition demo_api :: storage_api where
  "demo_api = \<lparr>ValidateName = (\<lambda>n. if n = [] then Some InvalidName else None),
     ValidateOrderedID = (\<lambda>i. if Namespace i = [] then Some InvalidName else None),
     ValidateOrderedValue = (\<lambda>v. if length (fst (databaseValue v)) \<le> 1048576 then None else Some OrderedValueTooLarge),
     ValidateDue = (\<lambda>x. if due_State x = 0 \<and> due_UnixMillis x = 0 \<or> due_State x = 1 then None else Some InvalidDue),
     ValidateOrderedRecord = (\<lambda>r. if rec_Revision r = 0 then Some InvalidName else None),
     ValidateOrderedLimit = (\<lambda>n. if 0 < n \<and> n \<le> 1000 then None else Some InvalidLimit),
     ValidateStableKey = (\<lambda>k. if k = [] then Some InvalidName else None), NotDue = 0,
     RankedCursorKind_text = ''ranked'', DueCursorKind_text = ''due''\<rparr>"

definition demo_id :: ordered_id where
  "demo_id = \<lparr>Namespace = ''n'', OrderingScope = ''o'', StableKey = ''k''\<rparr>"

definition demo_rank :: rank where
  "demo_rank = \<lparr>rank_Ranked = True, rank_Value = 7\<rparr>"

definition demo_due :: due where
  "demo_due = \<lparr>due_State = 1, due_UnixMillis = 9\<rparr>"

definition demo_index_store :: ordered_store where
  "demo_index_store = ordered_New ''s'' ''p_'' []"

definition demo_record :: ordered_record where
  "demo_record = new_record demo_id ''r'' (Some []) demo_rank demo_due 1"

definition demo_index :: database where
  "demo_index = created_db demo_id ''r'' (Some []) demo_rank demo_due empty_database"

lemma demo_api_simps [simp]:
  "ValidateName demo_api n = (if n = [] then Some InvalidName else None)"
  "ValidateOrderedID demo_api i = (if Namespace i = [] then Some InvalidName else None)"
  "ValidateOrderedValue demo_api v = (if length (fst (databaseValue v)) \<le> 1048576 then None else Some OrderedValueTooLarge)"
  "ValidateDue demo_api x = (if due_State x = 0 \<and> due_UnixMillis x = 0 \<or> due_State x = 1 then None else Some InvalidDue)"
  "ValidateOrderedRecord demo_api r = (if rec_Revision r = 0 then Some InvalidName else None)"
  "ValidateOrderedLimit demo_api l = (if 0 < l \<and> l \<le> 1000 then None else Some InvalidLimit)"
  "NotDue demo_api = 0"
  by (simp_all add: demo_api_def)

lemma demo_simps [simp]:
  "Namespace demo_id = ''n''" "OrderingScope demo_id = ''o''" "StableKey demo_id = ''k''"
  "due_State demo_due = 1" "due_UnixMillis demo_due = 9" "rank_Ranked demo_rank" "rank_Value demo_rank = 7"
  by (simp_all add: demo_id_def demo_due_def demo_rank_def)

lemma demo_own_errors: "own_errors demo_api"
  by (simp add: own_errors_def)

lemma demo_limits: "schema_limits demo_api"
  by (auto simp: schema_limits_def)

lemma empty_order_counter [simp]: "order_counter empty_database oid = 0" "scope_counter empty_database ns sc = 0"
  by (simp_all add: order_counter_def scope_counter_def empty_database_def)

lemma empty_tables [simp]: "t_ordered_records empty_database = fmempty"
  by (simp add: empty_database_def)

lemma demo_records: "t_ordered_records demo_index = fmupd (id_key demo_id) (stored_row demo_record) fmempty"
  by (simp add: demo_index_def created_db_def demo_record_def stored_row_created Let_def)

lemma demo_lookup:
  "fmlookup (t_ordered_records demo_index) k = (if k = id_key demo_id then Some (stored_row demo_record) else None)"
  by (simp add: demo_records)

lemma demo_scanned: "scanRecord demo_api (record_row (id_key demo_id) (stored_row demo_record)) = Inr demo_record"
proof -
  have "record_fits demo_record" "ValidateOrderedRecord demo_api demo_record = None" "rec_ID demo_record = demo_id"
    by (simp_all add: demo_record_def new_record_def record_fits_def max_int64_def)
  with scanRecord_complete [OF stored_row_shows] show ?thesis by metis
qed

lemma demo_created: "create_step demo_id ''r'' (Some []) demo_rank demo_due empty_database demo_index"
  by (simp add: create_step_def demo_index_def created_db_def created_row_def scope_of_def ordered_row_ok_def
      databaseValue_def max_uint64_def Let_def)

lemma empty_inv: "ordered_inv empty_database"
  by (auto simp: ordered_inv_def max_uint64_def)

lemma demo_inv: "ordered_inv demo_index"
  using demo_created empty_inv by (rule create_keeps_orders)

lemma demo_well_stored: "well_stored demo_api demo_index"
proof -
  have "ordered_row_ok (stored_row demo_record)"
    by (simp add: demo_record_def stored_row_created created_row_def ordered_row_ok_def databaseValue_def max_uint64_def)
  with demo_scanned demo_inv show ?thesis
    by (auto simp: well_stored_def demo_lookup ordered_inv_def)
qed

lemma demo_index_of: "index_of demo_index =
    \<lparr>ix_records = Map.empty(demo_id \<mapsto> demo_record), ix_counter = (\<lambda>_. 0)((''n'', ''o'') := 1)\<rparr>"
proof -
  have "index_of empty_database = \<lparr>ix_records = Map.empty, ix_counter = (\<lambda>_. 0)\<rparr>"
    by (auto simp: index_of_def fun_eq_iff)
  moreover have "index_of demo_index = (index_of empty_database)\<lparr>ix_records := (ix_records (index_of empty_database))(demo_id \<mapsto> demo_record),
      ix_counter := (ix_counter (index_of empty_database))(scope_of demo_id := 1)\<rparr>"
    using index_of_created [of empty_database demo_id "''r''" "Some []" demo_rank demo_due]
    by (simp add: demo_index_def demo_record_def max_uint64_def)
  ultimately show ?thesis by (simp add: scope_of_def)
qed

section \<open>Runs on the example\<close>

abbreviation demo_update :: "u64 \<Rightarrow> (world, ordered_record result) state" where
  "demo_update n \<equiv> ordered_Update demo_api demo_index_store (Some Background) demo_id n None demo_rank demo_due"

abbreviation demo_delete_record :: "u64 \<Rightarrow> (world, ordered_record result) state" where
  "demo_delete_record n \<equiv> ordered_Delete demo_api demo_index_store (Some Background) demo_id n"

abbreviation demo_create :: "(world, (ordered_record \<times> bool) result) state" where
  "demo_create \<equiv> ordered_Create demo_api demo_index_store (Some Background) demo_id ''r'' None demo_rank demo_due"

lemma demo_record_fields: "rec_Revision demo_record = 1" "\<not> rec_Deleted demo_record" "rec_ID demo_record = demo_id"
  by (simp_all add: demo_record_def new_record_def)

lemma demo_value_ok [simp]: "ValidateOrderedValue demo_api None = None" "ValidateDue demo_api demo_due = None"
  by (simp_all add: databaseValue_def)

lemma demo_update_runs:
  "\<exists>w'. run_state (demo_update 1) (open_world demo_index []) =
     (Inr (demo_record\<lparr>rec_Revision := 2, rec_Value := None, rec_Rank := demo_rank, rec_Due := demo_due\<rparr>), w')"
  "\<exists>w'. run_state (demo_update 5) (open_world demo_index []) = (Inl (OrderedRevisionConflict demo_id 5 1), w')"
  using update_quiet [of "open_world demo_index []" demo_api demo_id None demo_due demo_index_store Background 1 demo_rank]
    update_quiet [of "open_world demo_index []" demo_api demo_id None demo_due demo_index_store Background 5 demo_rank]
    demo_well_stored demo_limits demo_record_fields
  by (auto simp: settles_def spec_update_def spec_mutate_def demo_index_of max_uint64_def databaseValue_def Let_def
      simp del: index_of_records)

lemma demo_delete_record_run:
  "\<exists>w'. run_state (demo_delete_record 1) (open_world demo_index []) =
     (Inr (demo_record\<lparr>rec_Revision := 2, rec_Deleted := True, rec_Rank := \<lparr>rank_Ranked = False, rank_Value = 0\<rparr>,
        rec_Due := \<lparr>due_State = 0, due_UnixMillis = 0\<rparr>\<rparr>), w')"
  using delete_quiet [of "open_world demo_index []" demo_api demo_id demo_index_store Background 1]
    demo_well_stored demo_limits demo_record_fields
  by (auto simp: settles_def spec_delete_def spec_mutate_def demo_index_of max_uint64_def Let_def
      simp del: index_of_records)

lemma demo_create_runs:
  "\<exists>w'. run_state demo_create (open_world demo_index []) = (Inr (demo_record, False), w')"
  "\<exists>w'. run_state demo_create (open_world empty_database []) = (Inr (new_record demo_id ''r'' None demo_rank demo_due 1, True), w')"
proof -
  have "well_stored demo_api empty_database" by (auto simp: well_stored_def max_uint64_def)
  moreover have "ix_records (index_of empty_database) = Map.empty" "ix_counter (index_of empty_database) = (\<lambda>_. 0)"
    by (auto simp: index_of_def fun_eq_iff)
  ultimately show "\<exists>w'. run_state demo_create (open_world demo_index []) = (Inr (demo_record, False), w')"
    "\<exists>w'. run_state demo_create (open_world empty_database []) = (Inr (new_record demo_id ''r'' None demo_rank demo_due 1, True), w')"
    using create_quiet [of "open_world demo_index []" demo_api demo_id "''r''" None demo_due demo_index_store Background demo_rank]
      create_quiet [of "open_world empty_database []" demo_api demo_id "''r''" None demo_due demo_index_store Background demo_rank]
      demo_well_stored demo_limits
    by (auto simp: settles_def spec_create_def demo_index_of max_uint64_def databaseValue_def validateCandidate_def Let_def
        simp del: index_of_records)
qed

section \<open>Witnesses\<close>

theorem ordered_errors_definite_witness:
  "definite demo_create (open_world demo_index [ack_lost]) \<and> definite (demo_update 1) (open_world demo_index [ack_lost]) \<and>
   definite (demo_delete_record 1) (open_world demo_index [ack_lost])"
  by (rule ordered_errors_definite) simp

theorem ordered_Create_success_witness:
  "\<exists>w'. run_state demo_create (open_world empty_database []) = (Inr (new_record demo_id ''r'' None demo_rank demo_due 1, True), w') \<and>
     (\<exists>d \<in> set (states (open_world empty_database []) w'). shown (new_record demo_id ''r'' None demo_rank demo_due 1) d)"
  using demo_create_runs(2) ordered_Create_success by fastforce

theorem ordered_Update_success_witness:
  "\<exists>r w'. run_state (demo_update 1) (open_world demo_index []) = (Inr r, w') \<and> rec_Revision r = 1 + 1 \<and>
     (\<exists>d \<in> set (states (open_world demo_index []) w'). shown r d)"
  using demo_update_runs(1) ordered_Update_success by fastforce

theorem ordered_Delete_success_witness:
  "\<exists>r w'. run_state (demo_delete_record 1) (open_world demo_index []) = (Inr r, w') \<and> rec_Deleted r \<and>
     (\<exists>d \<in> set (states (open_world demo_index []) w'). shown r d)"
  using demo_delete_record_run ordered_Delete_success demo_api_simps(7) by fastforce

theorem ordered_refusals_justified_witness:
  "\<exists>w'. run_state (demo_update 5) (open_world demo_index []) = (Inl (OrderedRevisionConflict demo_id 5 1), w') \<and>
     (\<exists>d \<in> set (states (open_world demo_index []) w'). refusal_true demo_id 5 (OrderedRevisionConflict demo_id 5 1) d)"
proof -
  from demo_update_runs(2) obtain w' where run: "run_state (demo_update 5) (open_world demo_index []) = (Inl (OrderedRevisionConflict demo_id 5 1), w')" by blast
  have "\<exists>d \<in> set (states (open_world demo_index []) w'). refusal_true demo_id 5 (OrderedRevisionConflict demo_id 5 1) d"
    by (rule ordered_refusals_justified [OF demo_own_errors _ _ disjI1, OF _ _ run]) simp_all
  with run show ?thesis by blast
qed

theorem ordered_orders_gap_free_witness:
  "list_all ordered_inv (states (open_world demo_index [ack_lost]) (snd (run_state demo_create (open_world demo_index [ack_lost]))))"
  using ordered_orders_gap_free [of "open_world demo_index [ack_lost]" demo_api demo_index_store "Some Background" demo_id "''r''" None demo_rank demo_due]
    demo_inv
  by (simp add: keeps_def ack_lost_def list_all_iff)

theorem ordered_only_forward_witness:
  "list_all (ordered_forward demo_index) (states (open_world demo_index [ack_lost]) (snd (run_state (demo_update 1) (open_world demo_index [ack_lost]))))"
  using ordered_only_forward [of "open_world demo_index [ack_lost]" demo_api demo_index_store "Some Background" demo_id _ None demo_rank demo_due 1]
    ordered_history.forward_refl
  by (simp add: ack_lost_def list_all_iff)

theorem ordered_record_roundtrip_witness:
  "scanRecord demo_api (record_row (id_key (rec_ID demo_record)) (stored_row demo_record)) = Inr demo_record"
proof -
  have "record_fits demo_record" "ValidateOrderedRecord demo_api demo_record = None"
    by (simp_all add: demo_record_def new_record_def record_fits_def max_int64_def)
  from ordered_record_roundtrip [OF this] show ?thesis by blast
qed

theorem ordered_Get_reads_committed_witness:
  "our_commits (open_world demo_index []) (snd (run_state (ordered_Get demo_api demo_index_store (Some Background) demo_id) (open_world demo_index []))) = []"
  using ordered_Get_reads_committed [OF prod.collapse [symmetric] demo_own_errors] by blast

lemma demo_readable: "readable demo_api ''n'' ''o'' demo_index"
  unfolding readable_def
proof (intro allI impI)
  fix sk row
  assume row: "fmlookup (t_ordered_records demo_index) (''n'', ''o'', sk) = Some row"
  then have "(''n'', ''o'', sk) = id_key demo_id" "row = stored_row demo_record"
    by (auto simp: demo_lookup split: if_splits)
  then show "\<exists>r. scanRecord demo_api (record_row (''n'', ''o'', sk) row) = Inr r" using demo_scanned by simp
qed

theorem ordered_ListOrdered_page_witness:
  "\<exists>page w'. run_state (ordered_ListOrdered demo_api demo_index_store (Some Background) ''n'' ''o'' 0 2) (open_world demo_index []) = (Inr page, w') \<and>
     (\<exists>d \<in> set (states (open_world demo_index []) w'). map entry_of (page_Records page) = page_entries ''n'' ''o'' 0 2 d)"
proof -
  obtain rs where "list_page demo_api demo_index_store (Some Background) ''n'' ''o'' 2 demo_index 0 =
      Inr \<lparr>page_Records = rs, page_NextAfterOrder = (if rs = [] then 0 else rec_Order (last rs))\<rparr>"
    by (rule list_page_quiet [of demo_api "''n''" "''o''" 2 demo_index demo_index_store Background 0]) (simp_all add: demo_readable)
  then obtain page w' where run: "run_state (ordered_ListOrdered demo_api demo_index_store (Some Background) ''n'' ''o'' 0 2) (open_world demo_index []) = (Inr page, w')"
    unfolding list_page_def by (metis prod.collapse)
  from ordered_ListOrdered_page [OF this] run show ?thesis by blast
qed

theorem ordered_ListOrdered_complete_witness:
  "\<exists>rs. read_all (Suc (length (ordered_entries ''n'' ''o'' demo_index))) (list_page demo_api demo_index_store (Some Background) ''n'' ''o'' 1 demo_index) 0 = Inr rs \<and>
     (\<exists>r \<in> set rs. StableKey (rec_ID r) = ''k'' \<and> row_shows (stored_row demo_record) r)"
proof -
  have "fmlookup (t_ordered_records demo_index) (''n'', ''o'', ''k'') = Some (stored_row demo_record)"
    by (simp add: demo_lookup id_key_parts)
  with ordered_ListOrdered_complete [of demo_api "''n''" "''o''" 1 demo_index demo_index_store Background] demo_readable demo_inv
  show ?thesis by auto
qed

theorem ordered_refines_spec_witness:
  "\<exists>d. settles (demo_update 1) (open_world demo_index [])
      (Inr (demo_record\<lparr>rec_Revision := 2, rec_Value := None, rec_Rank := demo_rank, rec_Due := demo_due\<rparr>)) d \<and>
    ix_records (index_of d) demo_id = Some (demo_record\<lparr>rec_Revision := 2, rec_Value := None, rec_Rank := demo_rank, rec_Due := demo_due\<rparr>)"
  using ordered_refines_spec [of "open_world demo_index []" demo_api demo_id "''r''" None demo_due demo_index_store Background demo_rank 1]
    demo_well_stored demo_limits demo_record_fields
  by (auto simp: spec_update_def spec_mutate_def demo_index_of max_uint64_def databaseValue_def Let_def
      simp del: index_of_records)

end
