(* ===== verification/Base64.thy ===== *)
theory Base64
  imports Main
begin

text \<open>
  \<open>base64.RawURLEncoding\<close>: the URL alphabet without padding, and its strict decoding, which
  skips carriage returns and line feeds and wants the unused bits of the last character to be zero.
  Decoding undoes encoding, and what decodes is, line breaks aside, an encoding.
\<close>

section \<open>Definitions\<close>

text \<open>The 64 characters \<open>A-Z\<close>, \<open>a-z\<close>, \<open>0-9\<close>, \<open>-\<close> and \<open>_\<close>.\<close>

definition b64_char :: "nat \<Rightarrow> char" where
  "b64_char n = char_of (if n < 26 then 65 + n else if n < 52 then 71 + n else if n < 62 then n - 4
     else if n = 62 then 45 else 95)"

definition b64_value :: "char \<Rightarrow> nat option" where
  "b64_value c =
     (let n = (of_char c :: nat) in
      if 65 \<le> n \<and> n \<le> 90 then Some (n - 65)
      else if 97 \<le> n \<and> n \<le> 122 then Some (n - 71)
      else if 48 \<le> n \<and> n \<le> 57 then Some (n + 4)
      else if n = 45 then Some 62
      else if n = 95 then Some 63
      else None)"

fun sextets :: "nat list \<Rightarrow> nat list" where
  "sextets [] = []"
| "sextets [a] = [a div 4, a mod 4 * 16]"
| "sextets [a, b] = [a div 4, a mod 4 * 16 + b div 16, b mod 16 * 4]"
| "sextets (a # b # c # r) = a div 4 # (a mod 4 * 16 + b div 16) # (b mod 16 * 4 + c div 64) # c mod 64 # sextets r"

fun octets_of :: "nat list \<Rightarrow> nat list option" where
  "octets_of [] = Some []"
| "octets_of [x] = None"
| "octets_of [x, y] = (if y mod 16 \<noteq> 0 then None else Some [x * 4 + y div 16])"
| "octets_of [x, y, z] = (if z mod 4 \<noteq> 0 then None else Some [x * 4 + y div 16, y mod 16 * 16 + z div 4])"
| "octets_of (x # y # z # u # r) =
     map_option (\<lambda>bs. (x * 4 + y div 16) # (y mod 16 * 16 + z div 4) # (z mod 4 * 64 + u) # bs) (octets_of r)"

definition EncodeToString :: "string \<Rightarrow> string" where
  "EncodeToString raw = map b64_char (sextets (map of_char raw))"

definition line_break :: "char \<Rightarrow> bool" where
  "line_break c \<longleftrightarrow> (of_char c :: nat) = 10 \<or> (of_char c :: nat) = 13"

definition DecodeString :: "string \<Rightarrow> string option" where
  "DecodeString s =
     (let vs = map b64_value (filter (\<lambda>c. \<not> line_break c) s) in
      if None \<in> set vs then None else map_option (map char_of) (octets_of (map the vs)))"

section \<open>The round trips\<close>

lemma sextets_octets:
  "(\<forall>a \<in> set bs. a < 256) \<Longrightarrow> octets_of (sextets bs) = Some bs \<and> (\<forall>x \<in> set (sextets bs). x < 64)"
proof (induction bs rule: sextets.induct)
  case (3 a b)
  then have "b div 16 mod 16 = b div 16" by (intro mod_less) auto
  with 3 show ?case by auto
next
  case (4 a b c r)
  then have "b div 16 mod 16 = b div 16" "c div 64 mod 4 = c div 64" by (auto intro!: mod_less)
  with 4 show ?case by auto
qed auto

lemma octets_sextets:
  "(\<forall>x \<in> set vs. x < 64) \<Longrightarrow> octets_of vs = Some bs \<Longrightarrow> sextets bs = vs \<and> (\<forall>b \<in> set bs. b < 256)"
proof (induction vs arbitrary: bs rule: octets_of.induct)
  case (3 x y)
  then have "y = 16 * (y div 16)" "y div 16 < 4" by (auto split: if_splits)
  with 3 show ?case by (auto split: if_splits)
next
  case (4 x y z)
  then have "z = 4 * (z div 4)" "z div 4 < 16" "y div 16 < 4" by (auto split: if_splits)
  with 4 show ?case by (auto split: if_splits)
next
  case (5 x y z u r)
  then obtain cs where cs: "octets_of r = Some cs"
      "bs = (x * 4 + y div 16) # (y mod 16 * 16 + z div 4) # (z mod 4 * 64 + u) # cs" by auto
  have "y div 16 < 4" "z div 4 < 16" "u < 64" using 5(2) by auto
  moreover have "sextets cs = r" "\<forall>b \<in> set cs. b < 256" using 5(1) [OF _ cs(1)] 5(2) by auto
  ultimately show ?case using 5(2) by (auto simp: cs(2))
qed auto

lemma b64_value_char: "n < 64 \<Longrightarrow> b64_value (b64_char n) = Some n \<and> \<not> line_break (b64_char n)"
  by (auto simp: b64_value_def b64_char_def line_break_def Let_def)

lemma b64_char_value:
  assumes "b64_value c = Some n"
  shows "b64_char n = c \<and> n < 64"
proof -
  have "b64_char n = char_of (of_char c :: nat)" "n < 64"
    using assms by (auto simp: b64_value_def b64_char_def Let_def simp del: char_of_char split: if_splits)
  then show ?thesis by simp
qed

lemma DecodeString_EncodeToString [simp]: "DecodeString (EncodeToString raw) = Some raw"
proof -
  let ?bs = "map (of_char :: char \<Rightarrow> nat) raw"
  have six: "octets_of (sextets ?bs) = Some ?bs" "\<forall>x \<in> set (sextets ?bs). x < 64"
    using sextets_octets [of ?bs] by auto
  then have "map b64_value (filter (\<lambda>c. \<not> line_break c) (map b64_char (sextets ?bs))) = map Some (sextets ?bs)"
    by (induction "sextets ?bs") (use b64_value_char in \<open>auto simp: filter_map comp_def intro!: map_cong filter_True\<close>)
  with six(1) show ?thesis
    by (simp add: DecodeString_def EncodeToString_def comp_def del: map_map) (simp add: comp_def)
qed

text \<open>What decodes is, but for line breaks, the encoding of the result.\<close>

lemma DecodeString_canonical:
  assumes "DecodeString s = Some raw"
  shows "filter (\<lambda>c. \<not> line_break c) s = EncodeToString raw"
proof -
  let ?t = "filter (\<lambda>c. \<not> line_break c) s"
  let ?vs = "map (the \<circ> b64_value) ?t"
  from assms have ok: "None \<notin> b64_value ` set ?t" "map_option (map char_of) (octets_of ?vs) = Some raw"
    by (auto simp: DecodeString_def Let_def split: if_splits)
  from ok(1) have each: "b64_char (the (b64_value c)) = c \<and> the (b64_value c) < 64" if "c \<in> set ?t" for c
    using that b64_char_value [of c] by (cases "b64_value c") force+
  obtain bs where bs: "octets_of ?vs = Some bs" "raw = map char_of bs" using ok(2) by auto
  have "sextets bs = ?vs \<and> (\<forall>b \<in> set bs. b < 256)"
    using bs(1) each by (intro octets_sextets) auto
  moreover from this have "map of_char raw = bs" by (simp add: bs(2) comp_def map_idI)
  ultimately have "EncodeToString raw = map b64_char ?vs" by (simp add: EncodeToString_def)
  also have "\<dots> = ?t" unfolding map_map by (rule map_idI) (use each in simp)
  finally show ?thesis by simp
qed

end
