(* ===== verification/Json.thy ===== *)
theory Json
  imports Strconv
begin

text \<open>
  What the cursors use of Go's \<open>encoding/json\<close>: writing an object of strings and integers
  (\<open>json.Marshal\<close>, which also escapes the characters that matter in HTML), and reading any JSON text
  (the scanner of \<open>json.Unmarshal\<close> and its unquoting of strings).  Reading is in two steps: a lexer
  and an automaton with a stack, so that every text is read in one pass.  Reading undoes writing
  for strings that are valid UTF-8; Go replaces what is not.
\<close>

section \<open>UTF-8\<close>

definition byte_val :: "char \<Rightarrow> nat" where
  "byte_val c = of_char c"

definition trail :: "nat \<Rightarrow> nat \<Rightarrow> char \<Rightarrow> bool" where
  "trail lo hi c = (lo \<le> byte_val c \<and> byte_val c \<le> hi)"

text \<open>The length of the multi-byte rune at the head of the bytes, 0 if they are not valid UTF-8.\<close>

definition utf8_seq :: "string \<Rightarrow> nat" where
  "utf8_seq s = (case s of
     a # b # r \<Rightarrow>
       if trail 0xC2 0xDF a then (if trail 0x80 0xBF b then 2 else 0)
       else (case r of
         c # r' \<Rightarrow>
           if trail 0xE0 0xEF a
           then (if trail (if byte_val a = 0xE0 then 0xA0 else 0x80) (if byte_val a = 0xED then 0x9F else 0xBF) b \<and> trail 0x80 0xBF c
                 then 3 else 0)
           else (case r' of
             d # _ \<Rightarrow>
               if trail 0xF0 0xF4 a \<and> trail (if byte_val a = 0xF0 then 0x90 else 0x80) (if byte_val a = 0xF4 then 0x8F else 0xBF) b \<and>
                  trail 0x80 0xBF c \<and> trail 0x80 0xBF d
               then 4 else 0
           | [] \<Rightarrow> 0)
       | [] \<Rightarrow> 0)
   | _ \<Rightarrow> 0)"

fun valid_utf8 :: "string \<Rightarrow> bool" where
  "valid_utf8 [] = True"
| "valid_utf8 (c # s) =
     (if byte_val c < 128 then valid_utf8 s
      else utf8_seq (c # s) \<noteq> 0 \<and> valid_utf8 (drop (utf8_seq (c # s) - 1) s))"

text \<open>\<open>utf8.EncodeRune\<close> of a code point that is not a surrogate.\<close>

definition utf8_encode :: "nat \<Rightarrow> string" where
  "utf8_encode r = map char_of
     (if r < 0x80 then [r]
      else if r < 0x800 then [0xC0 + r div 64, 0x80 + r mod 64]
      else if r < 0x10000 then [0xE0 + r div 4096, 0x80 + r div 64 mod 64, 0x80 + r mod 64]
      else [0xF0 + r div 262144, 0x80 + r div 4096 mod 64, 0x80 + r div 64 mod 64, 0x80 + r mod 64])"

definition replacement_char :: string where
  "replacement_char = [CHR 0xEF, CHR 0xBF, CHR 0xBD]"

section \<open>Writing\<close>

definition dquote :: char where "dquote = CHR 0x22"

definition backslash :: char where "backslash = CHR 0x5C"

definition hex_digit :: "nat \<Rightarrow> char" where
  "hex_digit n = char_of (if n < 10 then 48 + n else 87 + n)"

text \<open>One byte below 128.\<close>

definition escape_ascii :: "char \<Rightarrow> string" where
  "escape_ascii c =
     (let n = byte_val c in
      if c = dquote \<or> c = backslash then [backslash, c]
      else if n = 8 then backslash # ''b''
      else if n = 9 then backslash # ''t''
      else if n = 10 then backslash # ''n''
      else if n = 12 then backslash # ''f''
      else if n = 13 then backslash # ''r''
      else if n < 32 \<or> c \<in> set ''<>&'' then backslash # ''u00'' @ [hex_digit (n div 16), hex_digit (n mod 16)]
      else [c])"

text \<open>U+2028 and U+2029 are escaped, an invalid byte is written as the escaped replacement character.\<close>

fun json_escape :: "string \<Rightarrow> string" where
  "json_escape [] = []"
| "json_escape (c # s) =
     (if byte_val c < 128 then escape_ascii c @ json_escape s
      else if utf8_seq (c # s) = 0 then backslash # ''ufffd'' @ json_escape s
      else (if take 3 (c # s) = [CHR 0xE2, CHR 0x80, CHR 0xA8] then backslash # ''u2028''
            else if take 3 (c # s) = [CHR 0xE2, CHR 0x80, CHR 0xA9] then backslash # ''u2029''
            else take (utf8_seq (c # s)) (c # s)) @ json_escape (drop (utf8_seq (c # s) - 1) s))"

definition json_string :: "string \<Rightarrow> string" where
  "json_string s = dquote # json_escape s @ [dquote]"

datatype scalar = SInt int | SStr string

primrec scalar_text :: "scalar \<Rightarrow> string" where
  "scalar_text (SInt i) = FormatInt i"
| "scalar_text (SStr s) = json_string s"

definition member_text :: "string \<times> scalar \<Rightarrow> string" where
  "member_text m = json_string (fst m) @ '':'' @ scalar_text (snd m)"

fun members_text :: "(string \<times> scalar) list \<Rightarrow> string" where
  "members_text [] = []"
| "members_text [m] = member_text m"
| "members_text (m # ms) = member_text m @ '','' @ members_text ms"

definition object_text :: "(string \<times> scalar) list \<Rightarrow> string" where
  "object_text ms = ''{'' @ members_text ms @ ''}''"

section \<open>Reading\<close>

datatype json = JNull | JBool bool | JNum string | JStr string | JArr "json list" | JObj "(string \<times> json) list"

datatype token = LBrace | RBrace | LBrack | RBrack | Colon | Comma | Scalar json

definition json_space :: "char \<Rightarrow> bool" where
  "json_space c = (byte_val c \<in> {9, 10, 13, 32})"

definition is_digit :: "char \<Rightarrow> bool" where
  "is_digit c = (digit_value c \<noteq> None)"

definition number_char :: "char \<Rightarrow> bool" where
  "number_char c = (is_digit c \<or> c \<in> set ''+-.eE'')"

definition valid_exponent :: "string \<Rightarrow> bool" where
  "valid_exponent s = (case s of [] \<Rightarrow> True
     | c # t \<Rightarrow> c \<in> set ''eE'' \<and>
         (let u = (case t of d # v \<Rightarrow> if d \<in> set ''+-'' then v else t | [] \<Rightarrow> []) in u \<noteq> [] \<and> list_all is_digit u))"

definition valid_fraction :: "string \<Rightarrow> bool" where
  "valid_fraction s = (case s of [] \<Rightarrow> True
     | c # t \<Rightarrow> if c = CHR ''.'' then takeWhile is_digit t \<noteq> [] \<and> valid_exponent (dropWhile is_digit t) else valid_exponent s)"

definition valid_number :: "string \<Rightarrow> bool" where
  "valid_number s =
     (let t = (case s of c # r \<Rightarrow> if c = CHR ''-'' then r else s | [] \<Rightarrow> []) in
      case t of [] \<Rightarrow> False
      | c # r \<Rightarrow> if c = CHR ''0'' then valid_fraction r else is_digit c \<and> valid_fraction (dropWhile is_digit r))"

definition hex_nibble :: "char \<Rightarrow> nat option" where
  "hex_nibble c =
     (let n = byte_val c in
      if 48 \<le> n \<and> n \<le> 57 then Some (n - 48)
      else if 97 \<le> n \<and> n \<le> 102 then Some (n - 87)
      else if 65 \<le> n \<and> n \<le> 70 then Some (n - 55)
      else None)"

definition hex4 :: "string \<Rightarrow> nat option" where
  "hex4 s = (case s of
     a # b # c # d # _ \<Rightarrow>
       (case (hex_nibble a, hex_nibble b, hex_nibble c, hex_nibble d) of
          (Some x, Some y, Some z, Some u) \<Rightarrow> Some (x * 4096 + y * 256 + z * 16 + u)
        | _ \<Rightarrow> None)
   | _ \<Rightarrow> None)"

text \<open>After \<open>\u\<close>: the bytes of the rune and how many characters it takes, two escapes for a surrogate pair.\<close>

definition unicode_escape :: "string \<Rightarrow> (string \<times> nat) option" where
  "unicode_escape s = (case hex4 s of
     None \<Rightarrow> None
   | Some r \<Rightarrow>
       if 0xD800 \<le> r \<and> r < 0xE000
       then (case (take 2 (drop 4 s) = [backslash, CHR ''u''], hex4 (drop 6 s)) of
           (True, Some r2) \<Rightarrow>
             if r < 0xDC00 \<and> 0xDC00 \<le> r2 \<and> r2 < 0xE000
             then Some (utf8_encode (0x10000 + (r - 0xD800) * 1024 + (r2 - 0xDC00)), 10)
             else Some (replacement_char, 4)
         | _ \<Rightarrow> Some (replacement_char, 4))
       else Some (utf8_encode r, 4))"

definition simple_escape :: "char \<Rightarrow> char option" where
  "simple_escape e =
     (if e = dquote \<or> e = backslash \<or> e = CHR ''/'' then Some e
      else if e = CHR ''b'' then Some (CHR 0x08)
      else if e = CHR ''f'' then Some (CHR 0x0C)
      else if e = CHR ''n'' then Some (CHR 0x0A)
      else if e = CHR ''r'' then Some (CHR 0x0D)
      else if e = CHR ''t'' then Some (CHR 0x09)
      else None)"

definition emit :: "token \<Rightarrow> token list option \<Rightarrow> token list option" where
  "emit t r = map_option (Cons t) r"

function (sequential) json_lex :: "string \<Rightarrow> token list option"
  and lex_str :: "string \<Rightarrow> string \<Rightarrow> token list option"
  and lex_num :: "string \<Rightarrow> string \<Rightarrow> token list option" where
  "json_lex [] = Some []"
| "json_lex (c # s) =
     (if json_space c then json_lex s
      else if c = CHR ''{'' then emit LBrace (json_lex s)
      else if c = CHR ''}'' then emit RBrace (json_lex s)
      else if c = CHR ''['' then emit LBrack (json_lex s)
      else if c = CHR '']'' then emit RBrack (json_lex s)
      else if c = CHR '':'' then emit Colon (json_lex s)
      else if c = CHR '','' then emit Comma (json_lex s)
      else if c = dquote then lex_str [] s
      else if c = CHR ''-'' \<or> is_digit c then lex_num [c] s
      else if take 4 (c # s) = ''true'' then emit (Scalar (JBool True)) (json_lex (drop 3 s))
      else if take 5 (c # s) = ''false'' then emit (Scalar (JBool False)) (json_lex (drop 4 s))
      else if take 4 (c # s) = ''null'' then emit (Scalar JNull) (json_lex (drop 3 s))
      else None)"
| "lex_str acc [] = None"
| "lex_str acc (c # s) =
     (if c = dquote then emit (Scalar (JStr acc)) (json_lex s)
      else if c = backslash
      then (case s of
           [] \<Rightarrow> None
         | e # t \<Rightarrow>
             if e = CHR ''u''
             then (case unicode_escape t of None \<Rightarrow> None | Some (bs, k) \<Rightarrow> lex_str (acc @ bs) (drop k t))
             else (case simple_escape e of None \<Rightarrow> None | Some b \<Rightarrow> lex_str (acc @ [b]) t))
      else if byte_val c < 32 then None
      else if byte_val c < 128 then lex_str (acc @ [c]) s
      else if utf8_seq (c # s) = 0 then lex_str (acc @ replacement_char) s
      else lex_str (acc @ take (utf8_seq (c # s)) (c # s)) (drop (utf8_seq (c # s) - 1) s))"
| "lex_num acc [] = (if valid_number acc then Some [Scalar (JNum acc)] else None)"
| "lex_num acc (c # s) =
     (if number_char c then lex_num (acc @ [c]) s
      else if valid_number acc then emit (Scalar (JNum acc)) (json_lex (c # s))
      else None)"
  by pat_completeness auto

termination
  by (relation "measure (\<lambda>x. case x of Inl s \<Rightarrow> 2 * length s
      | Inr (Inl (_, s)) \<Rightarrow> 2 * length s + 1 | Inr (Inr (_, s)) \<Rightarrow> 2 * length s + 1)") auto

declare json_lex.simps(2) [simp del] lex_str.simps(2) [simp del] lex_num.simps(2) [simp del]

text \<open>
  The automaton.  On the stack are the arrays and objects that are open; \<open>FKey ms k\<close> is an object
  whose key \<open>k\<close> waits for its value.
\<close>

datatype frame = FArr "json list" | FObj "(string \<times> json) list" | FKey "(string \<times> json) list" string

datatype jstate = Want | WantOrClose | WantKey | WantKeyOrClose | WantColon string | Got json

fun jrun :: "jstate \<Rightarrow> frame list \<Rightarrow> token list \<Rightarrow> (json \<times> token list) option" where
  "jrun st stack [] = (case (st, stack) of (Got v, []) \<Rightarrow> Some (v, []) | _ \<Rightarrow> None)"
| "jrun st stack (t # ts) = (case st of
     Got v \<Rightarrow> (case stack of
         [] \<Rightarrow> Some (v, t # ts)
       | FArr vs # fs \<Rightarrow> (case t of Comma \<Rightarrow> jrun Want (FArr (vs @ [v]) # fs) ts
           | RBrack \<Rightarrow> jrun (Got (JArr (vs @ [v]))) fs ts | _ \<Rightarrow> None)
       | FKey ms k # fs \<Rightarrow> (case t of Comma \<Rightarrow> jrun WantKey (FObj (ms @ [(k, v)]) # fs) ts
           | RBrace \<Rightarrow> jrun (Got (JObj (ms @ [(k, v)]))) fs ts | _ \<Rightarrow> None)
       | FObj ms # fs \<Rightarrow> None)
   | WantColon k \<Rightarrow> (case (t, stack) of (Colon, FObj ms # fs) \<Rightarrow> jrun Want (FKey ms k # fs) ts | _ \<Rightarrow> None)
   | WantKey \<Rightarrow> (case t of Scalar (JStr k) \<Rightarrow> jrun (WantColon k) stack ts | _ \<Rightarrow> None)
   | WantKeyOrClose \<Rightarrow> (case (t, stack) of (Scalar (JStr k), _) \<Rightarrow> jrun (WantColon k) stack ts
       | (RBrace, FObj ms # fs) \<Rightarrow> jrun (Got (JObj ms)) fs ts | _ \<Rightarrow> None)
   | _ \<Rightarrow> (case t of
         Scalar v \<Rightarrow> jrun (Got v) stack ts
       | LBrace \<Rightarrow> jrun WantKeyOrClose (FObj [] # stack) ts
       | LBrack \<Rightarrow> jrun WantOrClose (FArr [] # stack) ts
       | RBrack \<Rightarrow> (case (st, stack) of (WantOrClose, FArr vs # fs) \<Rightarrow> jrun (Got (JArr vs)) fs ts | _ \<Rightarrow> None)
       | _ \<Rightarrow> None))"

text \<open>One JSON text and nothing after it.\<close>

definition json_parse :: "string \<Rightarrow> json option" where
  "json_parse raw = (case json_lex raw of None \<Rightarrow> None
     | Some ts \<Rightarrow> (case jrun Want [] ts of Some (v, []) \<Rightarrow> Some v | _ \<Rightarrow> None))"

section \<open>Reading a string that was written\<close>

lemma byte_val_char_of [simp]: "n < 256 \<Longrightarrow> byte_val (char_of n) = n"
  by (simp add: byte_val_def)

lemma char_of_byte_val: "byte_val c = n \<Longrightarrow> c = char_of n"
  by (auto simp: byte_val_def)

lemma inj_byte_val: "inj byte_val"
  by (auto simp: inj_def byte_val_def)

lemma byte_val_less: "byte_val c < 256"
  by (simp add: byte_val_def)

lemma hex_nibble_digit [simp]: "n < 16 \<Longrightarrow> hex_nibble (hex_digit n) = Some n"
  by (auto simp: hex_nibble_def hex_digit_def Let_def byte_val_def)

lemma lex_str_simple:
  "e \<noteq> CHR ''u'' \<Longrightarrow> simple_escape e = Some b \<Longrightarrow> lex_str acc (backslash # e # r) = lex_str (acc @ [b]) r"
  by (simp add: lex_str.simps(2) dquote_def backslash_def)

lemma lex_str_unicode:
  "unicode_escape t = Some (bs, k) \<Longrightarrow> lex_str acc (backslash # CHR ''u'' # t) = lex_str (acc @ bs) (drop k t)"
  by (simp add: lex_str.simps(2) dquote_def backslash_def)

lemma unicode_escape_byte:
  assumes "n < 128"
  shows "unicode_escape (''00'' @ [hex_digit (n div 16), hex_digit (n mod 16)] @ r) = Some ([char_of n], 4)"
proof -
  have "n div 16 < 16" "n div 16 * 16 + n mod 16 = n" using assms by auto
  moreover have "hex_nibble (CHR ''0'') = Some 0" by (simp add: hex_nibble_def byte_val_def)
  ultimately have "hex4 (''00'' @ [hex_digit (n div 16), hex_digit (n mod 16)] @ r) = Some n"
    by (simp add: hex4_def)
  then show ?thesis using assms by (simp add: unicode_escape_def utf8_encode_def)
qed

lemma short_escapes:
  "escape_ascii (CHR 0x08) = [backslash, CHR ''b'']" "escape_ascii (CHR 0x09) = [backslash, CHR ''t'']"
  "escape_ascii (CHR 0x0A) = [backslash, CHR ''n'']" "escape_ascii (CHR 0x0C) = [backslash, CHR ''f'']"
  "escape_ascii (CHR 0x0D) = [backslash, CHR ''r'']"
  "simple_escape (CHR ''b'') = Some (CHR 0x08)" "simple_escape (CHR ''t'') = Some (CHR 0x09)"
  "simple_escape (CHR ''n'') = Some (CHR 0x0A)" "simple_escape (CHR ''f'') = Some (CHR 0x0C)"
  "simple_escape (CHR ''r'') = Some (CHR 0x0D)"
  by (simp_all add: escape_ascii_def simple_escape_def dquote_def backslash_def byte_val_def)

lemma lex_str_ascii:
  assumes "byte_val c < 128"
  shows "lex_str acc (escape_ascii c @ r) = lex_str (acc @ [c]) r"
proof -
  let ?n = "byte_val c"
  have c: "c = char_of ?n" by (rule char_of_byte_val) simp
  consider (Quote) "c = dquote \<or> c = backslash" | (Short) "c \<noteq> dquote" "c \<noteq> backslash" "?n \<in> {8, 9, 10, 12, 13}"
    | (Hex) "c \<noteq> dquote" "c \<noteq> backslash" "?n \<notin> {8, 9, 10, 12, 13}" "?n < 32 \<or> c \<in> set ''<>&''"
    | (Plain) "c \<noteq> dquote" "c \<noteq> backslash" "?n \<notin> {8, 9, 10, 12, 13}" "\<not> (?n < 32 \<or> c \<in> set ''<>&'')"
    by blast
  then show ?thesis
  proof cases
    case Quote
    then have "c \<noteq> CHR ''u''" "simple_escape c = Some c" by (auto simp: dquote_def backslash_def simple_escape_def)
    with Quote show ?thesis by (simp add: escape_ascii_def lex_str_simple)
  next
    case Short
    then have "byte_val c \<in> byte_val ` {CHR 0x08, CHR 0x09, CHR 0x0A, CHR 0x0C, CHR 0x0D}" by (simp add: byte_val_def)
    then have "c \<in> {CHR 0x08, CHR 0x09, CHR 0x0A, CHR 0x0C, CHR 0x0D}" by (simp only: inj_image_mem_iff [OF inj_byte_val])
    then show ?thesis
      by (elim insertE) (simp_all add: short_escapes lex_str_simple)
  next
    case Hex
    then have "escape_ascii c = backslash # ''u00'' @ [hex_digit (?n div 16), hex_digit (?n mod 16)]"
      by (simp add: escape_ascii_def Let_def)
    moreover have "unicode_escape (''00'' @ [hex_digit (?n div 16), hex_digit (?n mod 16)] @ r) = Some ([c], 4)"
      using unicode_escape_byte [OF assms] c by simp
    ultimately show ?thesis
      using lex_str_unicode [of "''00'' @ [hex_digit (?n div 16), hex_digit (?n mod 16)] @ r" "[c]" 4 acc] by simp
  next
    case Plain
    then have "escape_ascii c = [c]" by (simp add: escape_ascii_def Let_def)
    with Plain assms show ?thesis by (simp add: lex_str.simps(2))
  qed
qed

text \<open>The length of a rune is decided by its own bytes.\<close>

lemma utf8_seq_take:
  assumes "utf8_seq s = k" and "k \<noteq> 0"
  shows "utf8_seq (take k s @ r) = k" and "k \<le> length s"
  using assms by (auto simp: utf8_seq_def split: list.splits if_splits)

lemma lex_str_seq:
  assumes "128 \<le> byte_val c" and "utf8_seq (c # s) = k" and "k \<noteq> 0"
  shows "lex_str acc (take k (c # s) @ r) = lex_str (acc @ take k (c # s)) r"
proof -
  obtain j where k: "k = Suc j" using assms(3) by (cases k) auto
  have len: "length (take j s) = j" using utf8_seq_take(2) [OF assms(2,3)] k by simp
  have "utf8_seq (c # take j s @ r) = k" using utf8_seq_take(1) [OF assms(2,3), of r] k by simp
  moreover have "c \<noteq> dquote" "c \<noteq> backslash" using assms(1) by (auto simp: dquote_def backslash_def byte_val_def)
  ultimately show ?thesis using assms(1) len k by (simp add: lex_str.simps(2))
qed

lemma char_ofI: "(of_char c :: nat) = n \<Longrightarrow> char_of n = c"
  by auto

lemma separator_bytes:
  "char_of (226 :: nat) = CHR 0xE2" "char_of (128 :: nat) = CHR 0x80" "char_of (168 :: nat) = CHR 0xA8" "char_of (169 :: nat) = CHR 0xA9"
  by (rule char_ofI, simp)+

lemma unicode_escape_separators:
  "unicode_escape (''2028'' @ r) = Some ([CHR 0xE2, CHR 0x80, CHR 0xA8], 4)"
  "unicode_escape (''2029'' @ r) = Some ([CHR 0xE2, CHR 0x80, CHR 0xA9], 4)"
  by (simp_all add: unicode_escape_def hex4_def hex_nibble_def byte_val_def utf8_encode_def separator_bytes)

lemma lex_str_escape:
  "valid_utf8 s \<Longrightarrow> lex_str acc (json_escape s @ dquote # r) = emit (Scalar (JStr (acc @ s))) (json_lex r)"
proof (induction s arbitrary: acc rule: valid_utf8.induct)
  case 1
  then show ?case by (simp add: lex_str.simps(2))
next
  case (2 c s)
  show ?case
  proof (cases "byte_val c < 128")
    case True
    with 2 show ?thesis using lex_str_ascii [OF True, of acc] by simp
  next
    case False
    let ?k = "utf8_seq (c # s)"
    let ?head = "if take 3 (c # s) = [CHR 0xE2, CHR 0x80, CHR 0xA8] then backslash # ''u2028''
        else if take 3 (c # s) = [CHR 0xE2, CHR 0x80, CHR 0xA9] then backslash # ''u2029'' else take ?k (c # s)"
    from 2(3) False have k: "?k \<noteq> 0" "valid_utf8 (drop (?k - 1) s)" by auto
    have split: "take ?k (c # s) @ drop (?k - 1) s = c # s" using k(1) by (cases ?k) auto
    have sep: "take ?k (c # s) = take 3 (c # s)" if "take 2 (c # s) = [CHR 0xE2, CHR 0x80]"
    proof -
      from that obtain s' where "c = CHR 0xE2" "s = CHR 0x80 # s'" by (cases s) auto
      with k(1) show ?thesis by (auto simp: utf8_seq_def trail_def byte_val_def split: list.splits if_splits)
    qed
    have "lex_str acc (?head @ t) = lex_str (acc @ take ?k (c # s)) t" for t
    proof -
      consider (A) "take 3 (c # s) = [CHR 0xE2, CHR 0x80, CHR 0xA8]" | (B) "take 3 (c # s) = [CHR 0xE2, CHR 0x80, CHR 0xA9]"
        | (C) "take 3 (c # s) \<noteq> [CHR 0xE2, CHR 0x80, CHR 0xA8]" "take 3 (c # s) \<noteq> [CHR 0xE2, CHR 0x80, CHR 0xA9]" by blast
      then show ?thesis
      proof cases
        case A
        then have "take 2 (c # s) = [CHR 0xE2, CHR 0x80]" by (cases s) auto
        with A sep lex_str_unicode [OF unicode_escape_separators(1), of acc t] show ?thesis by simp
      next
        case B
        then have "take 2 (c # s) = [CHR 0xE2, CHR 0x80]" by (cases s) auto
        with B sep lex_str_unicode [OF unicode_escape_separators(2), of acc t] show ?thesis by simp
      next
        case C
        with lex_str_seq [of c s ?k acc t] False k(1) show ?thesis unfolding if_not_P [OF C(1)] if_not_P [OF C(2)] by simp
      qed
    qed
    moreover have "json_escape (c # s) = ?head @ json_escape (drop (?k - 1) s)" using False k(1) by simp
    ultimately show ?thesis using 2(2) [OF False _] k split by (simp del: json_escape.simps)
  qed
qed

section \<open>Reading an object that was written\<close>

primrec scalar_json :: "scalar \<Rightarrow> json" where
  "scalar_json (SInt i) = JNum (FormatInt i)"
| "scalar_json (SStr s) = JStr s"

primrec scalar_ok :: "scalar \<Rightarrow> bool" where
  "scalar_ok (SInt i) = True"
| "scalar_ok (SStr s) = valid_utf8 s"

lemma lex_num_digits:
  "list_all number_char ds \<Longrightarrow> \<not> number_char c \<Longrightarrow>
     lex_num acc (ds @ c # r) = (if valid_number (acc @ ds) then emit (Scalar (JNum (acc @ ds))) (json_lex (c # r)) else None)"
  by (induction ds arbitrary: acc) (simp_all add: lex_num.simps(2))

lemma format_nat_is_digit: "list_all is_digit (format_nat n)"
  using format_nat_digits [of _ n] by (auto simp: list_all_iff is_digit_def)

lemma format_nat_leading: "0 < n \<Longrightarrow> hd (format_nat n) \<noteq> CHR ''0''"
proof (induction n rule: format_nat.induct)
  case (1 n)
  show ?case
  proof (cases "n < 10")
    case True
    have "digit_value (digit_char n) = Some n" using True by simp
    moreover have "digit_value (CHR ''0'') = Some 0" by (simp add: digit_value_def)
    ultimately have "digit_char n \<noteq> CHR ''0''" using 1(2) by (metis option.inject less_irrefl)
    then show ?thesis using True by (simp add: format_nat.simps [of n])
  next
    case False
    with 1(1) have "hd (format_nat (n div 10)) \<noteq> CHR ''0''" by auto
    then show ?thesis using False by (simp add: format_nat.simps [of n])
  qed
qed

lemma valid_number_nat: "valid_number (format_nat n)" "valid_number (CHR ''-'' # format_nat n)"
proof -
  obtain c t where ct: "format_nat n = c # t" by (cases "format_nat n") auto
  then have d: "is_digit c" "list_all is_digit t" using format_nat_is_digit [of n] by auto
  then have "c \<noteq> CHR ''-''" by (auto simp: is_digit_def)
  moreover have "(if c = CHR ''0'' then valid_fraction t else is_digit c \<and> valid_fraction (dropWhile is_digit t))"
  proof (cases "c = CHR ''0''")
    case True
    then have "n = 0" using format_nat_leading [of n] ct by auto
    then have "t = []" using ct by (simp add: format_nat.simps)
    with True show ?thesis by (simp add: valid_fraction_def)
  next
    case False
    have "dropWhile is_digit t = []" using d(2) by (simp add: list_all_iff)
    then have "valid_fraction (dropWhile is_digit t)" by (simp only: valid_fraction_def list.case)
    with False d(1) show ?thesis by simp
  qed
  ultimately show "valid_number (format_nat n)" "valid_number (CHR ''-'' # format_nat n)"
    by (simp_all add: valid_number_def ct)
qed

text \<open>The characters that open a token.\<close>

lemma lex_punctuation [simp]:
  "json_lex (CHR ''{'' # s) = emit LBrace (json_lex s)" "json_lex (CHR ''}'' # s) = emit RBrace (json_lex s)"
  "json_lex (CHR '':'' # s) = emit Colon (json_lex s)" "json_lex (CHR '','' # s) = emit Comma (json_lex s)"
  "json_lex (dquote # s) = lex_str [] s"
  by (simp_all add: json_lex.simps(2) json_space_def byte_val_def dquote_def)

lemma not_number_char [simp]: "\<not> number_char (CHR '','')" "\<not> number_char (CHR ''}'')"
  by (simp_all add: number_char_def is_digit_def digit_value_def)

lemma lex_scalar:
  assumes "scalar_ok v" and "\<not> number_char c"
  shows "json_lex (scalar_text v @ c # r) = emit (Scalar (scalar_json v)) (json_lex (c # r))"
proof (cases v)
  case (SStr s)
  with assms(1) show ?thesis by (simp add: json_string_def lex_str_escape)
next
  case (SInt i)
  obtain d t where dt: "FormatInt i = d # t" by (cases "FormatInt i") (auto simp: FormatInt_def split: if_splits)
  have valid: "valid_number (FormatInt i)" by (simp add: FormatInt_def valid_number_nat)
  have nums: "list_all number_char (FormatInt i)"
    using format_nat_is_digit by (auto simp: FormatInt_def list_all_iff number_char_def)
  have "d = CHR ''-'' \<or> is_digit d"
    using dt format_nat_is_digit [of "nat i"] by (cases "i < 0") (auto simp: FormatInt_def)
  moreover from this have "\<not> json_space d" "d \<notin> set ''{}[]:,''" "d \<noteq> dquote"
    by (auto simp: is_digit_def digit_value_def json_space_def byte_val_def dquote_def)
  ultimately have "json_lex (FormatInt i @ c # r) = lex_num [d] (t @ c # r)" by (simp add: dt json_lex.simps(2))
  also have "\<dots> = emit (Scalar (JNum (FormatInt i))) (json_lex (c # r))"
    using lex_num_digits [of t c "[d]" r] nums valid assms(2) dt by simp
  finally show ?thesis by (simp add: SInt)
qed

definition member_tokens :: "string \<times> scalar \<Rightarrow> token list" where
  "member_tokens m = [Scalar (JStr (fst m)), Colon, Scalar (scalar_json (snd m))]"

definition member_ok :: "string \<times> scalar \<Rightarrow> bool" where
  "member_ok m = (valid_utf8 (fst m) \<and> scalar_ok (snd m))"

fun members_tokens :: "(string \<times> scalar) list \<Rightarrow> token list" where
  "members_tokens [] = []"
| "members_tokens [m] = member_tokens m"
| "members_tokens (m # ms) = member_tokens m @ Comma # members_tokens ms"

definition emits :: "token list \<Rightarrow> token list option \<Rightarrow> token list option" where
  "emits ts r = map_option (append ts) r"

lemma emit_emits [simp]: "emit t (emits ts r) = emits (t # ts) r" "emits [] r = r"
    "emits xs (emits ys r) = emits (xs @ ys) r" "emits (t # []) r = emit t r"
  by (cases r; simp add: emit_def emits_def)+

lemma lex_member:
  assumes "member_ok m" and "\<not> number_char c"
  shows "json_lex (member_text m @ c # r) = emits (member_tokens m) (json_lex (c # r))"
proof -
  have "json_lex (member_text m @ c # r) = emit (Scalar (JStr (fst m))) (json_lex (CHR '':'' # scalar_text (snd m) @ c # r))"
    using assms(1) lex_str_escape [of "fst m" "[]"] by (simp add: member_text_def json_string_def member_ok_def)
  also have "\<dots> = emits (member_tokens m) (json_lex (c # r))"
    using assms by (simp add: lex_scalar member_ok_def member_tokens_def emit_def emits_def option.map_comp comp_def append_Cons [abs_def])
  finally show ?thesis .
qed

lemma lex_members:
  assumes "list_all member_ok ms" and "\<not> number_char c"
  shows "json_lex (members_text ms @ c # r) = emits (members_tokens ms) (json_lex (c # r))"
  using assms(1)
proof (induction ms rule: members_text.induct)
  case (3 m m' ms)
  then have "json_lex (members_text (m # m' # ms) @ c # r) =
      emits (member_tokens m) (emit Comma (json_lex (members_text (m' # ms) @ c # r)))"
    using lex_member [of m "CHR '',''" "members_text (m' # ms) @ c # r"] by simp
  with 3 show ?case by simp
qed (simp_all add: lex_member assms(2))

lemma jrun_members:
  "ms \<noteq> [] \<Longrightarrow> st = WantKey \<or> st = WantKeyOrClose \<Longrightarrow>
   jrun st (FObj acc # fs) (members_tokens ms @ RBrace # ts) =
     jrun (Got (JObj (acc @ map (\<lambda>(k, v). (k, scalar_json v)) ms))) fs ts"
proof (induction ms arbitrary: st acc rule: members_tokens.induct)
  case (2 m)
  then show ?case by (cases m) (auto simp: member_tokens_def)
next
  case (3 m m' ms)
  then show ?case by (cases m) (auto simp: member_tokens_def)
qed simp

text \<open>The round trip of an object.\<close>

lemma json_parse_object:
  assumes "list_all member_ok ms" and "ms \<noteq> []"
  shows "json_parse (object_text ms) = Some (JObj (map (\<lambda>(k, v). (k, scalar_json v)) ms))"
proof -
  have "json_lex (object_text ms) = Some (LBrace # members_tokens ms @ [RBrace])"
    using lex_members [OF assms(1), of "CHR ''}''" "[]"] by (simp add: object_text_def emit_def emits_def)
  moreover have "jrun Want [] (LBrace # members_tokens ms @ [RBrace]) =
      Some (JObj (map (\<lambda>(k, v). (k, scalar_json v)) ms), [])"
    using jrun_members [of ms WantKeyOrClose "[]" "[]" "[]"] assms(2) by simp
  ultimately show ?thesis by (simp add: json_parse_def)
qed

end
