(* ===== verification/Cursor.thy ===== *)
theory Cursor
  imports Base64 Json OrderedIndex
begin

text \<open>
  The cursors of \<open>ListRanked\<close> and \<open>ListDue\<close> (\<open>internal/orderedindex/orderedindex.go\<close>): a
  JSON envelope with version, kind, the query and the position of the last record, in URL-safe
  base64.  A cursor is accepted only if it is the canonical encoding of an envelope of this
  version, of the right kind and for the same query.
\<close>

section \<open>The envelope\<close>

record cursor_envelope =
  env_Version :: int
  env_Kind :: string
  env_Namespace :: string
  env_RankingScope :: string
  env_DueBound :: "int option"
  env_Position :: int
  env_StableKey :: string
  env_OrderingScope :: string

definition cursorVersion :: int where "cursorVersion = 1"

definition maxCursorEncoded :: nat where "maxCursorEncoded = 4096"

definition maxCursorDecoded :: nat where "maxCursorDecoded = 3072"

text \<open>The fields in the order of the struct; \<open>omitempty\<close> leaves out an empty scope and a nil bound.\<close>

definition envelope_members :: "cursor_envelope \<Rightarrow> (string \<times> scalar) list" where
  "envelope_members e =
     [(''v'', SInt (env_Version e)), (''k'', SStr (env_Kind e)), (''n'', SStr (env_Namespace e))] @
     (if env_RankingScope e = [] then [] else [(''s'', SStr (env_RankingScope e))]) @
     (case env_DueBound e of None \<Rightarrow> [] | Some b \<Rightarrow> [(''b'', SInt b)]) @
     [(''p'', SInt (env_Position e)), (''x'', SStr (env_StableKey e)), (''o'', SStr (env_OrderingScope e))]"

definition Marshal :: "cursor_envelope \<Rightarrow> string" where
  "Marshal e = object_text (envelope_members e)"

definition encodeCursor :: "cursor_envelope \<Rightarrow> string" where
  "encodeCursor e = EncodeToString (Marshal e)"

primrec kind_text :: "storage_api \<Rightarrow> cursor_kind \<Rightarrow> string" where
  "kind_text api RankedCursorKind = RankedCursorKind_text api"
| "kind_text api DueCursorKind = DueCursorKind_text api"

definition ranked_envelope :: "storage_api \<Rightarrow> string \<Rightarrow> string \<Rightarrow> position \<Rightarrow> cursor_envelope" where
  "ranked_envelope api ns scope p =
     \<lparr>env_Version = cursorVersion, env_Kind = kind_text api RankedCursorKind, env_Namespace = ns, env_RankingScope = scope,
      env_DueBound = None, env_Position = pos_value p, env_StableKey = pos_StableKey p, env_OrderingScope = pos_OrderingScope p\<rparr>"

definition due_envelope :: "storage_api \<Rightarrow> string \<Rightarrow> int \<Rightarrow> position \<Rightarrow> cursor_envelope" where
  "due_envelope api ns bound p =
     \<lparr>env_Version = cursorVersion, env_Kind = kind_text api DueCursorKind, env_Namespace = ns, env_RankingScope = [],
      env_DueBound = Some bound, env_Position = pos_value p, env_StableKey = pos_StableKey p, env_OrderingScope = pos_OrderingScope p\<rparr>"

definition ranked_position :: "ordered_record \<Rightarrow> position" where
  "ranked_position r = \<lparr>pos_value = rank_Value (rec_Rank r), pos_StableKey = StableKey (rec_ID r),
     pos_OrderingScope = OrderingScope (rec_ID r)\<rparr>"

definition due_position :: "ordered_record \<Rightarrow> position" where
  "due_position r = \<lparr>pos_value = due_UnixMillis (rec_Due r), pos_StableKey = StableKey (rec_ID r),
     pos_OrderingScope = OrderingScope (rec_ID r)\<rparr>"

definition encodeRankedCursor :: "storage_api \<Rightarrow> string \<Rightarrow> string \<Rightarrow> ordered_record \<Rightarrow> string" where
  "encodeRankedCursor api ns scope r = encodeCursor (ranked_envelope api ns scope (ranked_position r))"

definition encodeDueCursor :: "storage_api \<Rightarrow> string \<Rightarrow> int \<Rightarrow> ordered_record \<Rightarrow> string" where
  "encodeDueCursor api ns bound r = encodeCursor (due_envelope api ns bound (due_position r))"

section \<open>Decoding into a struct\<close>

text \<open>
  A key matches the field of a one-letter name exactly or up to case folding; the Kelvin sign
  folds to \<open>k\<close> and the long s to \<open>s\<close>.
\<close>

definition matches :: "char \<Rightarrow> string \<Rightarrow> bool" where
  "matches f key = (key = [f] \<or> key = [char_of ((of_char f :: nat) - 32)] \<or>
     (f = CHR ''k'' \<and> key = [CHR 0xE2, CHR 0x84, CHR 0xAA]) \<or> (f = CHR ''s'' \<and> key = [CHR 0xC5, CHR 0xBF]))"

text \<open>Storing a value into a pointer, an integer and a string: \<open>None\<close> is a type error.\<close>

definition store_int_ptr :: "json \<Rightarrow> int option option" where
  "store_int_ptr j = (case j of JNull \<Rightarrow> Some None | JNum t \<Rightarrow> map_option Some (Atoi t) | _ \<Rightarrow> None)"

definition store_string_ptr :: "json \<Rightarrow> string option option" where
  "store_string_ptr j = (case j of JNull \<Rightarrow> Some None | JStr s \<Rightarrow> Some (Some s) | _ \<Rightarrow> None)"

definition store_int :: "json \<Rightarrow> int \<Rightarrow> int option" where
  "store_int j old = (case j of JNull \<Rightarrow> Some old | JNum t \<Rightarrow> Atoi t | _ \<Rightarrow> None)"

definition store_string :: "json \<Rightarrow> string \<Rightarrow> string option" where
  "store_string j old = (case j of JNull \<Rightarrow> Some old | JStr s \<Rightarrow> Some s | _ \<Rightarrow> None)"

text \<open>\<open>json.Unmarshal\<close> into the header struct, which ignores other fields.\<close>

fun header_fields :: "(string \<times> json) list \<Rightarrow> int option \<Rightarrow> string option \<Rightarrow> (int option \<times> string option) option" where
  "header_fields [] ver kind = Some (ver, kind)"
| "header_fields ((key, j) # ms) ver kind =
     (if matches (CHR ''v'') key then Option.bind (store_int_ptr j) (\<lambda>x. header_fields ms x kind)
      else if matches (CHR ''k'') key then Option.bind (store_string_ptr j) (\<lambda>x. header_fields ms ver x)
      else header_fields ms ver kind)"

definition decode_header :: "json \<Rightarrow> (int option \<times> string option) option" where
  "decode_header j = (case j of JObj ms \<Rightarrow> header_fields ms None None | JNull \<Rightarrow> Some (None, None) | _ \<Rightarrow> None)"

text \<open>\<open>decoder.Decode\<close> into the envelope, with unknown fields disallowed.\<close>

fun envelope_fields :: "(string \<times> json) list \<Rightarrow> cursor_envelope \<Rightarrow> cursor_envelope option" where
  "envelope_fields [] e = Some e"
| "envelope_fields ((key, j) # ms) e =
     (if matches (CHR ''v'') key
      then Option.bind (store_int j (env_Version e)) (\<lambda>x. envelope_fields ms (e\<lparr>env_Version := x\<rparr>))
      else if matches (CHR ''k'') key
      then Option.bind (store_string j (env_Kind e)) (\<lambda>x. envelope_fields ms (e\<lparr>env_Kind := x\<rparr>))
      else if matches (CHR ''n'') key
      then Option.bind (store_string j (env_Namespace e)) (\<lambda>x. envelope_fields ms (e\<lparr>env_Namespace := x\<rparr>))
      else if matches (CHR ''s'') key
      then Option.bind (store_string j (env_RankingScope e)) (\<lambda>x. envelope_fields ms (e\<lparr>env_RankingScope := x\<rparr>))
      else if matches (CHR ''b'') key
      then Option.bind (store_int_ptr j) (\<lambda>x. envelope_fields ms (e\<lparr>env_DueBound := x\<rparr>))
      else if matches (CHR ''p'') key
      then Option.bind (store_int j (env_Position e)) (\<lambda>x. envelope_fields ms (e\<lparr>env_Position := x\<rparr>))
      else if matches (CHR ''x'') key
      then Option.bind (store_string j (env_StableKey e)) (\<lambda>x. envelope_fields ms (e\<lparr>env_StableKey := x\<rparr>))
      else if matches (CHR ''o'') key
      then Option.bind (store_string j (env_OrderingScope e)) (\<lambda>x. envelope_fields ms (e\<lparr>env_OrderingScope := x\<rparr>))
      else None)"

definition zero_envelope :: cursor_envelope where
  "zero_envelope = \<lparr>env_Version = 0, env_Kind = [], env_Namespace = [], env_RankingScope = [], env_DueBound = None,
     env_Position = 0, env_StableKey = [], env_OrderingScope = []\<rparr>"

definition decode_envelope :: "json \<Rightarrow> cursor_envelope option" where
  "decode_envelope j = (case j of JObj ms \<Rightarrow> envelope_fields ms zero_envelope | JNull \<Rightarrow> Some zero_envelope | _ \<Rightarrow> None)"

text \<open>A second \<open>decoder.Decode(&struct{}{})\<close> succeeds on \<open>null\<close> and the empty object.\<close>

definition decodes_again :: "string \<Rightarrow> bool" where
  "decodes_again raw = (case Option.bind (json_lex raw) (jrun Want []) of
     None \<Rightarrow> False
   | Some (_, rest) \<Rightarrow> (case jrun Want [] rest of Some (JNull, _) \<Rightarrow> True | Some (JObj [], _) \<Rightarrow> True | _ \<Rightarrow> False))"

section \<open>Decoding a cursor\<close>

definition cursorError :: "cursor_kind \<Rightarrow> string \<Rightarrow> cursor_rule \<Rightarrow> 'a result" where
  "cursorError kind cursor rule = Inl (InvalidOrderedCursor kind cursor rule)"

text \<open>From the envelope on: canonical form and validation.\<close>

definition check_envelope :: "storage_api \<Rightarrow> string \<Rightarrow> cursor_kind \<Rightarrow> string \<Rightarrow> json \<Rightarrow> cursor_envelope result" where
  "check_envelope api cursor expected raw j = (case decode_envelope j of
     None \<Rightarrow> cursorError expected cursor CursorMalformed
   | Some e \<Rightarrow>
       if decodes_again raw then cursorError expected cursor CursorMalformed
       else if Marshal e \<noteq> raw then cursorError expected cursor CursorMalformed
       else if ValidateName api (env_Namespace e) \<noteq> None \<or> ValidateStableKey api (env_StableKey e) \<noteq> None \<or>
         ValidateName api (env_OrderingScope e) \<noteq> None
       then cursorError expected cursor CursorMalformed
       else if env_RankingScope e \<noteq> [] \<and> ValidateName api (env_RankingScope e) \<noteq> None
       then cursorError expected cursor CursorMalformed
       else Inr e)"

definition decodeCursor :: "storage_api \<Rightarrow> string \<Rightarrow> cursor_kind \<Rightarrow> cursor_envelope result" where
  "decodeCursor api cursor expected =
     (if length cursor > maxCursorEncoded then cursorError expected cursor CursorMalformed
      else case DecodeString cursor of
        None \<Rightarrow> cursorError expected cursor CursorMalformed
      | Some raw \<Rightarrow>
          if raw = [] \<or> length raw > maxCursorDecoded then cursorError expected cursor CursorMalformed
          else (case json_parse raw of
            None \<Rightarrow> cursorError expected cursor CursorMalformed
          | Some j \<Rightarrow> (case decode_header j of
              Some (Some version, Some kind) \<Rightarrow>
                if version \<noteq> cursorVersion then cursorError expected cursor CursorUnknownVersion
                else if kind \<noteq> kind_text api expected
                then if kind = kind_text api RankedCursorKind \<or> kind = kind_text api DueCursorKind
                     then cursorError expected cursor CursorWrongKind
                     else cursorError expected cursor CursorMalformed
                else check_envelope api cursor expected raw j
            | _ \<Rightarrow> cursorError expected cursor CursorMalformed)))"

definition envelope_position :: "cursor_envelope \<Rightarrow> position" where
  "envelope_position e = \<lparr>pos_value = env_Position e, pos_StableKey = env_StableKey e, pos_OrderingScope = env_OrderingScope e\<rparr>"

definition decodeRankedCursor :: "storage_api \<Rightarrow> string \<Rightarrow> string \<Rightarrow> string \<Rightarrow> position option result" where
  "decodeRankedCursor api cursor ns scope =
     (if cursor = [] then Inr None
      else case decodeCursor api cursor RankedCursorKind of
        Inl e \<Rightarrow> Inl e
      | Inr e \<Rightarrow>
          if env_RankingScope e = [] \<or> env_DueBound e \<noteq> None then cursorError RankedCursorKind cursor CursorMalformed
          else if env_Namespace e \<noteq> ns \<or> env_RankingScope e \<noteq> scope
          then cursorError RankedCursorKind cursor CursorQueryMismatch
          else Inr (Some (envelope_position e)))"

definition decodeDueCursor :: "storage_api \<Rightarrow> string \<Rightarrow> string \<Rightarrow> int \<Rightarrow> position option result" where
  "decodeDueCursor api cursor ns bound =
     (if cursor = [] then Inr None
      else case decodeCursor api cursor DueCursorKind of
        Inl e \<Rightarrow> Inl e
      | Inr e \<Rightarrow> (case env_DueBound e of
            None \<Rightarrow> cursorError DueCursorKind cursor CursorMalformed
          | Some b \<Rightarrow>
              if env_RankingScope e \<noteq> [] then cursorError DueCursorKind cursor CursorMalformed
              else if env_Namespace e \<noteq> ns \<or> b \<noteq> bound then cursorError DueCursorKind cursor CursorQueryMismatch
              else Inr (Some (envelope_position e))))"

end
