(* ===== verification/CursorProperties.thy ===== *)
theory CursorProperties
  imports Cursor
begin

text \<open>
  The cursors round-trip; what is accepted is the encoding of the very query and position; and
  every other cursor is refused with the rule that it breaks.
\<close>

section \<open>The envelope as JSON\<close>

definition int64 :: "int \<Rightarrow> bool" where
  "int64 i \<longleftrightarrow> - max_int64 - 1 \<le> i \<and> i \<le> max_int64"

text \<open>An envelope Go can write and read back: strings in UTF-8, integers in range.\<close>

definition envelope_ok :: "cursor_envelope \<Rightarrow> bool" where
  "envelope_ok e \<longleftrightarrow> int64 (env_Version e) \<and> int64 (env_Position e) \<and> (case env_DueBound e of None \<Rightarrow> True | Some b \<Rightarrow> int64 b) \<and>
     valid_utf8 (env_Kind e) \<and> valid_utf8 (env_Namespace e) \<and> valid_utf8 (env_RankingScope e) \<and>
     valid_utf8 (env_StableKey e) \<and> valid_utf8 (env_OrderingScope e)"

lemma matches_letters:
  assumes "f \<in> set ''vknsbpxo''" and "c \<in> set ''vknsbpxo''"
  shows "matches f [c] \<longleftrightarrow> f = c"
proof -
  have "list_all (\<lambda>f. list_all (\<lambda>c. matches f [c] = (f = c)) ''vknsbpxo'') ''vknsbpxo''" by code_simp
  with assms show ?thesis by (auto simp: list_all_iff)
qed

lemmas envelope_keys = matches_letters [of "CHR ''v''"] matches_letters [of "CHR ''k''"] matches_letters [of "CHR ''n''"]
  matches_letters [of "CHR ''s''"] matches_letters [of "CHR ''b''"] matches_letters [of "CHR ''p''"]
  matches_letters [of "CHR ''x''"] matches_letters [of "CHR ''o''"]

lemma stores [simp]:
  "int64 i \<Longrightarrow> store_int (JNum (FormatInt i)) old = Some i"
  "int64 i \<Longrightarrow> store_int_ptr (JNum (FormatInt i)) = Some (Some i)"
  "store_string (JStr s) t = Some s" "store_string_ptr (JStr s) = Some (Some s)"
  by (simp_all add: store_int_def store_int_ptr_def store_string_def store_string_ptr_def int64_def Atoi_FormatInt)

lemma Marshal_parse:
  assumes "envelope_ok e"
  shows "json_parse (Marshal e) = Some (JObj (map (\<lambda>(k, v). (k, scalar_json v)) (envelope_members e)))"
  unfolding Marshal_def using assms
  by (intro json_parse_object)
    (auto simp: envelope_members_def envelope_ok_def member_ok_def byte_val_def split: option.splits)

lemma Marshal_header:
  assumes "envelope_ok e"
  shows "decode_header (JObj (map (\<lambda>(k, v). (k, scalar_json v)) (envelope_members e))) =
    Some (Some (env_Version e), Some (env_Kind e))"
  using assms
  by (auto simp: envelope_members_def envelope_ok_def decode_header_def envelope_keys split: option.splits)

lemma Marshal_envelope:
  assumes "envelope_ok e"
  shows "decode_envelope (JObj (map (\<lambda>(k, v). (k, scalar_json v)) (envelope_members e))) = Some e"
  using assms
  by (cases "env_DueBound e"; cases "env_RankingScope e = []")
    (simp_all add: envelope_members_def envelope_ok_def decode_envelope_def zero_envelope_def envelope_keys)

lemma parsed_once: "json_parse raw = Some j \<Longrightarrow> \<not> decodes_again raw"
  by (auto simp: json_parse_def decodes_again_def split: option.splits prod.splits list.splits)

lemma Marshal_not_Nil [simp]: "Marshal e \<noteq> []"
  by (simp add: Marshal_def object_text_def)

section \<open>Sizes\<close>

lemma length_sextets: "length (sextets bs) = (4 * length bs + 2) div 3"
  by (induction bs rule: sextets.induct) auto

lemma EncodeToString_length: "length raw \<le> maxCursorDecoded \<Longrightarrow> length (EncodeToString raw) \<le> maxCursorEncoded"
  by (simp add: EncodeToString_def length_sextets maxCursorDecoded_def maxCursorEncoded_def)

lemma encodeCursor_not_Nil [simp]: "encodeCursor e \<noteq> []"
proof
  assume "encodeCursor e = []"
  then have "DecodeString (encodeCursor e) = Some []" by (simp add: DecodeString_def)
  then show False by (simp add: encodeCursor_def)
qed

section \<open>Decoding\<close>

text \<open>The header and the envelope of a text agree on version and kind.\<close>

lemma fields_agree:
  assumes "header_fields ms ver kind = Some (Some v, Some k)" and "envelope_fields ms e = Some e'"
    and "\<And>x. ver = Some x \<Longrightarrow> env_Version e = x" and "\<And>x. kind = Some x \<Longrightarrow> env_Kind e = x"
  shows "env_Version e' = v \<and> env_Kind e' = k"
  using assms
proof (induction ms ver kind arbitrary: e rule: header_fields.induct)
  case (2 key j ms ver kind)
  consider (V) "matches (CHR ''v'') key" | (K) "\<not> matches (CHR ''v'') key" "matches (CHR ''k'') key"
    | (Other) "\<not> matches (CHR ''v'') key" "\<not> matches (CHR ''k'') key" by blast
  then show ?case
  proof cases
    case V
    with 2(4) obtain x where x: "store_int_ptr j = Some x" "header_fields ms x kind = Some (Some v, Some k)"
      by (auto split: bind_splits)
    from V 2(5) obtain y where y: "store_int j (env_Version e) = Some y" "envelope_fields ms (e\<lparr>env_Version := y\<rparr>) = Some e'"
      by (auto split: bind_splits)
    have "x = Some z \<Longrightarrow> y = z" for z
      using x(1) y(1) by (auto simp: store_int_ptr_def store_int_def split: json.splits)
    with 2(1) [OF V x y(2)] 2(7) show ?thesis by auto
  next
    case K
    with 2(4) obtain x where x: "store_string_ptr j = Some x" "header_fields ms ver x = Some (Some v, Some k)"
      by (auto split: bind_splits)
    from K 2(5) obtain y where y: "store_string j (env_Kind e) = Some y" "envelope_fields ms (e\<lparr>env_Kind := y\<rparr>) = Some e'"
      by (auto split: bind_splits)
    have "x = Some z \<Longrightarrow> y = z" for z
      using x(1) y(1) by (auto simp: store_string_ptr_def store_string_def split: json.splits)
    with 2(2) [OF K x y(2)] 2(6) show ?thesis by auto
  next
    case Other
    then have "header_fields ms ver kind = Some (Some v, Some k)" using 2(4) by simp
    moreover obtain e1 where "envelope_fields ms e1 = Some e'" "env_Version e1 = env_Version e" "env_Kind e1 = env_Kind e"
    proof -
      from Other 2(5) show thesis by (auto split: bind_splits if_splits intro: that)
    qed
    ultimately show ?thesis using 2(3) [OF Other, of e1] 2(6,7) by auto
  qed
qed auto

lemma decodeCursor_sound:
  assumes "decodeCursor api cursor kind = Inr e"
  shows "DecodeString cursor = Some (Marshal e)" "env_Version e = cursorVersion" "env_Kind e = kind_text api kind"
    "ValidateName api (env_Namespace e) = None" "ValidateStableKey api (env_StableKey e) = None"
    "ValidateName api (env_OrderingScope e) = None"
proof -
  from assms obtain raw j where raw: "DecodeString cursor = Some raw" "json_parse raw = Some j"
      "decode_header j = Some (Some cursorVersion, Some (kind_text api kind))" "check_envelope api cursor kind raw j = Inr e"
    by (auto simp: decodeCursor_def cursorError_def split: if_splits option.splits prod.splits)
  from raw(4) have e: "decode_envelope j = Some e" "Marshal e = raw" "ValidateName api (env_Namespace e) = None"
      "ValidateStableKey api (env_StableKey e) = None" "ValidateName api (env_OrderingScope e) = None"
    by (auto simp: check_envelope_def cursorError_def split: option.splits if_splits)
  with raw(1) show "DecodeString cursor = Some (Marshal e)" "ValidateName api (env_Namespace e) = None"
      "ValidateStableKey api (env_StableKey e) = None" "ValidateName api (env_OrderingScope e) = None" by auto
  from raw(3) e(1) obtain ms where "header_fields ms None None = Some (Some cursorVersion, Some (kind_text api kind))"
      "envelope_fields ms zero_envelope = Some e"
    by (auto simp: decode_header_def decode_envelope_def split: json.splits)
  from fields_agree [OF this] show "env_Version e = cursorVersion" "env_Kind e = kind_text api kind" by auto
qed

text \<open>What the storage package's validators have to accept for a cursor to be usable.\<close>

definition names_ok :: "storage_api \<Rightarrow> cursor_envelope \<Rightarrow> bool" where
  "names_ok api e \<longleftrightarrow> ValidateName api (env_Namespace e) = None \<and> ValidateStableKey api (env_StableKey e) = None \<and>
     ValidateName api (env_OrderingScope e) = None \<and>
     (env_RankingScope e = [] \<or> ValidateName api (env_RankingScope e) = None)"

lemma decodeCursor_encodeCursor:
  assumes ok: "envelope_ok e" and size: "length (Marshal e) \<le> maxCursorDecoded"
  shows "decodeCursor api (encodeCursor e) kind =
    (if env_Version e \<noteq> cursorVersion then cursorError kind (encodeCursor e) CursorUnknownVersion
     else if env_Kind e \<noteq> kind_text api kind
     then cursorError kind (encodeCursor e)
       (if env_Kind e = kind_text api RankedCursorKind \<or> env_Kind e = kind_text api DueCursorKind then CursorWrongKind
        else CursorMalformed)
     else if names_ok api e then Inr e else cursorError kind (encodeCursor e) CursorMalformed)"
proof -
  have dec: "DecodeString (encodeCursor e) = Some (Marshal e)" by (simp add: encodeCursor_def)
  have len: "\<not> length (encodeCursor e) > maxCursorEncoded"
    using EncodeToString_length [OF size] by (simp add: encodeCursor_def)
  have chk: "check_envelope api (encodeCursor e) kind (Marshal e) (JObj (map (\<lambda>(k, v). (k, scalar_json v)) (envelope_members e))) =
      (if names_ok api e then Inr e else cursorError kind (encodeCursor e) CursorMalformed)"
    unfolding check_envelope_def Marshal_envelope [OF ok] names_ok_def
    using parsed_once [OF Marshal_parse [OF ok]] by auto
  show ?thesis
    unfolding decodeCursor_def dec using len size
    by (auto simp: Marshal_parse [OF ok] Marshal_header [OF ok] chk)
qed

section \<open>Cursors\<close>

text \<open>
  A cursor fit for use: its strings are UTF-8, its integers fit, the validators accept the names
  and the JSON text is within \<open>maxCursorDecoded\<close>.
\<close>

definition cursor_ok :: "storage_api \<Rightarrow> cursor_envelope \<Rightarrow> bool" where
  "cursor_ok api e \<longleftrightarrow> envelope_ok e \<and> names_ok api e \<and> length (Marshal e) \<le> maxCursorDecoded"

lemma envelope_position_simps [simp]:
  "envelope_position (ranked_envelope api ns scope p) = p" "envelope_position (due_envelope api ns bound p) = p"
  by (simp_all add: envelope_position_def ranked_envelope_def due_envelope_def)

lemma ranked_envelope_simps [simp]:
  "env_Version (ranked_envelope api ns scope p) = cursorVersion"
  "env_Kind (ranked_envelope api ns scope p) = RankedCursorKind_text api"
  "env_Namespace (ranked_envelope api ns scope p) = ns" "env_RankingScope (ranked_envelope api ns scope p) = scope"
  "env_DueBound (ranked_envelope api ns scope p) = None"
  by (simp_all add: ranked_envelope_def)

lemma due_envelope_simps [simp]:
  "env_Version (due_envelope api ns bound p) = cursorVersion"
  "env_Kind (due_envelope api ns bound p) = DueCursorKind_text api"
  "env_Namespace (due_envelope api ns bound p) = ns" "env_RankingScope (due_envelope api ns bound p) = []"
  "env_DueBound (due_envelope api ns bound p) = Some bound"
  by (simp_all add: due_envelope_def)

lemma decodeRankedCursor_encode:
  assumes "cursor_ok api (ranked_envelope api ns scope p)" and "scope \<noteq> []"
  shows "decodeRankedCursor api (encodeCursor (ranked_envelope api ns scope p)) ns' scope' =
    (if ns = ns' \<and> scope = scope' then Inr (Some p)
     else cursorError RankedCursorKind (encodeCursor (ranked_envelope api ns scope p)) CursorQueryMismatch)"
  using assms decodeCursor_encodeCursor [of "ranked_envelope api ns scope p" api RankedCursorKind]
  by (simp add: decodeRankedCursor_def cursor_ok_def)

lemma decodeDueCursor_encode:
  assumes "cursor_ok api (due_envelope api ns bound p)"
  shows "decodeDueCursor api (encodeCursor (due_envelope api ns bound p)) ns' bound' =
    (if ns = ns' \<and> bound = bound' then Inr (Some p)
     else cursorError DueCursorKind (encodeCursor (due_envelope api ns bound p)) CursorQueryMismatch)"
  using assms decodeCursor_encodeCursor [of "due_envelope api ns bound p" api DueCursorKind]
  by (simp add: decodeDueCursor_def cursor_ok_def)

lemma envelope_eqI:
  assumes "env_Version e = cursorVersion" and "env_Kind e = kind_text api RankedCursorKind" and "env_DueBound e = None"
  shows "e = ranked_envelope api (env_Namespace e) (env_RankingScope e) (envelope_position e)"
  using assms by (simp add: ranked_envelope_def envelope_position_def)

lemma due_envelope_eqI:
  assumes "env_Version e = cursorVersion" and "env_Kind e = kind_text api DueCursorKind" and "env_RankingScope e = []"
    and "env_DueBound e = Some b"
  shows "e = due_envelope api (env_Namespace e) b (envelope_position e)"
  using assms by (simp add: due_envelope_def envelope_position_def)

text \<open>
  C37. A cursor round-trips: the cursor the code writes for the last record of a page decodes, for
  the same query, to exactly that record's position -- for every record whose envelope is UTF-8
  text within the size limit and whose names the validators accept.  For another namespace,
  ranking scope or due bound it is refused as a query mismatch.
\<close>

theorem cursor_roundtrip:
  assumes "cursor_ok api (ranked_envelope api ns scope (ranked_position r))" and "scope \<noteq> []"
    and "cursor_ok api (due_envelope api ns bound (due_position r))"
  shows "decodeRankedCursor api (encodeRankedCursor api ns scope r) ns' scope' =
      (if ns = ns' \<and> scope = scope' then Inr (Some (ranked_position r))
       else Inl (InvalidOrderedCursor RankedCursorKind (encodeRankedCursor api ns scope r) CursorQueryMismatch)) \<and>
    decodeDueCursor api (encodeDueCursor api ns bound r) ns' bound' =
      (if ns = ns' \<and> bound = bound' then Inr (Some (due_position r))
       else Inl (InvalidOrderedCursor DueCursorKind (encodeDueCursor api ns bound r) CursorQueryMismatch))"
  using decodeRankedCursor_encode [OF assms(1,2), of ns' scope'] decodeDueCursor_encode [OF assms(3), of ns' bound']
  by (simp add: encodeRankedCursor_def encodeDueCursor_def cursorError_def)

text \<open>
  C38. What is accepted is genuine: a cursor that decodes to a position is, line breaks aside,
  byte for byte the encoding of that position for the very query it is used with, and a non-empty
  cursor never counts as none.
\<close>

theorem cursor_sound:
  assumes "decodeRankedCursor api cursor ns scope = Inr found" and "cursor \<noteq> []"
    and "decodeDueCursor api cursor' ns bound = Inr found'" and "cursor' \<noteq> []"
  shows "(\<exists>p. found = Some p \<and> filter (\<lambda>c. \<not> line_break c) cursor = encodeCursor (ranked_envelope api ns scope p)) \<and>
    (\<exists>p. found' = Some p \<and> filter (\<lambda>c. \<not> line_break c) cursor' = encodeCursor (due_envelope api ns bound p))"
proof
  from assms(1,2) obtain e where e: "decodeCursor api cursor RankedCursorKind = Inr e" "env_DueBound e = None"
      "env_Namespace e = ns" "env_RankingScope e = scope" "found = Some (envelope_position e)"
    by (auto simp: decodeRankedCursor_def cursorError_def split: sum.splits if_splits)
  note sound = decodeCursor_sound [OF e(1)]
  have "e = ranked_envelope api ns scope (envelope_position e)"
    using envelope_eqI [OF sound(2,3) e(2)] e(3,4) by simp
  with DecodeString_canonical [OF sound(1)] e(5)
  show "\<exists>p. found = Some p \<and> filter (\<lambda>c. \<not> line_break c) cursor = encodeCursor (ranked_envelope api ns scope p)"
    by (metis encodeCursor_def)
next
  from assms(3,4) obtain e where e: "decodeCursor api cursor' DueCursorKind = Inr e" "env_RankingScope e = []"
      "env_DueBound e = Some bound" "env_Namespace e = ns" "found' = Some (envelope_position e)"
    by (auto simp: decodeDueCursor_def cursorError_def split: sum.splits if_splits option.splits)
  note sound = decodeCursor_sound [OF e(1)]
  have "e = due_envelope api ns bound (envelope_position e)"
    using due_envelope_eqI [OF sound(2,3) e(2,3)] e(4) by simp
  with DecodeString_canonical [OF sound(1)] e(5)
  show "\<exists>p. found' = Some p \<and> filter (\<lambda>c. \<not> line_break c) cursor' = encodeCursor (due_envelope api ns bound p)"
    by (metis encodeCursor_def)
qed

text \<open>
  Refusals: whatever else a cursor holds, the error is the invalid-cursor error for its kind
  and text; a cursor of the other kind is reported as such, never as a position.
\<close>

theorem cursor_refusals:
  assumes "cursor_ok api (ranked_envelope api ns scope (ranked_position r))"
    and "cursor_ok api (due_envelope api ns bound (due_position r))"
    and "RankedCursorKind_text api \<noteq> DueCursorKind_text api"
  shows "(case decodeRankedCursor api cursor ns' scope' of
      Inl e \<Rightarrow> \<exists>rule. e = InvalidOrderedCursor RankedCursorKind cursor rule | Inr _ \<Rightarrow> True) \<and>
    (case decodeDueCursor api cursor ns' bound' of
      Inl e \<Rightarrow> \<exists>rule. e = InvalidOrderedCursor DueCursorKind cursor rule | Inr _ \<Rightarrow> True) \<and>
    decodeDueCursor api (encodeRankedCursor api ns scope r) ns' bound' =
      Inl (InvalidOrderedCursor DueCursorKind (encodeRankedCursor api ns scope r) CursorWrongKind) \<and>
    decodeRankedCursor api (encodeDueCursor api ns bound r) ns' scope' =
      Inl (InvalidOrderedCursor RankedCursorKind (encodeDueCursor api ns bound r) CursorWrongKind)"
proof -
  have dec: "\<exists>rule. x = InvalidOrderedCursor kind cursor rule" if "decodeCursor api cursor kind = Inl x" for kind x
    using that by (auto simp: decodeCursor_def check_envelope_def cursorError_def split: if_splits option.splits prod.splits)
  have "case decodeRankedCursor api cursor ns' scope' of
      Inl e \<Rightarrow> \<exists>rule. e = InvalidOrderedCursor RankedCursorKind cursor rule | Inr _ \<Rightarrow> True"
    using dec [of RankedCursorKind] by (auto simp: decodeRankedCursor_def cursorError_def split: sum.splits)
  moreover have "case decodeDueCursor api cursor ns' bound' of
      Inl e \<Rightarrow> \<exists>rule. e = InvalidOrderedCursor DueCursorKind cursor rule | Inr _ \<Rightarrow> True"
    using dec [of DueCursorKind] by (auto simp: decodeDueCursor_def cursorError_def split: sum.splits option.splits)
  ultimately show ?thesis
    using assms decodeCursor_encodeCursor [of "ranked_envelope api ns scope (ranked_position r)" api DueCursorKind]
      decodeCursor_encodeCursor [of "due_envelope api ns bound (due_position r)" api RankedCursorKind]
    by (simp add: cursor_ok_def encodeRankedCursor_def encodeDueCursor_def decodeRankedCursor_def decodeDueCursor_def cursorError_def)
qed

end
