(* ===== verification/OrderedListing.thy ===== *)
theory OrderedListing
  imports CursorProperties OrderedReads
begin

text \<open>
  \<open>ListRanked\<close> and \<open>ListDue\<close> of \<open>internal/orderedindex/orderedindex.go\<close>: pages that ask for one
  record more than the limit and, when it is there, hand out a cursor for the last record of the
  page.  The law of such a page is proved once, for any listing with a key, and holds for both.
\<close>

section \<open>The two listings\<close>

record cursor_page =
  cp_Records :: "ordered_record list"
  cp_NextCursor :: string

text \<open>The page made of the rows found; slicing and indexing out of range panic.\<close>

definition trim_page :: "int \<Rightarrow> (ordered_record \<Rightarrow> string) \<Rightarrow> ordered_record list \<Rightarrow> cursor_page result" where
  "trim_page limit encode records =
     (if int (length records) > limit
      then if limit < 1 then Inl (PlainError ''panic: index out of range'')
           else Inr \<lparr>cp_Records = take (nat limit) records, cp_NextCursor = encode (last (take (nat limit) records))\<rparr>
      else Inr \<lparr>cp_Records = records, cp_NextCursor = []\<rparr>)"

definition queryPosition :: "position option \<Rightarrow> position option" where
  "queryPosition = map_option (\<lambda>p. p\<lparr>pos_StableKey := stableKeyBytes (pos_StableKey p)\<rparr>)"

text \<open>From the query on.\<close>

definition ordered_listPage ::
  "storage_api \<Rightarrow> go_context \<Rightarrow> string \<Rightarrow> statement \<Rightarrow> int \<Rightarrow> (ordered_record \<Rightarrow> string) \<Rightarrow>
   ('z world_scheme, cursor_page result) state" where
  "ordered_listPage api ctx operation statement limit encode = do {
     q \<leftarrow> pool_Query ctx statement;
     case and_then q (scanRecords api) of
       Inl _ \<Rightarrow> do { f \<leftarrow> ordered_failure ctx operation; State_Monad.return (Inl f) }
     | Inr records \<Rightarrow> State_Monad.return (trim_page limit encode records) }"

definition ordered_ListRanked ::
  "storage_api \<Rightarrow> ordered_store \<Rightarrow> go_context option \<Rightarrow> string \<Rightarrow> string \<Rightarrow> string \<Rightarrow> int \<Rightarrow>
   ('z world_scheme, cursor_page result) state" where
  "ordered_ListRanked api s ctx0 ns rankingScope after limit = do {
     b \<leftarrow> Bound ctx0 ''OrderedIndex.ListRanked'' (oi_operationTimeout s);
     case b of Inl e \<Rightarrow> State_Monad.return (Inl e) | Inr ctx \<Rightarrow>
     (case ValidateName api ns of Some e \<Rightarrow> State_Monad.return (Inl e) | None \<Rightarrow>
     (case ValidateName api rankingScope of Some e \<Rightarrow> State_Monad.return (Inl e) | None \<Rightarrow>
     (case ValidateOrderedLimit api limit of Some e \<Rightarrow> State_Monad.return (Inl e) | None \<Rightarrow>
     (case decodeRankedCursor api after ns rankingScope of Inl e \<Rightarrow> State_Monad.return (Inl e) | Inr position \<Rightarrow>
        ordered_listPage api ctx ''ordered list ranked''
          (Ranked_query (recordsTable s) ns rankingScope (queryPosition position) limit) limit
          (encodeRankedCursor api ns rankingScope))))) }"

definition ordered_ListDue ::
  "storage_api \<Rightarrow> ordered_store \<Rightarrow> go_context option \<Rightarrow> string \<Rightarrow> int \<Rightarrow> string \<Rightarrow> int \<Rightarrow>
   ('z world_scheme, cursor_page result) state" where
  "ordered_ListDue api s ctx0 ns dueAtOrBefore after limit = do {
     b \<leftarrow> Bound ctx0 ''OrderedIndex.ListDue'' (oi_operationTimeout s);
     case b of Inl e \<Rightarrow> State_Monad.return (Inl e) | Inr ctx \<Rightarrow>
     (case ValidateName api ns of Some e \<Rightarrow> State_Monad.return (Inl e) | None \<Rightarrow>
     (case ValidateOrderedLimit api limit of Some e \<Rightarrow> State_Monad.return (Inl e) | None \<Rightarrow>
     (case decodeDueCursor api after ns dueAtOrBefore of Inl e \<Rightarrow> State_Monad.return (Inl e) | Inr position \<Rightarrow>
        ordered_listPage api ctx ''ordered list due''
          (Due_query (recordsTable s) ns dueAtOrBefore (queryPosition position) limit) limit
          (encodeDueCursor api ns dueAtOrBefore)))) }"

section \<open>The law of a page\<close>

text \<open>
  A page is exact for a rest of a listing: it holds the first \<open>limit\<close> entries, each with the record
  stored for it, and its cursor is empty precisely when nothing is left.
\<close>

definition page_exact ::
  "(ordered_record \<Rightarrow> position) \<Rightarrow> (ordered_record \<Rightarrow> string) \<Rightarrow> int \<Rightarrow> (int \<times> bytes \<times> string) list \<Rightarrow> string \<Rightarrow>
   database \<Rightarrow> cursor_page \<Rightarrow> bool" where
  "page_exact place encode limit rest ns d page \<longleftrightarrow>
     map (\<lambda>r. pos_tuple (place r)) (cp_Records page) = take (nat limit) rest \<and>
     (\<forall>r \<in> set (cp_Records page). Namespace (rec_ID r) = ns \<and> shown r d) \<and>
     cp_NextCursor page = (if nat limit < length rest then encode (last (cp_Records page)) else [])"

text \<open>
  A reader that follows the cursors until a page has none; the first argument bounds the number of
  pages.
\<close>

fun follow :: "nat \<Rightarrow> (string \<Rightarrow> cursor_page result) \<Rightarrow> string \<Rightarrow> ordered_record list result" where
  "follow 0 fetch cursor = Inr []"
| "follow (Suc n) fetch cursor = and_then (fetch cursor) (\<lambda>page.
     if cp_NextCursor page = [] then Inr (cp_Records page)
     else and_then (follow n fetch (cp_NextCursor page)) (\<lambda>rs. Inr (cp_Records page @ rs)))"

definition readable_in :: "storage_api \<Rightarrow> string \<Rightarrow> database \<Rightarrow> bool" where
  "readable_in api ns d \<longleftrightarrow> (\<forall>sc. readable api ns sc d)"

lemma queryPosition_id [simp]: "queryPosition p = p"
  by (simp add: queryPosition_def stableKeyBytes_def option.map_ident)

text \<open>
  A listing by a key: its entries in every database, the statement that reads those after a
  position, and how a record's entry is read off its row and off the record.
\<close>

locale cursor_listing =
  fixes ns :: string and entries :: "database \<Rightarrow> (int \<times> bytes \<times> string) list"
    and before :: "int \<times> bytes \<times> string \<Rightarrow> int \<times> bytes \<times> string \<Rightarrow> bool"
    and query :: "position option \<Rightarrow> int \<Rightarrow> statement"
    and listed :: "ordered_row \<Rightarrow> bool" and row_value :: "ordered_row \<Rightarrow> int" and place :: "ordered_record \<Rightarrow> position"
  assumes ordered_listing: "keyset before (entries d)"
    and entry_stored: "(v, sk, sc) \<in> set (entries d) \<longleftrightarrow>
      (\<exists>row. fmlookup (t_ordered_records d) (ns, sc, sk) = Some row \<and> listed row \<and> row_value row = v)"
    and query_sem: "sql_sem (query p limit) now d =
      (map_sum id (\<lambda>es. concat (map (\<lambda>(v, sk, sc). row_at d (ns, sc, sk)) es))
         (sql_limit (wrap_int64 (limit + 1)) (rest_after before (map_option pos_tuple p) (entries d))), [])"
    and place_row: "row_shows row r \<Longrightarrow>
      pos_tuple (place r) = (row_value row, StableKey (rec_ID r), OrderingScope (rec_ID r))"
begin

abbreviation rest :: "database \<Rightarrow> position option \<Rightarrow> (int \<times> bytes \<times> string) list" where
  "rest d p \<equiv> rest_after before (map_option pos_tuple p) (entries d)"

abbreviation rows_of :: "database \<Rightarrow> (int \<times> bytes \<times> string) list \<Rightarrow> row list" where
  "rows_of d es \<equiv> concat (map (\<lambda>(v, sk, sc). row_at d (ns, sc, sk)) es)"

lemma rest_listed: "set (rest d p) \<subseteq> set (entries d)"
  by (auto simp: rest_after_def split: option.splits)

lemma rows_scanned:
  assumes "set es \<subseteq> set (entries d)" and "scanRecords api (rows_of d es) = Inr rs"
  shows "map (\<lambda>r. pos_tuple (place r)) rs = es \<and> (\<forall>r \<in> set rs. Namespace (rec_ID r) = ns \<and> shown r d)"
  using assms
proof (induction es arbitrary: rs)
  case (Cons e es)
  obtain v sk sc where e: "e = (v, sk, sc)" by (cases e)
  from Cons.prems(1) e obtain row where row: "fmlookup (t_ordered_records d) (ns, sc, sk) = Some row" "row_value row = v"
    by (auto simp: entry_stored)
  let ?oid = "\<lparr>Namespace = ns, OrderingScope = sc, StableKey = sk\<rparr>"
  from Cons.prems(2) e row(1) obtain r rs' where rs: "rs = r # rs'" "scanRecord api (record_row (id_key ?oid) row) = Inr r"
      "scanRecords api (rows_of d es) = Inr rs'"
    by (auto simp: id_key_parts row_at_def split: sum.splits)
  from scanRecord_shows [OF rs(2)] row place_row [of row r] have "pos_tuple (place r) = e" "Namespace (rec_ID r) = ns \<and> shown r d"
    by (auto simp: shown_def id_key_parts e)
  moreover from Cons.IH [OF _ rs(3)] Cons.prems(1)
  have "map (\<lambda>r. pos_tuple (place r)) rs' = es" "\<forall>r \<in> set rs'. Namespace (rec_ID r) = ns \<and> shown r d" by auto
  ultimately show ?case using rs(1) by simp
qed simp

lemma rows_readable:
  assumes "readable_in api ns d" and "set es \<subseteq> set (entries d)"
  shows "\<exists>rs. scanRecords api (rows_of d es) = Inr rs"
  using assms(2)
proof (induction es)
  case (Cons e es)
  obtain v sk sc where e: "e = (v, sk, sc)" by (cases e)
  from Cons.prems e obtain row where row: "fmlookup (t_ordered_records d) (ns, sc, sk) = Some row"
    by (auto simp: entry_stored)
  with assms(1) obtain r where "scanRecord api (record_row (ns, sc, sk) row) = Inr r"
    unfolding readable_in_def readable_def by blast
  with Cons e row show ?case by (auto simp: row_at_def)
qed simp

text \<open>The look-ahead row decides whether there is a cursor.\<close>

lemma trimmed_page:
  assumes "0 < limit" and "scanRecords api (rows_of d (take (nat limit + 1) (rest d p))) = Inr records"
  shows "\<exists>page. trim_page limit encode records = Inr page \<and> page_exact place encode limit (rest d p) ns d page"
proof -
  have "set (take (nat limit + 1) (rest d p)) \<subseteq> set (entries d)"
    using rest_listed by (auto dest: in_set_takeD)
  note scanned = rows_scanned [OF this assms(2)]
  have len: "length records = min (length (rest d p)) (nat limit + 1)"
    using arg_cong [OF conjunct1 [OF scanned], of length] by simp
  have "map (\<lambda>r. pos_tuple (place r)) (take (nat limit) records) = take (nat limit) (rest d p)"
    using arg_cong [OF conjunct1 [OF scanned], of "take (nat limit)"] by (simp add: take_map min_def)
  moreover have "\<forall>r \<in> set (take (nat limit) records). Namespace (rec_ID r) = ns \<and> shown r d"
    using scanned by (auto dest: in_set_takeD)
  moreover have "take (nat limit) records = records" if "\<not> nat limit < length (rest d p)"
    using that len by simp
  ultimately show ?thesis
    using assms(1) len by (auto simp: trim_page_def page_exact_def)
qed

lemma page_statement:
  assumes "0 < limit" and "limit < max_int64"
  shows "sql_sem (query p limit) now d = (Inr (rows_of d (take (nat limit + 1) (rest d p))), [])"
proof -
  have "wrap_int64 (limit + 1) = limit + 1" "nat (limit + 1) = nat limit + 1"
    using assms by (simp_all add: wrap_int64_def max_int64_def)
  with assms show ?thesis by (simp add: query_sem sql_limit_def)
qed

lemma listPage_exact:
  assumes "run_state (ordered_listPage api ctx operation (query p limit) limit encode) w = (r, w')"
    and "0 < limit" and "limit < max_int64"
  shows "others_only w w' \<and> (case r of
      Inr page \<Rightarrow> page_exact place encode limit (rest (db w') p) ns (db w') page
    | Inl e \<Rightarrow> (\<exists>x. e = CtxError x) \<or> e = Redacted operation)"
proof -
  obtain q wq where q: "run_state (pool_Query ctx (query p limit)) w = (q, wq)" by (meson surj_pair)
  then have sent: "others_only w wq \<and> (\<forall>rows. q = Inr rows \<longrightarrow> rows = rows_of (db wq) (take (nat limit + 1) (rest (db wq) p)))"
    using others_only_advance [of w]
    by (auto simp: pool_Query_def pool_run_def Let_def page_statement [OF assms(2,3)] split: fault.splits)
  show ?thesis
  proof (cases "and_then q (scanRecords api)")
    case (Inr records)
    then obtain rows where "q = Inr rows" "scanRecords api rows = Inr records" by (auto simp: and_then_Inr)
    with sent trimmed_page [OF assms(2), of api "db wq" p records encode] assms(1) q show ?thesis
      by (auto simp: ordered_listPage_def)
  next
    case (Inl e)
    with assms(1) q sent show ?thesis
      by (auto simp: ordered_listPage_def ordered_failure_def RedactedError_def intro: others_only_tick split: option.splits)
  qed
qed

lemma listPage_quiet:
  assumes "script w = []" and "0 < limit" and "limit < max_int64" and "readable_in api ns (db w)"
  shows "\<exists>page. fst (run_state (ordered_listPage api ctx operation (query p limit) limit encode) w) = Inr page \<and>
    page_exact place encode limit (rest (db w) p) ns (db w) page"
proof -
  let ?rows = "rows_of (db w) (take (nat limit + 1) (rest (db w) p))"
  have "set (take (nat limit + 1) (rest (db w) p)) \<subseteq> set (entries (db w))"
    using rest_listed by (auto dest: in_set_takeD)
  from rows_readable [OF assms(4) this] obtain records where rs: "scanRecords api ?rows = Inr records" by blast
  have "fst (run_state (pool_Query ctx (query p limit)) w) = Inr ?rows"
    using assms(1) by (simp add: pool_Query_def pool_run_def Let_def page_statement [OF assms(2,3)])
  with rs trimmed_page [OF assms(2) rs, of encode] show ?thesis
    by (cases "run_state (pool_Query ctx (query p limit)) w") (auto simp: ordered_listPage_def)
qed

text \<open>Following the cursors yields the rest of the listing.\<close>

lemma follow_rest:
  assumes "0 < limit" and "goes_on cursor p" and "length (rest d p) < pages"
    and fetch: "\<And>cursor p. goes_on cursor p \<Longrightarrow>
      \<exists>page. fetch cursor = Inr page \<and> page_exact place encode limit (rest d p) ns d page"
    and coded: "\<And>r. Namespace (rec_ID r) = ns \<Longrightarrow> shown r d \<Longrightarrow> pos_tuple (place r) \<in> set (entries d) \<Longrightarrow>
      goes_on (encode r) (Some (place r)) \<and> encode r \<noteq> []"
  shows "\<exists>rs. follow pages fetch cursor = Inr rs \<and> map (\<lambda>r. pos_tuple (place r)) rs = rest d p \<and>
    (\<forall>r \<in> set rs. Namespace (rec_ID r) = ns \<and> shown r d)"
  using assms(2,3)
proof (induction pages arbitrary: cursor p)
  case (Suc pages)
  from fetch [OF Suc.prems(1)] obtain page where page: "fetch cursor = Inr page"
      "map (\<lambda>r. pos_tuple (place r)) (cp_Records page) = take (nat limit) (rest d p)"
      "\<forall>r \<in> set (cp_Records page). Namespace (rec_ID r) = ns \<and> shown r d"
      "cp_NextCursor page = (if nat limit < length (rest d p) then encode (last (cp_Records page)) else [])"
    by (auto simp: page_exact_def)
  show ?case
  proof (cases "nat limit < length (rest d p)")
    case False
    with page show ?thesis by simp
  next
    case True
    let ?r = "last (cp_Records page)"
    have ne: "rest d p \<noteq> []" "cp_Records page \<noteq> []" using True page(2) \<open>0 < limit\<close> by auto
    have tuple: "pos_tuple (place ?r) = last (take (nat limit) (rest d p))"
      using page(2) ne(2) by (metis (mono_tags, lifting) last_map)
    moreover have "last (take (nat limit) (rest d p)) \<in> set (take (nat limit) (rest d p))"
      using ne(1) \<open>0 < limit\<close> by (intro last_in_set) auto
    ultimately have "pos_tuple (place ?r) \<in> set (entries d)"
      using rest_listed by (auto dest: in_set_takeD)
    with coded [of ?r] page(3) last_in_set [OF ne(2)] have on: "goes_on (encode ?r) (Some (place ?r))" "encode ?r \<noteq> []" by auto
    have rest: "rest d (Some (place ?r)) = drop (nat limit) (rest d p)"
      using keyset.rest_after_page [OF ordered_listing ne(1), of "nat limit"] tuple \<open>0 < limit\<close> by simp
    with Suc.prems(2) True \<open>0 < limit\<close> have "length (rest d (Some (place ?r))) < pages" by simp
    from Suc.IH [OF on(1) this] obtain rs where "follow pages fetch (encode ?r) = Inr rs"
        "map (\<lambda>r. pos_tuple (place r)) rs = drop (nat limit) (rest d p)" "\<forall>r \<in> set rs. Namespace (rec_ID r) = ns \<and> shown r d"
      unfolding rest by blast
    with page True on(2) show ?thesis by auto
  qed
qed simp

text \<open>A list of records with the entries of the listing holds every listed row once, in order.\<close>

lemma listing_complete:
  assumes "map (\<lambda>r. pos_tuple (place r)) rs = entries d" and "\<forall>r \<in> set rs. Namespace (rec_ID r) = ns \<and> shown r d"
  shows "sorted_wrt (\<lambda>a b. before (pos_tuple (place a)) (pos_tuple (place b))) rs \<and>
    (\<forall>sc sk row. fmlookup (t_ordered_records d) (ns, sc, sk) = Some row \<longrightarrow>
       listed row = (\<exists>r \<in> set rs. rec_ID r = \<lparr>Namespace = ns, OrderingScope = sc, StableKey = sk\<rparr> \<and> row_shows row r))"
proof (intro conjI allI impI)
  show "sorted_wrt (\<lambda>a b. before (pos_tuple (place a)) (pos_tuple (place b))) rs"
    using keyset.in_order [OF ordered_listing [of d]] unfolding assms(1) [symmetric] by (simp add: sorted_wrt_map)
next
  fix sc sk row
  assume row: "fmlookup (t_ordered_records d) (ns, sc, sk) = Some row"
  have shows_row: "row_shows row r \<and> pos_tuple (place r) = (row_value row, sk, sc)"
    if "r \<in> set rs" "OrderingScope (rec_ID r) = sc" "StableKey (rec_ID r) = sk" for r
    using that assms(2) row place_row [of row r] by (auto simp: shown_def id_key_parts)
  show "listed row = (\<exists>r \<in> set rs. rec_ID r = \<lparr>Namespace = ns, OrderingScope = sc, StableKey = sk\<rparr> \<and> row_shows row r)"
  proof
    assume "listed row"
    with row have "(row_value row, sk, sc) \<in> set (map (\<lambda>r. pos_tuple (place r)) rs)"
      unfolding assms(1) by (auto simp: entry_stored)
    then obtain r where r: "r \<in> set rs" "pos_tuple (place r) = (row_value row, sk, sc)" by auto
    with assms(2) obtain row' where "row_shows row' r" by (auto simp: shown_def)
    from place_row [OF this] r(2) have ids: "OrderingScope (rec_ID r) = sc" "StableKey (rec_ID r) = sk" by auto
    with r(1) shows_row [OF r(1)] assms(2)
    show "\<exists>r \<in> set rs. rec_ID r = \<lparr>Namespace = ns, OrderingScope = sc, StableKey = sk\<rparr> \<and> row_shows row r"
      by (intro bexI [of _ r]) auto
  next
    assume "\<exists>r \<in> set rs. rec_ID r = \<lparr>Namespace = ns, OrderingScope = sc, StableKey = sk\<rparr> \<and> row_shows row r"
    then obtain r where "r \<in> set rs" "OrderingScope (rec_ID r) = sc" "StableKey (rec_ID r) = sk" by auto
    with shows_row have "(row_value row, sk, sc) \<in> set (entries d)" unfolding assms(1) [symmetric] by force
    with row show "listed row" by (auto simp: entry_stored)
  qed
qed

end

section \<open>\<open>ListRanked\<close>\<close>

definition ranked_row :: "string \<Rightarrow> ordered_row \<Rightarrow> bool" where
  "ranked_row scope row \<longleftrightarrow> o_ranking_scope row = scope \<and> o_ranked row \<and> \<not> o_deleted row"

interpretation ranked_listing: cursor_listing ns "ranked_entries ns scope" "\<lambda>x y. y < x" "Ranked_query table ns scope"
  "ranked_row scope" o_rank_value ranked_position for ns scope table
  by (intro cursor_listing.intro ranked_keyset.keyset_axioms)
    (auto simp: set_ranked_entries ranked_row_def Ranked_query_def Let_def row_shows_def pos_tuple_def ranked_position_def read_statement_def)

text \<open>
  C36. A page of \<open>ListRanked\<close> is exact under any interference: it changes nothing; a page returned is,
  for one committed state of the call, precisely the first \<open>limit\<close> live ranked records of the
  scope below the cursor's position, highest rank first, and it carries a cursor exactly when that
  state had more.  Every error is the guard's, a validator's, the cursor's, the context's or the
  redacted one.
\<close>

theorem ordered_ListRanked_page:
  assumes "run_state (ordered_ListRanked api s c ns scope cursor limit) w = (r, w')"
    and "0 < limit" and "limit < max_int64"
  shows "our_commits w w' = [] \<and> (case r of
      Inr page \<Rightarrow> \<exists>p. decodeRankedCursor api cursor ns scope = Inr p \<and> (\<exists>d \<in> set (states w w').
        page_exact ranked_position (encodeRankedCursor api ns scope) limit
          (rest_after (\<lambda>x y. y < x) (map_option pos_tuple p) (ranked_entries ns scope d)) ns d page)
    | Inl e \<Rightarrow> e = DeadlineRequired ''OrderedIndex.ListRanked'' \<or> ValidateName api ns = Some e \<or>
        ValidateName api scope = Some e \<or> ValidateOrderedLimit api limit = Some e \<or>
        decodeRankedCursor api cursor ns scope = Inl e \<or> (\<exists>x. e = CtxError x) \<or> e = Redacted ''ordered list ranked'')"
  using assms(1) [unfolded ordered_ListRanked_def]
proof (cases rule: after_Bound)
  case Refused
  then show ?thesis by (simp add: our_commits_def commits_def)
next
  case (Bounded ctx w0)
  show ?thesis
  proof (cases "ValidateName api ns = None \<and> ValidateName api scope = None \<and> ValidateOrderedLimit api limit = None \<and>
      (\<exists>p. decodeRankedCursor api cursor ns scope = Inr p)")
    case True
    with Bounded(4) obtain p where p: "decodeRankedCursor api cursor ns scope = Inr p"
        "run_state (ordered_listPage api ctx ''ordered list ranked'' (Ranked_query (recordsTable s) ns scope p limit) limit
          (encodeRankedCursor api ns scope)) w0 = (r, w')" by auto
    from ranked_listing.listPage_exact [OF p(2) assms(2,3)] p(1) Bounded(2) final_state [of w' w]
    show ?thesis by (auto dest: others_only_trans others_only_ours split: sum.splits)
  next
    case False
    with Bounded(2,4) show ?thesis by (auto simp: others_only_ours split: option.splits sum.splits)
  qed
qed

text \<open>\<open>ListRanked\<close> on a database nobody changes, with every call served.\<close>

definition ranked_page ::
  "storage_api \<Rightarrow> ordered_store \<Rightarrow> go_context option \<Rightarrow> string \<Rightarrow> string \<Rightarrow> int \<Rightarrow> database \<Rightarrow> string \<Rightarrow> cursor_page result" where
  "ranked_page api s c ns scope limit d cursor =
     fst (run_state (ordered_ListRanked api s c ns scope cursor limit) (open_world d []))"

definition ranked_cursors_ok :: "storage_api \<Rightarrow> string \<Rightarrow> string \<Rightarrow> database \<Rightarrow> bool" where
  "ranked_cursors_ok api ns scope d \<longleftrightarrow> (\<forall>r. Namespace (rec_ID r) = ns \<longrightarrow> shown r d \<longrightarrow>
     cursor_ok api (ranked_envelope api ns scope (ranked_position r)))"

lemma ranked_page_quiet:
  assumes "ValidateName api ns = None" and "ValidateName api scope = None" and "ValidateOrderedLimit api limit = None"
    and "0 < limit" and "limit < max_int64" and "readable_in api ns d" and "decodeRankedCursor api cursor ns scope = Inr p"
  shows "\<exists>page. ranked_page api s (Some ctx) ns scope limit d cursor = Inr page \<and>
    page_exact ranked_position (encodeRankedCursor api ns scope) limit
      (rest_after (\<lambda>x y. y < x) (map_option pos_tuple p) (ranked_entries ns scope d)) ns d page"
proof -
  obtain ctx' w0 where b: "run_state (Bound (Some ctx) ''OrderedIndex.ListRanked'' (oi_operationTimeout s)) (open_world d []) = (Inr ctx', w0)"
      "script w0 = []" "db w0 = d"
    by (rule Bound_quiet [of "open_world d []"]) simp_all
  with assms ranked_listing.listPage_quiet [OF b(2), of limit api ns ctx' "''ordered list ranked''" "recordsTable s" scope p
      "encodeRankedCursor api ns scope"]
  show ?thesis by (simp add: ranked_page_def ordered_ListRanked_def)
qed

text \<open>
  C34. Following the cursors is complete: on a database nobody changes a reader that starts without a
  cursor and follows \<open>ListRanked\<close>'s cursors gets, for any limit, all live ranked records of the
  scope and no other record, each once, in strictly descending order of rank, stable key and
  ordering scope; and the walk ends by itself within one page more than there are records.
\<close>

theorem ordered_ListRanked_complete:
  assumes "ValidateName api ns = None" and "ValidateName api scope = None" and "ValidateOrderedLimit api limit = None"
    and "0 < limit" and "limit < max_int64" and "scope \<noteq> []" and "readable_in api ns d" and "ranked_cursors_ok api ns scope d"
  shows "\<exists>rs. follow (Suc (length (ranked_entries ns scope d))) (ranked_page api s (Some ctx) ns scope limit d) [] = Inr rs \<and>
    (\<forall>r \<in> set rs. Namespace (rec_ID r) = ns \<and> shown r d) \<and>
    sorted_wrt (\<lambda>a b. pos_tuple (ranked_position b) < pos_tuple (ranked_position a)) rs \<and>
    (\<forall>sc sk row. fmlookup (t_ordered_records d) (ns, sc, sk) = Some row \<longrightarrow>
       (o_ranking_scope row = scope \<and> o_ranked row \<and> \<not> o_deleted row) =
       (\<exists>r \<in> set rs. rec_ID r = \<lparr>Namespace = ns, OrderingScope = sc, StableKey = sk\<rparr> \<and> row_shows row r))"
proof -
  have "\<exists>rs. follow (Suc (length (ranked_entries ns scope d))) (ranked_page api s (Some ctx) ns scope limit d) [] = Inr rs \<and>
      map (\<lambda>r. pos_tuple (ranked_position r)) rs = rest_after (\<lambda>x y. y < x) (map_option pos_tuple None) (ranked_entries ns scope d) \<and>
      (\<forall>r \<in> set rs. Namespace (rec_ID r) = ns \<and> shown r d)"
  proof (rule ranked_listing.follow_rest [OF assms(4), where goes_on = "\<lambda>cursor p. decodeRankedCursor api cursor ns scope = Inr p"])
    fix r assume "Namespace (rec_ID r) = ns" "shown r d"
    with assms(6,8) show "decodeRankedCursor api (encodeRankedCursor api ns scope r) ns scope = Inr (Some (ranked_position r)) \<and>
        encodeRankedCursor api ns scope r \<noteq> []"
      by (simp add: ranked_cursors_ok_def encodeRankedCursor_def decodeRankedCursor_encode)
  qed (use assms ranked_page_quiet in \<open>auto simp: decodeRankedCursor_def rest_after_def\<close>)
  then obtain rs where rs: "follow (Suc (length (ranked_entries ns scope d))) (ranked_page api s (Some ctx) ns scope limit d) [] = Inr rs"
      "map (\<lambda>r. pos_tuple (ranked_position r)) rs = ranked_entries ns scope d"
      "\<forall>r \<in> set rs. Namespace (rec_ID r) = ns \<and> shown r d"
    by (auto simp: rest_after_def)
  from ranked_listing.listing_complete [OF rs(2,3), unfolded ranked_row_def] rs(1,3) show ?thesis by blast
qed

section \<open>\<open>ListDue\<close>\<close>

definition due_row :: "int \<Rightarrow> ordered_row \<Rightarrow> bool" where
  "due_row bound row \<longleftrightarrow> o_due_state row = 1 \<and> \<not> o_deleted row \<and> o_due_at row \<le> bound"

interpretation due_listing: cursor_listing ns "due_entries ns bound" "(<)" "Due_query table ns bound"
  "due_row bound" o_due_at due_position for ns bound table
  by (intro cursor_listing.intro due_keyset.keyset_axioms)
    (auto simp: set_due_entries due_row_def Due_query_def Let_def row_shows_def pos_tuple_def due_position_def read_statement_def)

text \<open>
  A page of \<open>ListDue\<close> is exact under any interference: it changes nothing; a page returned is,
  for one committed state of the call, precisely the first \<open>limit\<close> live records of the
  namespace due at or before the bound and after the cursor's position, earliest first, and it carries a cursor exactly when that
  state had more.  Every error is the guard's, a validator's, the cursor's, the context's or the
  redacted one.
\<close>

theorem ordered_ListDue_page:
  assumes "run_state (ordered_ListDue api s c ns bound cursor limit) w = (r, w')"
    and "0 < limit" and "limit < max_int64"
  shows "our_commits w w' = [] \<and> (case r of
      Inr page \<Rightarrow> \<exists>p. decodeDueCursor api cursor ns bound = Inr p \<and> (\<exists>d \<in> set (states w w').
        page_exact due_position (encodeDueCursor api ns bound) limit
          (rest_after (<) (map_option pos_tuple p) (due_entries ns bound d)) ns d page)
    | Inl e \<Rightarrow> e = DeadlineRequired ''OrderedIndex.ListDue'' \<or> ValidateName api ns = Some e \<or>
        ValidateOrderedLimit api limit = Some e \<or>
        decodeDueCursor api cursor ns bound = Inl e \<or> (\<exists>x. e = CtxError x) \<or> e = Redacted ''ordered list due'')"
  using assms(1) [unfolded ordered_ListDue_def]
proof (cases rule: after_Bound)
  case Refused
  then show ?thesis by (simp add: our_commits_def commits_def)
next
  case (Bounded ctx w0)
  show ?thesis
  proof (cases "ValidateName api ns = None \<and> ValidateOrderedLimit api limit = None \<and>
      (\<exists>p. decodeDueCursor api cursor ns bound = Inr p)")
    case True
    with Bounded(4) obtain p where p: "decodeDueCursor api cursor ns bound = Inr p"
        "run_state (ordered_listPage api ctx ''ordered list due'' (Due_query (recordsTable s) ns bound p limit) limit
          (encodeDueCursor api ns bound)) w0 = (r, w')" by auto
    from due_listing.listPage_exact [OF p(2) assms(2,3)] p(1) Bounded(2) final_state [of w' w]
    show ?thesis by (auto dest: others_only_trans others_only_ours split: sum.splits)
  next
    case False
    with Bounded(2,4) show ?thesis by (auto simp: others_only_ours split: option.splits sum.splits)
  qed
qed

text \<open>\<open>ListDue\<close> on a database nobody changes, with every call served.\<close>

definition due_page ::
  "storage_api \<Rightarrow> ordered_store \<Rightarrow> go_context option \<Rightarrow> string \<Rightarrow> int \<Rightarrow> int \<Rightarrow> database \<Rightarrow> string \<Rightarrow> cursor_page result" where
  "due_page api s c ns bound limit d cursor =
     fst (run_state (ordered_ListDue api s c ns bound cursor limit) (open_world d []))"

definition due_cursors_ok :: "storage_api \<Rightarrow> string \<Rightarrow> int \<Rightarrow> database \<Rightarrow> bool" where
  "due_cursors_ok api ns bound d \<longleftrightarrow> (\<forall>r. Namespace (rec_ID r) = ns \<longrightarrow> shown r d \<longrightarrow>
     cursor_ok api (due_envelope api ns bound (due_position r)))"

lemma due_page_quiet:
  assumes "ValidateName api ns = None" and "ValidateOrderedLimit api limit = None"
    and "0 < limit" and "limit < max_int64" and "readable_in api ns d" and "decodeDueCursor api cursor ns bound = Inr p"
  shows "\<exists>page. due_page api s (Some ctx) ns bound limit d cursor = Inr page \<and>
    page_exact due_position (encodeDueCursor api ns bound) limit
      (rest_after (<) (map_option pos_tuple p) (due_entries ns bound d)) ns d page"
proof -
  obtain ctx' w0 where b: "run_state (Bound (Some ctx) ''OrderedIndex.ListDue'' (oi_operationTimeout s)) (open_world d []) = (Inr ctx', w0)"
      "script w0 = []" "db w0 = d"
    by (rule Bound_quiet [of "open_world d []"]) simp_all
  with assms due_listing.listPage_quiet [OF b(2), of limit api ns ctx' "''ordered list due''" "recordsTable s" bound p
      "encodeDueCursor api ns bound"]
  show ?thesis by (simp add: due_page_def ordered_ListDue_def)
qed

text \<open>
  C35. Following the cursors is complete: on a database nobody changes a reader that starts without a
  cursor and follows \<open>ListDue\<close>'s cursors gets, for any limit, all live records of the
  namespace that are due at or before the bound and no other record, each once, in strictly
  ascending order of due time, stable key and ordering scope; and the walk ends by itself within one page more than there are records.
\<close>

theorem ordered_ListDue_complete:
  assumes "ValidateName api ns = None" and "ValidateOrderedLimit api limit = None"
    and "0 < limit" and "limit < max_int64" and "readable_in api ns d" and "due_cursors_ok api ns bound d"
  shows "\<exists>rs. follow (Suc (length (due_entries ns bound d))) (due_page api s (Some ctx) ns bound limit d) [] = Inr rs \<and>
    (\<forall>r \<in> set rs. Namespace (rec_ID r) = ns \<and> shown r d) \<and>
    sorted_wrt (\<lambda>a b. pos_tuple (due_position a) < pos_tuple (due_position b)) rs \<and>
    (\<forall>sc sk row. fmlookup (t_ordered_records d) (ns, sc, sk) = Some row \<longrightarrow>
       (o_due_state row = 1 \<and> \<not> o_deleted row \<and> o_due_at row \<le> bound) =
       (\<exists>r \<in> set rs. rec_ID r = \<lparr>Namespace = ns, OrderingScope = sc, StableKey = sk\<rparr> \<and> row_shows row r))"
proof -
  have "\<exists>rs. follow (Suc (length (due_entries ns bound d))) (due_page api s (Some ctx) ns bound limit d) [] = Inr rs \<and>
      map (\<lambda>r. pos_tuple (due_position r)) rs = rest_after (<) (map_option pos_tuple None) (due_entries ns bound d) \<and>
      (\<forall>r \<in> set rs. Namespace (rec_ID r) = ns \<and> shown r d)"
  proof (rule due_listing.follow_rest [OF assms(3), where goes_on = "\<lambda>cursor p. decodeDueCursor api cursor ns bound = Inr p"])
    fix r assume "Namespace (rec_ID r) = ns" "shown r d"
    with assms(6) show "decodeDueCursor api (encodeDueCursor api ns bound r) ns bound = Inr (Some (due_position r)) \<and>
        encodeDueCursor api ns bound r \<noteq> []"
      by (simp add: due_cursors_ok_def encodeDueCursor_def decodeDueCursor_encode)
  qed (use assms due_page_quiet in \<open>auto simp: decodeDueCursor_def rest_after_def\<close>)
  then obtain rs where rs: "follow (Suc (length (due_entries ns bound d))) (due_page api s (Some ctx) ns bound limit d) [] = Inr rs"
      "map (\<lambda>r. pos_tuple (due_position r)) rs = due_entries ns bound d"
      "\<forall>r \<in> set rs. Namespace (rec_ID r) = ns \<and> shown r d"
    by (auto simp: rest_after_def)
  from due_listing.listing_complete [OF rs(2,3), unfolded due_row_def] rs(1,3) show ?thesis by blast
qed

end
