(* ===== verification/ListingExamples.thy ===== *)
theory ListingExamples
  imports OrderedExamples OrderedListing
begin

text \<open>
  The index with one record listed by rank and by due time, and the cursors for it: the
  hypotheses of the properties of cursors and listings hold there.
\<close>

section \<open>Cursors of the example\<close>

lemma demo_texts [simp]:
  "RankedCursorKind_text demo_api = ''ranked''" "DueCursorKind_text demo_api = ''due''"
  "ValidateStableKey demo_api k = (if k = [] then Some InvalidName else None)"
  by (simp_all add: demo_api_def)

lemma demo_positions:
  "ranked_position demo_record = \<lparr>pos_value = 7, pos_StableKey = ''k'', pos_OrderingScope = ''o''\<rparr>"
  "due_position demo_record = \<lparr>pos_value = 9, pos_StableKey = ''k'', pos_OrderingScope = ''o''\<rparr>"
  by (simp_all add: ranked_position_def due_position_def demo_record_def new_record_def)

lemma demo_utf8:
  "valid_utf8 ''n''" "valid_utf8 ''r''" "valid_utf8 ''k''" "valid_utf8 ''o''" "valid_utf8 ''ranked''" "valid_utf8 ''due''" "valid_utf8 []"
  by code_simp+

lemma demo_envelopes_ok:
  "envelope_ok (ranked_envelope demo_api ''n'' ''r'' \<lparr>pos_value = 7, pos_StableKey = ''k'', pos_OrderingScope = ''o''\<rparr>)"
  "envelope_ok (due_envelope demo_api ''n'' 20 \<lparr>pos_value = 9, pos_StableKey = ''k'', pos_OrderingScope = ''o''\<rparr>)"
  by (simp_all add: envelope_ok_def ranked_envelope_def due_envelope_def demo_utf8 int64_def max_int64_def cursorVersion_def
      del: valid_utf8.simps(2))

lemma demo_texts_short:
  "length (object_text [(''v'', SInt 1), (''k'', SStr ''ranked''), (''n'', SStr ''n''), (''s'', SStr ''r''), (''p'', SInt 7),
     (''x'', SStr ''k''), (''o'', SStr ''o'')]) \<le> 3072"
  "length (object_text [(''v'', SInt 1), (''k'', SStr ''due''), (''n'', SStr ''n''), (''b'', SInt 20), (''p'', SInt 9),
     (''x'', SStr ''k''), (''o'', SStr ''o'')]) \<le> 3072"
  by code_simp+

lemma demo_cursor_sizes:
  "length (Marshal (ranked_envelope demo_api ''n'' ''r'' \<lparr>pos_value = 7, pos_StableKey = ''k'', pos_OrderingScope = ''o''\<rparr>)) \<le> maxCursorDecoded"
  "length (Marshal (due_envelope demo_api ''n'' 20 \<lparr>pos_value = 9, pos_StableKey = ''k'', pos_OrderingScope = ''o''\<rparr>)) \<le> maxCursorDecoded"
  using demo_texts_short
  by (simp_all add: Marshal_def envelope_members_def ranked_envelope_def due_envelope_def cursorVersion_def maxCursorDecoded_def)

lemma demo_cursors_ok:
  "cursor_ok demo_api (ranked_envelope demo_api ''n'' ''r'' (ranked_position demo_record))"
  "cursor_ok demo_api (due_envelope demo_api ''n'' 20 (due_position demo_record))"
  using demo_envelopes_ok demo_cursor_sizes
  by (simp_all add: cursor_ok_def demo_positions names_ok_def ranked_envelope_def due_envelope_def)

section \<open>Witnesses\<close>

theorem cursor_roundtrip_witness:
  "decodeRankedCursor demo_api (encodeRankedCursor demo_api ''n'' ''r'' demo_record) ''n'' ''r'' = Inr (Some (ranked_position demo_record)) \<and>
   decodeDueCursor demo_api (encodeDueCursor demo_api ''n'' 20 demo_record) ''n'' 20 = Inr (Some (due_position demo_record))"
  using cursor_roundtrip [OF demo_cursors_ok(1) _ demo_cursors_ok(2), of "''n''" "''r''" 20] by simp

theorem cursor_sound_witness:
  "\<exists>p. Some (ranked_position demo_record) = Some p \<and>
     filter (\<lambda>c. \<not> line_break c) (encodeRankedCursor demo_api ''n'' ''r'' demo_record) = encodeCursor (ranked_envelope demo_api ''n'' ''r'' p)"
proof -
  have "decodeRankedCursor demo_api (encodeRankedCursor demo_api ''n'' ''r'' demo_record) ''n'' ''r'' = Inr (Some (ranked_position demo_record))"
    "decodeDueCursor demo_api (encodeDueCursor demo_api ''n'' 20 demo_record) ''n'' 20 = Inr (Some (due_position demo_record))"
    using decodeRankedCursor_encode [OF demo_cursors_ok(1), of "''n''" "''r''"] decodeDueCursor_encode [OF demo_cursors_ok(2), of "''n''" 20]
    by (simp_all add: encodeRankedCursor_def encodeDueCursor_def)
  from conjunct1 [OF cursor_sound [OF this(1) _ this(2)]] show ?thesis
    by (simp add: encodeRankedCursor_def encodeDueCursor_def)
qed

theorem cursor_refusals_witness:
  "decodeDueCursor demo_api (encodeRankedCursor demo_api ''n'' ''r'' demo_record) ''n'' 20 =
     Inl (InvalidOrderedCursor DueCursorKind (encodeRankedCursor demo_api ''n'' ''r'' demo_record) CursorWrongKind)"
  using cursor_refusals [OF demo_cursors_ok, of "[]" "''n''" "''r''" 20] by simp

lemma demo_readable_in: "readable_in demo_api ''n'' demo_index"
  unfolding readable_in_def readable_def
proof (intro allI impI)
  fix sc sk row
  assume row: "fmlookup (t_ordered_records demo_index) (''n'', sc, sk) = Some row"
  then have "(''n'', sc, sk) = id_key demo_id" "row = stored_row demo_record"
    by (auto simp: demo_lookup split: if_splits)
  then show "\<exists>r. scanRecord demo_api (record_row (''n'', sc, sk) row) = Inr r" using demo_scanned by simp
qed

lemma demo_shown:
  assumes "shown r demo_index"
  shows "ranked_position r = ranked_position demo_record \<and> due_position r = due_position demo_record"
  using assms
  by (auto simp: shown_def demo_lookup id_key_parts row_shows_def stored_row_def ranked_position_def due_position_def
      demo_record_def new_record_def split: if_splits)

lemma demo_listing_cursors_ok: "ranked_cursors_ok demo_api ''n'' ''r'' demo_index" "due_cursors_ok demo_api ''n'' 20 demo_index"
  using demo_shown demo_cursors_ok by (auto simp: ranked_cursors_ok_def due_cursors_ok_def)

lemma small_limit: "(1 :: int) < max_int64"
  by (simp add: max_int64_def)

theorem ordered_ListRanked_page_witness:
  "our_commits (open_world demo_index [ack_lost])
     (snd (run_state (ordered_ListRanked demo_api demo_index_store (Some Background) ''n'' ''r'' [] 1) (open_world demo_index [ack_lost]))) = []"
  using ordered_ListRanked_page [OF prod.collapse [symmetric] _ small_limit] by (metis zero_less_one)

theorem ordered_ListDue_page_witness:
  "our_commits (open_world demo_index [ack_lost])
     (snd (run_state (ordered_ListDue demo_api demo_index_store (Some Background) ''n'' 20 [] 1) (open_world demo_index [ack_lost]))) = []"
  using ordered_ListDue_page [OF prod.collapse [symmetric] _ small_limit] by (metis zero_less_one)

theorem ordered_ListRanked_complete_witness:
  "\<exists>rs. follow (Suc (length (ranked_entries ''n'' ''r'' demo_index)))
       (ranked_page demo_api demo_index_store (Some Background) ''n'' ''r'' 1 demo_index) [] = Inr rs \<and>
     (\<exists>r \<in> set rs. rec_ID r = demo_id \<and> row_shows (stored_row demo_record) r)"
proof -
  have row: "fmlookup (t_ordered_records demo_index) (''n'', ''o'', ''k'') = Some (stored_row demo_record)"
    "o_ranking_scope (stored_row demo_record) = ''r''" "o_ranked (stored_row demo_record)" "\<not> o_deleted (stored_row demo_record)"
    by (simp_all add: demo_lookup id_key_parts stored_row_def demo_record_def new_record_def)
  have "ValidateName demo_api ''n'' = None" "ValidateName demo_api ''r'' = None" "ValidateOrderedLimit demo_api 1 = None"
    "(0 :: int) < 1" "''r'' \<noteq> []" by simp_all
  from ordered_ListRanked_complete [OF this(1-4) small_limit this(5) demo_readable_in demo_listing_cursors_ok(1)] row
  show ?thesis unfolding demo_id_def by blast
qed

theorem ordered_ListDue_complete_witness:
  "\<exists>rs. follow (Suc (length (due_entries ''n'' 20 demo_index)))
       (due_page demo_api demo_index_store (Some Background) ''n'' 20 1 demo_index) [] = Inr rs \<and>
     (\<exists>r \<in> set rs. rec_ID r = demo_id \<and> row_shows (stored_row demo_record) r)"
proof -
  have row: "fmlookup (t_ordered_records demo_index) (''n'', ''o'', ''k'') = Some (stored_row demo_record)"
    "o_due_state (stored_row demo_record) = 1" "o_due_at (stored_row demo_record) \<le> 20" "\<not> o_deleted (stored_row demo_record)"
    by (simp_all add: demo_lookup id_key_parts stored_row_def demo_record_def new_record_def)
  have "ValidateName demo_api ''n'' = None" "ValidateOrderedLimit demo_api 1 = None" "(0 :: int) < 1" by simp_all
  from ordered_ListDue_complete [OF this small_limit demo_readable_in demo_listing_cursors_ok(2)] row
  show ?thesis unfolding demo_id_def by blast
qed

end
