(* ===== verification/Kv.thy ===== *)
theory Kv
  imports Guard Postgres
begin

text \<open>
  \<open>internal/kv/kv.go\<close>: the revision-checked key-value adapter.  Every operation is one
  statement outside a transaction, so the database may change under it, the call may be
  refused, and the acknowledgement may be lost; \<open>Put\<close> and \<open>Delete\<close> then reread the row.

  \<open>vn\<close> stands for \<open>storage.ValidateName\<close>, which is not part of this repository.
\<close>

section \<open>The store and its statements\<close>

record kv_store =
  kv_operationTimeout :: duration
  kv_schema :: string
  kv_tablePrefix :: string

definition kv_New :: "string \<Rightarrow> string \<Rightarrow> kv_store" where
  "kv_New schema tablePrefix =
     \<lparr>kv_operationTimeout = DefaultOperationTimeout, kv_schema = schema, kv_tablePrefix = tablePrefix\<rparr>"

definition kv_WithOperationTimeout :: "kv_store \<Rightarrow> duration \<Rightarrow> kv_store" where
  "kv_WithOperationTimeout s timeout = s\<lparr>kv_operationTimeout := timeout\<rparr>"

definition kv_table :: "kv_store \<Rightarrow> string" where
  "kv_table s = Qualified (kv_schema s) (kv_tablePrefix s @ ''kv'')"

definition kv_select_stmt :: "kv_store \<Rightarrow> string \<Rightarrow> statement" where
  "kv_select_stmt s key =
     read_statement (''SELECT value, revision FROM '' @ kv_table s @ '' WHERE key = $1'') [CText key]
       (\<lambda>_ d. case fmlookup (t_kv d) key of
          None \<Rightarrow> Inr []
        | Some r \<Rightarrow> Inr [[CBytes (kv_value r), CInt (kv_revision r)]])"

definition kv_insert_stmt :: "kv_store \<Rightarrow> string \<Rightarrow> bytes \<Rightarrow> statement" where
  "kv_insert_stmt s key value =
     write_statement (''INSERT INTO '' @ kv_table s @
         '' (key, revision, value) VALUES ($1, 1, $2) ON CONFLICT (key) DO NOTHING RETURNING revision'')
       [CText key, CBytes value] [KvRow key]
       (\<lambda>_ d. case fmlookup (t_kv d) key of
          Some _ \<Rightarrow> (Inr [], [])
        | None \<Rightarrow> (Inr [[CInt 1]], [WKv key (Some \<lparr>kv_revision = 1, kv_value = value\<rparr>)]))"

definition kv_update_stmt :: "kv_store \<Rightarrow> string \<Rightarrow> u64 \<Rightarrow> bytes \<Rightarrow> statement" where
  "kv_update_stmt s key expected value =
     write_statement (''UPDATE '' @ kv_table s @
         '' SET revision = revision + 1, value = $3 WHERE key = $1 AND revision = $2 RETURNING revision'')
       [CText key, CInt (uint expected), CBytes value] [KvRow key]
       (\<lambda>_ d. bigint_arg expected (\<lambda>e.
          case fmlookup (t_kv d) key of
            None \<Rightarrow> (Inr [], [])
          | Some r \<Rightarrow>
              if kv_revision r \<noteq> e then (Inr [], [])
              else if kv_revision r = max_int64 then (Inl out_of_range, [])
              else (Inr [[CInt (kv_revision r + 1)]],
                    [WKv key (Some \<lparr>kv_revision = kv_revision r + 1, kv_value = value\<rparr>)])))"

definition kv_delete_stmt :: "kv_store \<Rightarrow> string \<Rightarrow> statement" where
  "kv_delete_stmt s key =
     write_statement (''DELETE FROM '' @ kv_table s @ '' WHERE key = $1'') [CText key] [KvRow key]
       (\<lambda>_ d. case fmlookup (t_kv d) key of None \<Rightarrow> (Inr [], []) | Some _ \<Rightarrow> (Inr [], [WKv key None]))"

definition kv_exists_stmt :: "kv_store \<Rightarrow> string \<Rightarrow> statement" where
  "kv_exists_stmt s key =
     read_statement (''SELECT 1 FROM '' @ kv_table s @ '' WHERE key = $1'') [CText key]
       (\<lambda>_ d. case fmlookup (t_kv d) key of None \<Rightarrow> Inr [] | Some _ \<Rightarrow> Inr [[CInt 1]])"

text \<open>
  PostgreSQL's \<open>length\<close> and \<open>left\<close> count characters of UTF-8 text: every byte that is not a
  continuation byte (10xxxxxx) starts one.
\<close>

definition utf8_continuation :: "char \<Rightarrow> bool" where
  "utf8_continuation c \<longleftrightarrow> 128 \<le> (of_char c :: nat) \<and> (of_char c :: nat) < 192"

definition pg_length :: "string \<Rightarrow> nat" where
  "pg_length s = length (filter (\<lambda>c. \<not> utf8_continuation c) s)"

fun pg_left :: "string \<Rightarrow> nat \<Rightarrow> string" where
  "pg_left [] n = []"
| "pg_left (c # s) n =
     (if utf8_continuation c then c # pg_left s n
      else case n of 0 \<Rightarrow> [] | Suc m \<Rightarrow> c # pg_left s m)"

text \<open>\<open>COLLATE "C"\<close> compares bytes, which is the order of \<open>char list\<close>.\<close>

definition kv_keys_stmt :: "kv_store \<Rightarrow> string \<Rightarrow> statement" where
  "kv_keys_stmt s prefix =
     read_statement (''SELECT key FROM '' @ kv_table s @
         '' WHERE left(key, length($1)) = $1 ORDER BY key COLLATE '' @ QuoteIdentifier ''C'')
       [CText prefix]
       (\<lambda>_ d. Inr (map (\<lambda>k. [CText k])
          (filter (\<lambda>k. pg_left k (pg_length prefix) = prefix) (sorted_list_of_fset (fmdom (t_kv d))))))"

text \<open>\<open>Scan(&value, &revision)\<close>.\<close>

definition kv_scan :: "row \<Rightarrow> (bytes option \<times> u64) result" where
  "kv_scan r = (case r of
     [v, n] \<Rightarrow> (case scan_bytes v of Inl e \<Rightarrow> Inl e | Inr value \<Rightarrow>
       (case scan_uint64 n of Inl e \<Rightarrow> Inl e | Inr revision \<Rightarrow> Inr (value, revision)))
   | _ \<Rightarrow> Inl DriverError)"

section \<open>The operations\<close>

definition kv_failure :: "go_context \<Rightarrow> string \<Rightarrow> ('z world_scheme, err) state" where
  "kv_failure ctx operation = do {
     e \<leftarrow> ctx_Err ctx;
     State_Monad.return (case e of Some x \<Rightarrow> CtxError x | None \<Rightarrow> RedactedError operation) }"

definition kv_safeCause :: "go_context \<Rightarrow> string \<Rightarrow> ('z world_scheme, err) state" where
  "kv_safeCause ctx operation = do {
     e \<leftarrow> ctx_Err ctx;
     State_Monad.return (case e of Some x \<Rightarrow> CtxError x | None \<Rightarrow> RedactedError operation) }"

definition kv_Get ::
  "(string \<Rightarrow> err option) \<Rightarrow> kv_store \<Rightarrow> go_context option \<Rightarrow> string \<Rightarrow>
   ('z world_scheme, (bytes option \<times> u64) result) state" where
  "kv_Get vn s ctx0 key = do {
     b \<leftarrow> Bound ctx0 ''KV.Get'' (kv_operationTimeout s);
     case b of Inl e \<Rightarrow> State_Monad.return (Inl e) | Inr ctx \<Rightarrow>
     (case vn key of Some e \<Rightarrow> State_Monad.return (Inl e) | None \<Rightarrow> do {
        r \<leftarrow> pool_QueryRow ctx (kv_select_stmt s key);
        case scanned kv_scan r of
          Inl e \<Rightarrow> if e = ErrNoRows then State_Monad.return (Inl (KeyNotFound key))
                   else do { f \<leftarrow> kv_failure ctx ''kv get''; State_Monad.return (Inl f) }
        | Inr v \<Rightarrow> State_Monad.return (Inr v) }) }"

definition kv_putOnce ::
  "kv_store \<Rightarrow> go_context \<Rightarrow> string \<Rightarrow> u64 \<Rightarrow> bytes option \<Rightarrow> ('z world_scheme, u64 result) state" where
  "kv_putOnce s ctx key expected value =
     (let stored = (case value of None \<Rightarrow> [] | Some v \<Rightarrow> v) in
      if expected = 0 then do {
        r \<leftarrow> pool_QueryRow ctx (kv_insert_stmt s key stored);
        State_Monad.return (scanned scan_one_uint64 r) }
      else do {
        r \<leftarrow> pool_QueryRow ctx (kv_update_stmt s key expected stored);
        State_Monad.return (scanned scan_one_uint64 r) })"

definition kv_resolvePut ::
  "kv_store \<Rightarrow> string \<Rightarrow> u64 \<Rightarrow> bytes option \<Rightarrow> err \<Rightarrow> ('z world_scheme, u64 result) state" where
  "kv_resolvePut s key expected value cause = do {
     ctx \<leftarrow> WithTimeout Background AuthoritativeReadTimeout;
     r \<leftarrow> pool_QueryRow ctx (kv_select_stmt s key);
     State_Monad.return (case scanned kv_scan r of
         Inr (stored, revision) \<Rightarrow>
           if revision = expected + 1 \<and> bytes_Equal stored value then Inr revision
           else if revision = expected then Inl cause
           else Inl (Conflict key expected)
       | Inl e \<Rightarrow>
           if e = ErrNoRows then Inl cause
           else Inl (RedactedError ''kv put outcome resolution'')) }"

definition kv_Put ::
  "(string \<Rightarrow> err option) \<Rightarrow> kv_store \<Rightarrow> go_context option \<Rightarrow> string \<Rightarrow> u64 \<Rightarrow> bytes option \<Rightarrow>
   ('z world_scheme, u64 result) state" where
  "kv_Put vn s ctx0 key expected value = do {
     b \<leftarrow> Bound ctx0 ''KV.Put'' (kv_operationTimeout s);
     case b of Inl e \<Rightarrow> State_Monad.return (Inl e) | Inr ctx \<Rightarrow>
     (case vn key of Some e \<Rightarrow> State_Monad.return (Inl e) | None \<Rightarrow> do {
        r \<leftarrow> kv_putOnce s ctx key expected value;
        case r of
          Inl e \<Rightarrow> if e = ErrNoRows then State_Monad.return (Inl (Conflict key expected))
                   else do { cause \<leftarrow> kv_safeCause ctx ''kv put'';
                             kv_resolvePut s key expected value cause }
        | Inr revision \<Rightarrow> State_Monad.return (Inr revision) }) }"

text \<open>The row loop of \<open>Keys\<close>: it stops at the first row that does not scan.\<close>

fun scan_keys :: "row list \<Rightarrow> string list result" where
  "scan_keys [] = Inr []"
| "scan_keys (r # rs) = (case scan_one_text r of Inl e \<Rightarrow> Inl e | Inr k \<Rightarrow>
     (case scan_keys rs of Inl e \<Rightarrow> Inl e | Inr ks \<Rightarrow> Inr (k # ks)))"

definition kv_Keys ::
  "kv_store \<Rightarrow> go_context option \<Rightarrow> string \<Rightarrow> ('z world_scheme, string list result) state" where
  "kv_Keys s ctx0 prefix = do {
     b \<leftarrow> Bound ctx0 ''KV.Keys'' (kv_operationTimeout s);
     case b of Inl e \<Rightarrow> State_Monad.return (Inl e) | Inr ctx \<Rightarrow> do {
       rows \<leftarrow> pool_Query ctx (kv_keys_stmt s prefix);
       case rows of
         Inl e \<Rightarrow> do { f \<leftarrow> kv_failure ctx ''kv keys''; State_Monad.return (Inl f) }
       | Inr rs \<Rightarrow> State_Monad.return (case scan_keys rs of
             Inl e \<Rightarrow> Inl (RedactedError ''kv keys'') | Inr keys \<Rightarrow> Inr keys) } }"

definition kv_deleteOnce :: "kv_store \<Rightarrow> go_context \<Rightarrow> string \<Rightarrow> ('z world_scheme, unit result) state" where
  "kv_deleteOnce s ctx key = pool_Exec ctx (kv_delete_stmt s key)"

definition kv_resolveDelete :: "kv_store \<Rightarrow> string \<Rightarrow> err \<Rightarrow> ('z world_scheme, unit result) state" where
  "kv_resolveDelete s key cause = do {
     ctx \<leftarrow> WithTimeout Background AuthoritativeReadTimeout;
     r \<leftarrow> pool_QueryRow ctx (kv_exists_stmt s key);
     State_Monad.return (case scanned scan_one_uint64 r of
         Inr _ \<Rightarrow> Inl cause
       | Inl e \<Rightarrow> if e = ErrNoRows then Inr ()
                  else Inl (RedactedError ''kv delete outcome resolution'')) }"

definition kv_Delete ::
  "(string \<Rightarrow> err option) \<Rightarrow> kv_store \<Rightarrow> go_context option \<Rightarrow> string \<Rightarrow> ('z world_scheme, unit result) state" where
  "kv_Delete vn s ctx0 key = do {
     b \<leftarrow> Bound ctx0 ''KV.Delete'' (kv_operationTimeout s);
     case b of Inl e \<Rightarrow> State_Monad.return (Inl e) | Inr ctx \<Rightarrow>
     (case vn key of Some e \<Rightarrow> State_Monad.return (Inl e) | None \<Rightarrow> do {
        r \<leftarrow> kv_deleteOnce s ctx key;
        case r of
          Inl e \<Rightarrow> do { cause \<leftarrow> kv_safeCause ctx ''kv delete''; kv_resolveDelete s key cause }
        | Inr _ \<Rightarrow> State_Monad.return (Inr ()) }) }"

section \<open>What the statements do\<close>

text \<open>The caller's expectation: revision 0 means the key is absent.\<close>

definition kv_matches :: "string \<Rightarrow> u64 \<Rightarrow> database \<Rightarrow> bool" where
  "kv_matches key expected d = (case fmlookup (t_kv d) key of
     None \<Rightarrow> expected = 0 | Some r \<Rightarrow> expected \<noteq> 0 \<and> kv_revision r = uint expected)"

text \<open>The compare-and-set step, and the deletion step, of the table.\<close>

definition stored_value :: "bytes option \<Rightarrow> bytes" where
  "stored_value value = (case value of None \<Rightarrow> [] | Some v \<Rightarrow> v)"

definition kv_cas :: "string \<Rightarrow> u64 \<Rightarrow> bytes option \<Rightarrow> database \<Rightarrow> database \<Rightarrow> bool" where
  "kv_cas key expected value d d' \<longleftrightarrow> kv_matches key expected d \<and> uint expected < max_int64 \<and>
     d' = d\<lparr>t_kv := fmupd key \<lparr>kv_revision = uint expected + 1, kv_value = stored_value value\<rparr> (t_kv d)\<rparr>"

definition kv_removal :: "string \<Rightarrow> database \<Rightarrow> database \<Rightarrow> bool" where
  "kv_removal key d d' \<longleftrightarrow> key |\<in>| fmdom (t_kv d) \<and> d' = d\<lparr>t_kv := fmdrop key (t_kv d)\<rparr>"

lemmas kv_statements = kv_select_stmt_def kv_insert_stmt_def kv_update_stmt_def kv_delete_stmt_def
  kv_exists_stmt_def kv_keys_stmt_def

lemma kv_update_sem:
  assumes "expected \<noteq> 0" "sql_sem (kv_update_stmt s key expected (stored_value value)) now d = (Inr rows, ws)"
  shows "(rows = [] \<and> ws = [] \<and> \<not> kv_matches key expected d) \<or>
     (rows = [[CInt (uint expected + 1)]] \<and> ws \<noteq> [] \<and> kv_cas key expected value d (apply_writes ws d))"
proof (cases "fmlookup (t_kv d) key")
  case None
  with assms show ?thesis
    by (auto simp: kv_update_stmt_def bigint_arg_def kv_matches_def split: if_splits)
next
  case (Some r)
  with assms show ?thesis
    by (auto simp: kv_update_stmt_def bigint_arg_def kv_matches_def kv_cas_def split: if_splits)
qed

lemma kv_insert_sem:
  assumes "sql_sem (kv_insert_stmt s key (stored_value value)) now d = (Inr rows, ws)"
  shows "(rows = [] \<and> ws = [] \<and> \<not> kv_matches key 0 d) \<or>
     (rows = [[CInt 1]] \<and> ws \<noteq> [] \<and> kv_cas key 0 value d (apply_writes ws d))"
  using assms
  by (auto simp: kv_insert_stmt_def kv_matches_def kv_cas_def max_int64_def split: option.splits)

lemma kv_write_no_NoRows:
  "fst (sql_sem (kv_update_stmt s key e v) now d) \<noteq> Inl ErrNoRows"
  "fst (sql_sem (kv_insert_stmt s key v) now d) \<noteq> Inl ErrNoRows"
  by (auto simp: kv_statements bigint_arg_def out_of_range_def split: option.splits if_splits)

definition kv_row_list :: "string \<Rightarrow> database \<Rightarrow> row list" where
  "kv_row_list key d = (case fmlookup (t_kv d) key of None \<Rightarrow> []
     | Some r \<Rightarrow> [[CBytes (kv_value r), CInt (kv_revision r)]])"

lemma kv_select_sem: "sql_sem (kv_select_stmt s key) now d = (Inr (kv_row_list key d), [])"
  by (simp add: kv_select_stmt_def kv_row_list_def split: option.split)

lemma kv_scan_row [simp]:
  "kv_row_ok r \<Longrightarrow> kv_scan [CBytes (kv_value r), CInt (kv_revision r)] =
     Inr (Some (kv_value r), word_of_int (kv_revision r))"
  by (simp add: kv_scan_def scan_bytes_def scan_uint64_def kv_row_ok_def max_int64_def max_uint64_def)

text \<open>One attempt of \<open>Put\<close>, on every branch.\<close>

lemma kv_putOnce_cases:
  assumes "run_state (kv_putOnce s ctx key expected value) w = (r, w')"
  obtains (Failed) e where "r = Inl e" "e \<noteq> ErrNoRows" "others_only w w'"
  | (Mismatch) "r = Inl ErrNoRows" "others_only w w'" "\<not> kv_matches key expected (db w')"
  | (Written) w1 ws where "others_only w w1" "ws \<noteq> []" "w' = commit_ours ws w1"
      "kv_cas key expected value (db w1) (db w')"
      "r = Inr (expected + 1) \<or> (r = Inl DriverError \<and> ev_fault (next_event w) = AckLost)"
proof -
  define st where "st = (if expected = 0 then kv_insert_stmt s key (stored_value value)
    else kv_update_stmt s key expected (stored_value value))"
  obtain q where q: "run_state (pool_QueryRow ctx st) w = (q, w')" and r: "r = scanned scan_one_uint64 q"
    using assms by (auto simp: kv_putOnce_def st_def stored_value_def Let_def split: if_splits prod.splits)
  have sem: "(rows = [] \<and> ws = [] \<and> \<not> kv_matches key expected d) \<or>
      (rows = [[CInt (uint expected + 1)]] \<and> ws \<noteq> [] \<and> kv_cas key expected value d (apply_writes ws d))"
    if "sql_sem st now d = (Inr rows, ws)" for now d rows ws
    using that kv_insert_sem [of s key "value" now d rows ws] kv_update_sem [of expected s key "value" now d rows ws]
    by (auto simp: st_def split: if_splits)
  from q show thesis
  proof (cases rule: pool_QueryRow_cases)
    case (Failed e)
    then have "e \<noteq> ErrNoRows"
      using kv_write_no_NoRows by (auto simp: st_def split: if_splits)
    with Failed r show thesis by (intro that(1) [of e]) auto
  next
    case (Done w1 now rows ws)
    from sem [OF Done(2)] show thesis
    proof
      assume "rows = [] \<and> ws = [] \<and> \<not> kv_matches key expected (db w1)"
      with Done r show thesis
        by (cases "ev_fault (next_event w)") (auto intro: that(1) [of DriverError] that(2))
    next
      assume wr: "rows = [[CInt (uint expected + 1)]] \<and> ws \<noteq> [] \<and>
        kv_cas key expected value (db w1) (apply_writes ws (db w1))"
      then have "scan_one_uint64 [CInt (uint expected + 1)] = Inr (expected + 1)"
        by (simp add: kv_cas_def)
      with wr Done r show thesis
        by (intro that(3) [of w1 ws]) auto
    qed
  qed
qed

lemma kv_select_cases:
  assumes "run_state (pool_QueryRow ctx (kv_select_stmt s key)) w = (r, w')"
  obtains (Failed) e where "r = Inl e" "e \<noteq> ErrNoRows" "others_only w w'" "txn w' = txn w"
  | (Absent) "r = Inl ErrNoRows" "others_only w w'" "fmlookup (t_kv (db w')) key = None" "txn w' = txn w"
  | (Found) x where "r = Inr [CBytes (kv_value x), CInt (kv_revision x)]" "others_only w w'"
      "fmlookup (t_kv (db w')) key = Some x" "txn w' = txn w"
proof -
  obtain q where q: "run_state (pool_run ctx (kv_select_stmt s key)) w = (q, w')" and r: "r = first_row q"
    using assms by (auto simp: pool_QueryRow_def split: prod.splits)
  from q kv_select_sem show thesis
  proof (cases rule: pool_read_cases)
    case (Failed e)
    with r show thesis by (intro that(1) [of e]) auto
  next
    case Read
    with r show thesis
      by (cases "fmlookup (t_kv (db w')) key") (auto simp: kv_row_list_def intro: that)
  qed
qed

lemma kv_exists_sem:
  "sql_sem (kv_exists_stmt s key) now d =
     (Inr (if key |\<in>| fmdom (t_kv d) then [[CInt 1]] else []), [])"
  by (auto simp: kv_exists_stmt_def fmlookup_dom_iff split: option.split)

lemma kv_keys_sem:
  "sql_sem (kv_keys_stmt s p) now d = (Inr (map (\<lambda>k. [CText k])
     (filter (\<lambda>k. pg_left k (pg_length p) = p) (sorted_list_of_fset (fmdom (t_kv d))))), [])"
  by (simp add: kv_keys_stmt_def)

lemma kv_failure_run [simp]:
  "run_state (kv_failure ctx operation) w =
     ((case ev_ctx_err (next_event w) of Some x \<Rightarrow> CtxError x | None \<Rightarrow> RedactedError operation),
      w\<lparr>script := tl (script w)\<rparr>)"
  by (simp add: kv_failure_def)

lemma kv_safeCause_run [simp]:
  "run_state (kv_safeCause ctx operation) w =
     ((case ev_ctx_err (next_event w) of Some x \<Rightarrow> CtxError x | None \<Rightarrow> RedactedError operation),
      w\<lparr>script := tl (script w)\<rparr>)"
  by (simp add: kv_safeCause_def)

lemma guarantees_kv_failure [guarantee_intros]:
  "guarantees R (kv_failure ctx operation)" "guarantees R (kv_safeCause ctx operation)"
  unfolding kv_failure_def kv_safeCause_def by (intro guarantee_intros)+

lemma sends_kv_failure [sends_intros]:
  "sends P (kv_failure ctx operation)" "sends P (kv_safeCause ctx operation)"
  unfolding kv_failure_def kv_safeCause_def by (intro sends_intros)+

lemma guarantees_kv_select [guarantee_intros]:
  "guarantees R (pool_QueryRow ctx (kv_select_stmt s key))"
  "guarantees R (pool_QueryRow ctx (kv_exists_stmt s key))"
  "guarantees R (pool_Query ctx (kv_keys_stmt s key))"
  by (rule guarantees_pool_calls; simp add: kv_select_sem kv_exists_sem kv_keys_sem)+

lemma guarantees_kv_putOnce [guarantee_intros]:
  "guarantees (kv_cas key expected v) (kv_putOnce s ctx key expected v)"
  unfolding kv_putOnce_def Let_def stored_value_def [symmetric]
  by (intro guarantee_intros) (auto dest: kv_insert_sem kv_update_sem)

lemma guarantees_kv_deleteOnce [guarantee_intros]:
  "guarantees (kv_removal key) (kv_deleteOnce s ctx key)"
  unfolding kv_deleteOnce_def
  by (rule guarantees_pool_calls)
    (auto simp: kv_delete_stmt_def kv_removal_def fmlookup_dom_iff split: option.splits)

text \<open>The reread after a failed \<open>Put\<close>, on every branch.\<close>

lemma bytes_Equal_stored [simp]: "bytes_Equal (Some b) v \<longleftrightarrow> b = stored_value v"
  by (simp add: bytes_Equal_def stored_value_def split: option.split)

lemma kv_scan_found:
  "0 \<le> kv_revision x \<Longrightarrow> kv_revision x \<le> max_uint64 \<Longrightarrow>
    kv_scan [CBytes (kv_value x), CInt (kv_revision x)] = Inr (Some (kv_value x), word_of_int (kv_revision x))"
  by (simp add: kv_scan_def scan_bytes_def scan_uint64_def)

lemma kv_scan_refused:
  "\<not> (0 \<le> kv_revision x \<and> kv_revision x \<le> max_uint64) \<Longrightarrow>
    \<exists>e. kv_scan [CBytes (kv_value x), CInt (kv_revision x)] = Inl e \<and> e \<noteq> ErrNoRows"
  by (auto simp: kv_scan_def scan_bytes_def scan_uint64_def)

text \<open>The answer of \<^const>\<open>kv_resolvePut\<close> once the row has been read.\<close>

definition put_verdict :: "string \<Rightarrow> u64 \<Rightarrow> bytes option \<Rightarrow> err \<Rightarrow> kv_row \<Rightarrow> u64 result" where
  "put_verdict key expected v cause x = (case kv_scan [CBytes (kv_value x), CInt (kv_revision x)] of
     Inl e \<Rightarrow> if e = ErrNoRows then Inl cause else Inl (RedactedError ''kv put outcome resolution'')
   | Inr (current, revision) \<Rightarrow>
       if revision = expected + 1 \<and> bytes_Equal current v then Inr revision
       else if revision = expected then Inl cause else Inl (Conflict key expected))"

lemma put_verdict_cases:
  assumes r: "r = put_verdict key expected v cause x"
  obtains (Ours) "r = Inr (expected + 1)" "kv_revision x = uint (expected + 1)" "kv_value x = stored_value v"
  | (Same) "r = Inl cause" "kv_revision x = uint expected"
  | (Other) "r = Inl (Conflict key expected)" "kv_revision x \<noteq> uint expected"
  | (Unreadable) "r = Inl (Redacted ''kv put outcome resolution'')"
proof (cases "0 \<le> kv_revision x \<and> kv_revision x \<le> max_uint64")
  case True
  then have wi: "(word_of_int (kv_revision x) = (u :: u64)) = (kv_revision x = uint u)" for u
    by (auto simp: word_of_int_eq_iff_range)
  have v: "r = (if kv_revision x = uint (expected + 1) \<and> kv_value x = stored_value v
      then Inr (word_of_int (kv_revision x)) else if kv_revision x = uint expected then Inl cause else Inl (Conflict key expected))"
    using True unfolding r put_verdict_def by (simp add: kv_scan_found wi)
  show thesis
  proof (cases "kv_revision x = uint (expected + 1) \<and> kv_value x = stored_value v")
    case True
    with v show thesis by (intro that(1)) simp_all
  next
    case False
    then show thesis using v that(2,3) by (cases "kv_revision x = uint expected") simp_all
  qed
next
  case False
  from kv_scan_refused [OF this] show thesis
    by (intro that(4)) (auto simp: r put_verdict_def RedactedError_def)
qed

lemma kv_resolvePut_cases:
  assumes "run_state (kv_resolvePut s key expected v cause) w = (r, w')"
  obtains (Resolved) x where "r = Inr (expected + 1)" "others_only w w'" "txn w' = txn w"
      "fmlookup (t_kv (db w')) key = Some x" "kv_revision x = uint (expected + 1)" "kv_value x = stored_value v"
  | (Unchanged) "r = Inl cause" "others_only w w'" "txn w' = txn w"
  | (Changed) "r = Inl (Conflict key expected)" "others_only w w'" "txn w' = txn w"
      "\<not> kv_matches key expected (db w')"
  | (Unknown) "r = Inl (Redacted ''kv put outcome resolution'')" "others_only w w'" "txn w' = txn w"
proof -
  let ?w1 = "w\<lparr>script := tl (script w)\<rparr>"
  let ?ctx = "WithDeadline Background (ev_clock (next_event w) + AuthoritativeReadTimeout)"
  obtain q where q: "run_state (pool_QueryRow ?ctx (kv_select_stmt s key)) ?w1 = (q, w')"
    using assms by (auto simp: kv_resolvePut_def split: prod.splits)
  have oo: "others_only w w'" if "others_only ?w1 w'"
    using others_only_trans [of w ?w1 w'] that by simp
  from q show thesis
  proof (cases rule: kv_select_cases)
    case (Failed e)
    with assms q oo show thesis by (intro that(4)) (auto simp: kv_resolvePut_def RedactedError_def)
  next
    case Absent
    with assms q oo show thesis by (intro that(2)) (auto simp: kv_resolvePut_def)
  next
    case (Found x)
    note seen = oo [OF Found(2)] Found(3,4)
    from assms q Found(1) have "r = put_verdict key expected v cause x"
      by (simp add: kv_resolvePut_def put_verdict_def split: sum.splits prod.splits)
    then show thesis
    proof (cases rule: put_verdict_cases)
      case Ours
      with seen show thesis by (intro that(1) [of x]) auto
    next
      case Same
      with seen show thesis by (intro that(2)) auto
    next
      case Other
      with seen show thesis by (intro that(3)) (auto simp: kv_matches_def)
    next
      case Unreadable
      with seen show thesis by (intro that(4)) auto
    qed
  qed
qed

text \<open>A whole \<open>Put\<close>: what it returned, what it committed, what it saw.\<close>

lemma kv_Put_cases:
  assumes "run_state (kv_Put vn s c key expected v) w = (r, w')" and "vn key = None"
  obtains (NilContext) "r = Inl (DeadlineRequired ''KV.Put'')" "w' = w"
  | (Direct) w0 w1 ws where "r = Inr (expected + 1)" "others_only w w0" "others_only w0 w1" "ws \<noteq> []"
      "w' = commit_ours ws w1" "kv_cas key expected v (db w1) (db w')"
  | (Mismatch) "r = Inl (Conflict key expected)" "others_only w w'" "\<not> kv_matches key expected (db w')"
  | (Resolved) w1 w2 cause where "leads_to w w1" "others_only w1 w2"
      "run_state (kv_resolvePut s key expected v cause) w2 = (r, w')" "cause \<noteq> Conflict key expected"
      "our_commits w w1 = [] \<or> (\<exists>d. our_commits w w1 = [\<lparr>by_us = True, pre = d, post = db w1\<rparr>] \<and>
         kv_cas key expected v d (db w1) \<and> \<not> reliable (script w))"
proof -
  obtain b wb where b: "run_state (Bound c ''KV.Put'' (kv_operationTimeout s)) w = (b, wb)"
    by (meson surj_pair)
  from b show thesis
  proof (cases rule: Bound_cases)
    case Refused
    with assms b show thesis by (intro that(1)) (auto simp: kv_Put_def)
  next
    case (Bounded ctx)
    obtain p wp where p: "run_state (kv_putOnce s ctx key expected v) wb = (p, wp)"
      by (meson surj_pair)
    let ?cause = "case ev_ctx_err (next_event wp) of Some x \<Rightarrow> CtxError x | None \<Rightarrow> RedactedError ''kv put''"
    let ?w2 = "wp\<lparr>script := tl (script wp)\<rparr>"
    have cause: "?cause \<noteq> Conflict key expected"
      by (simp add: RedactedError_def split: option.split)
    from p show thesis
    proof (cases rule: kv_putOnce_cases)
      case (Failed e)
      have oo: "others_only w wp" using Bounded Failed by (blast intro: others_only_trans)
      from Failed assms b Bounded p have "run_state (kv_resolvePut s key expected v ?cause) ?w2 = (r, w')"
        by (auto simp: kv_Put_def)
      with oo cause others_only_ours [OF oo] show thesis by (intro that(4) [of wp ?w2 ?cause]) auto
    next
      case Mismatch
      with assms b Bounded p show thesis
        by (intro that(3)) (auto simp: kv_Put_def intro: others_only_trans)
    next
      case (Written w1 ws)
      note wr = this
      have oo: "others_only w w1" using Bounded wr by (blast intro: others_only_trans)
      show thesis
      proof (cases p)
        case (Inr rev)
        with wr have "rev = expected + 1" by auto
        with assms b Bounded p Inr wr show thesis
          by (intro that(2) [of wb w1 ws]) (auto simp: kv_Put_def)
      next
        case (Inl e)
        with wr have e: "e = DriverError" "ev_fault (next_event wb) = AckLost" by auto
        from Bounded e(2) have "\<not> reliable (script w)"
          using leads_to_reliable [of w wb] reliable_next [of wb] by blast
        moreover have "our_commits w wp = [\<lparr>by_us = True, pre = db w1, post = db wp\<rparr>]"
          using our_commits_trans [of w w1 wp] oo others_only_ours [OF oo] wr(2,3)
          by (simp add: our_commits_commit_ours others_only_leads_to)
        moreover have "leads_to w wp"
          using oo wr(3) by (auto intro: leads_to_trans)
        moreover from assms b Bounded p Inl e(1)
        have "run_state (kv_resolvePut s key expected v ?cause) ?w2 = (r, w')"
          by (auto simp: kv_Put_def)
        ultimately show thesis
          using cause wr(4) by (intro that(4) [of wp ?w2 ?cause]) auto
      qed
    qed
  qed
qed

lemma kv_Put_invalid:
  "vn key = Some e \<Longrightarrow> run_state (kv_Put vn s c key expected v) w = (r, w') \<Longrightarrow> others_only w w'"
  by (auto simp: kv_Put_def Bound_run split: option.splits)

lemma kv_seen_after_resolve:
  "leads_to w w1 \<Longrightarrow> others_only w1 w2 \<Longrightarrow> others_only w2 w' \<Longrightarrow>
   our_commits w w' = our_commits w w1"
  using our_commits_trans [of w w1 w'] others_only_ours [of w1 w'] others_only_trans [of w1 w2 w']
  by (simp add: others_only_leads_to)

lemma kv_resolvePut_others:
  "run_state (kv_resolvePut s key expected v cause) w = (r, w') \<Longrightarrow> others_only w w'"
  by (erule kv_resolvePut_cases) auto

section \<open>Properties of Put\<close>

text \<open>
  C1. Whatever the other sessions, the network and the clocks do, every change \<open>Put\<close> commits
  is exactly one compare-and-set: the row had the expected revision (or was absent for
  revision 0), and afterwards it has the next revision and the caller's value, nothing else
  having changed.
\<close>

theorem kv_Put_commits: "guarantees (kv_cas key expected v) (kv_Put vn s c key expected v)"
  unfolding kv_Put_def kv_resolvePut_def by (intro guarantee_intros)

text \<open>
  \<open>Put\<close> commits at most once, also when the acknowledgement is lost and it rereads.
\<close>

theorem kv_Put_at_most_once:
  assumes "run_state (kv_Put vn s c key expected v) w = (r, w')"
  shows "length (our_commits w w') \<le> 1"
proof (cases "vn key")
  case (Some e)
  then show ?thesis
    using kv_Put_invalid [OF Some assms] by (simp add: others_only_ours)
next
  case None
  from assms None show ?thesis
  proof (cases rule: kv_Put_cases)
    case (Direct w0 w1 ws)
    then have "others_only w w1" by (blast intro: others_only_trans)
    then show ?thesis
      using our_commits_trans [of w w1 w'] Direct by (auto simp: our_commits_commit_ours others_only_ours others_only_leads_to)
  next
    case (Resolved w1 w2 cause)
    then have "our_commits w w' = our_commits w w1"
      by (blast intro: kv_seen_after_resolve kv_resolvePut_others)
    with Resolved show ?thesis by auto
  qed (auto simp: others_only_ours)
qed

text \<open>
  C18. \<open>Put\<close> reports success only with the next revision, and only if some committed state
  during the call held the caller's value at that revision.
\<close>

theorem kv_Put_success:
  assumes "run_state (kv_Put vn s c key expected v) w = (Inr n, w')" and "vn key = None"
  shows "n = expected + 1 \<and> (\<exists>d \<in> set (states w w'). \<exists>x. fmlookup (t_kv d) key = Some x \<and>
    kv_revision x = uint (expected + 1) \<and> kv_value x = stored_value v)"
  using assms
proof (cases rule: kv_Put_cases)
  case (Direct w0 w1 ws)
  then have "uint (expected + 1) = uint expected + 1"
    by (simp add: kv_cas_def uint_succ_int64)
  with Direct show ?thesis
    using final_state [of w' w] by (auto simp: kv_cas_def intro!: bexI [of _ "db w'"])
next
  case (Resolved w1 w2 cause)
  from Resolved(3) show ?thesis
    by (cases rule: kv_resolvePut_cases) (auto intro!: bexI [of _ "db w'"] final_state)
qed auto

text \<open>
  \<open>Put\<close> reports a conflict only if some committed state during the call did not have the
  expected revision.
\<close>

theorem kv_Put_conflict:
  assumes "run_state (kv_Put vn s c key expected v) w = (Inl (Conflict key expected), w')" and "vn key = None"
  shows "\<exists>d \<in> set (states w w'). \<not> kv_matches key expected d"
  using assms
proof (cases rule: kv_Put_cases)
  case Mismatch
  then show ?thesis using final_state [of w' w] by blast
next
  case (Resolved w1 w2 cause)
  from Resolved(3) show ?thesis
  proof (cases rule: kv_resolvePut_cases)
    case Unchanged
    with Resolved(4) show ?thesis by simp
  next
    case Changed
    then show ?thesis using final_state [of w' w] by blast
  qed auto
qed auto

text \<open>
  When no acknowledgement is lost, an error of \<open>Put\<close> is definite: nothing was committed.
\<close>

theorem kv_Put_error_definite:
  assumes "run_state (kv_Put vn s c key expected v) w = (Inl e, w')" and "vn key = None"
    and "reliable (script w)"
  shows "our_commits w w' = []"
  using assms(1,2)
proof (cases rule: kv_Put_cases)
  case (Resolved w1 w2 cause)
  with assms(3) have "our_commits w w1 = []" by auto
  with Resolved show ?thesis
    using kv_seen_after_resolve [of w w1 w2 w'] kv_resolvePut_others by metis
qed (auto simp: others_only_ours)

section \<open>Properties of Get, Keys and Delete\<close>

text \<open>
  \<open>Get\<close> changes nothing; a value it returns is a row of one committed state seen during
  the call, with that row's revision, and \<open>KeyNotFoundError\<close> means the key was absent in one.
\<close>

theorem kv_Get_reads_committed:
  assumes "run_state (kv_Get vn s c key) w = (r, w')" and vn: "vn key = None"
  shows "our_commits w w' = [] \<and>
    (\<forall>b n. r = Inr (b, n) \<longrightarrow> (\<exists>d \<in> set (states w w'). \<exists>x. fmlookup (t_kv d) key = Some x \<and>
       b = Some (kv_value x) \<and> uint n = kv_revision x)) \<and>
    (r = Inl (KeyNotFound key) \<longrightarrow> (\<exists>d \<in> set (states w w'). fmlookup (t_kv d) key = None))"
  using assms(1) [unfolded kv_Get_def]
proof (cases rule: after_Bound)
  case Refused
  then show ?thesis by (simp add: our_commits_def commits_def)
next
  case (Bounded ctx wb)
  obtain q wq where q: "run_state (pool_QueryRow ctx (kv_select_stmt s key)) wb = (q, wq)"
    by (meson surj_pair)
  note run = Bounded(4) [simplified vn, simplified, simplified q, simplified]
  have oo: "others_only w wq"
    using q Bounded(2) by (cases rule: kv_select_cases) (auto intro: others_only_trans)
  from q show ?thesis
  proof (cases rule: kv_select_cases)
    case (Failed e)
    then have "others_only w w'" "\<exists>x. r = Inl x \<and> x \<noteq> KeyNotFound key"
      using run oo others_only_trans [of w wq w'] by (auto simp: RedactedError_def split: option.splits)
    then show ?thesis using others_only_ours [of w w'] by auto
  next
    case Absent
    with run have "r = Inl (KeyNotFound key)" "w' = wq" by auto
    with others_only_ours [OF oo] Absent final_state [of w' w] show ?thesis by auto
  next
    case (Found x)
    show ?thesis
    proof (cases "0 \<le> kv_revision x \<and> kv_revision x \<le> max_uint64")
      case True
      then have u: "uint (word_of_int (kv_revision x) :: u64) = kv_revision x"
        using word_of_int_eq_iff_range [of "kv_revision x" "word_of_int (kv_revision x)"] by simp
      from True Found run have "r = Inr (Some (kv_value x), word_of_int (kv_revision x))" "w' = wq"
        by (auto simp: kv_scan_def scan_bytes_def scan_uint64_def)
      with u others_only_ours [OF oo] Found final_state [of w' w] show ?thesis by auto
    next
      case False
      with Found run oo have "others_only w w'" "\<exists>y. r = Inl y \<and> y \<noteq> KeyNotFound key"
        using others_only_trans [of w wq w']
        by (auto simp: kv_scan_def scan_bytes_def scan_uint64_def RedactedError_def split: option.splits)
      then show ?thesis using others_only_ours [of w w'] by auto
    qed
  qed
qed

text \<open>Well-formed UTF-8, as far as the byte structure goes: a lead byte and its continuation bytes.\<close>

definition utf8_width :: "char \<Rightarrow> nat" where
  "utf8_width c = (let n = (of_char c :: nat) in
     if n < 128 then 1 else if n < 192 then 0 else if n < 224 then 2
     else if n < 240 then 3 else if n < 248 then 4 else 0)"

fun utf8_wf :: "string \<Rightarrow> bool" where
  "utf8_wf [] = True"
| "utf8_wf (c # s) \<longleftrightarrow> 0 < utf8_width c \<and> utf8_width c - 1 \<le> length s \<and>
     (\<forall>x \<in> set (take (utf8_width c - 1) s). utf8_continuation x) \<and> utf8_wf (drop (utf8_width c - 1) s)"

lemma utf8_width_continuation: "utf8_continuation c \<Longrightarrow> utf8_width c = 0"
  by (simp add: utf8_width_def utf8_continuation_def Let_def)

lemma utf8_wf_hd: "utf8_wf s \<Longrightarrow> s = [] \<or> \<not> utf8_continuation (hd s)"
  by (cases s) (auto dest: utf8_width_continuation)

lemma utf8_wf_suffix: "utf8_wf p \<Longrightarrow> utf8_wf (p @ r) \<Longrightarrow> utf8_wf r"
  by (induction p rule: utf8_wf.induct) auto

lemma pg_left_append:
  "r = [] \<or> \<not> utf8_continuation (hd r) \<Longrightarrow> pg_left (p @ r) (pg_length p) = p"
proof (induction p)
  case Nil
  then show ?case by (cases r) (auto simp: pg_length_def)
next
  case (Cons a p)
  then show ?case by (auto simp: pg_length_def)
qed

lemma pg_left_prefix: "take (length (pg_left s n)) s = pg_left s n"
proof (induction s n rule: pg_left.induct)
  case (2 c s n)
  then show ?case by (cases n) auto
qed simp

lemma pg_left_iff_prefix:
  assumes "utf8_wf p" and "utf8_wf k"
  shows "pg_left k (pg_length p) = p \<longleftrightarrow> (\<exists>r. k = p @ r)"
proof
  assume "pg_left k (pg_length p) = p"
  then have "take (length p) k = p" using pg_left_prefix [of k "pg_length p"] by simp
  then have "take (length p) k @ drop (length p) k = p @ drop (length p) k" by (rule arg_cong)
  then show "\<exists>r. k = p @ r" unfolding append_take_drop_id by (rule exI)
next
  assume "\<exists>r. k = p @ r"
  then obtain r where r: "k = p @ r" by blast
  have "utf8_wf r" using assms utf8_wf_suffix [of p r] unfolding r by blast
  then show "pg_left k (pg_length p) = p" using r utf8_wf_hd pg_left_append by blast
qed

lemma scan_keys_text [simp]: "scan_keys (map (\<lambda>k. [CText k]) ks) = Inr ks"
  by (induction ks) (auto simp: scan_one_text_def scan_text_def)

text \<open>
  \<open>Keys\<close> returns, in byte order and without duplicates, exactly the keys of one committed
  state that start with the prefix -- the SQL comparison of character counts is a byte-prefix
  test on UTF-8 text.
\<close>

theorem kv_Keys_prefix_sorted:
  assumes "run_state (kv_Keys s c p) w = (Inr ks, w')"
    and "utf8_wf p" and "\<forall>d \<in> set (states w w'). \<forall>k. k |\<in>| fmdom (t_kv d) \<longrightarrow> utf8_wf k"
  shows "our_commits w w' = [] \<and> sorted ks \<and> distinct ks \<and>
    (\<exists>d \<in> set (states w w'). \<forall>k. k \<in> set ks \<longleftrightarrow> k |\<in>| fmdom (t_kv d) \<and> (\<exists>r. k = p @ r))"
  using assms(1) [unfolded kv_Keys_def]
proof (cases rule: after_Bound)
  case (Bounded ctx wb)
  obtain q wq where q: "run_state (pool_run ctx (kv_keys_stmt s p)) wb = (q, wq)"
    by (meson surj_pair)
  from q kv_keys_sem show ?thesis
  proof (cases rule: pool_read_cases)
    case (Failed e)
    with Bounded(4) q show ?thesis by (auto simp: pool_Query_def)
  next
    case Read
    with Bounded(4) q have w': "w' = wq" and
      ks: "ks = filter (\<lambda>k. pg_left k (pg_length p) = p) (sorted_list_of_fset (fmdom (t_kv (db wq))))"
      by (auto simp: pool_Query_def)
    have oo: "others_only w w'" using Bounded(2) Read w' by (blast intro: others_only_trans)
    have "\<forall>k. k \<in> set ks \<longleftrightarrow> k |\<in>| fmdom (t_kv (db w')) \<and> (\<exists>r. k = p @ r)"
      using ks w' assms(2,3) final_state [of w' w] pg_left_iff_prefix by auto
    moreover have "sorted ks" "distinct ks"
      using ks by (simp_all add: sorted_filter [where f = "\<lambda>x. x", simplified])
    ultimately show ?thesis
      using others_only_ours [OF oo] final_state [of w' w] by auto
  qed
qed auto

lemma kv_Delete_success:
  assumes "run_state (kv_Delete vn s c key) w = (Inr (), w')" and "vn key = None"
  shows "\<exists>d \<in> set (states w w'). key |\<notin>| fmdom (t_kv d)"
  using assms(1) [unfolded kv_Delete_def]
proof (cases rule: after_Bound)
  case (Bounded ctx wb)
  obtain q wq where q: "run_state (pool_run ctx (kv_delete_stmt s key)) wb = (q, wq)"
    by (meson surj_pair)
  show ?thesis
  proof (cases q)
    case (Inr rows)
    with Bounded(4) assms(2) q have w': "w' = wq"
      by (auto simp: kv_deleteOnce_def pool_Exec_def)
    from q have "key |\<notin>| fmdom (t_kv (db wq))"
      by (cases rule: pool_run_cases)
        (auto simp: Inr kv_delete_stmt_def fmlookup_dom_iff split: option.splits)
    then show ?thesis using w' final_state [of w' w] by blast
  next
    case (Inl e)
    let ?w1 = "wq\<lparr>script := tl (script wq)\<rparr>"
    let ?w2 = "?w1\<lparr>script := tl (script ?w1)\<rparr>"
    let ?ctx = "WithDeadline Background (ev_clock (next_event ?w1) + AuthoritativeReadTimeout)"
    obtain z wz where z: "run_state (pool_run ?ctx (kv_exists_stmt s key)) ?w2 = (z, wz)"
      by (meson surj_pair)
    from Bounded(4) assms(2) q z Inl have w': "w' = wz" and
      res: "\<exists>c. (case scanned scan_one_uint64 (first_row z) of Inr _ \<Rightarrow> Inl c
         | Inl e \<Rightarrow> if e = ErrNoRows then Inr () else Inl (RedactedError ''kv delete outcome resolution'')) = Inr ()"
      by (auto simp: kv_deleteOnce_def pool_Exec_def kv_resolveDelete_def pool_QueryRow_def)
    from z kv_exists_sem have "key |\<notin>| fmdom (t_kv (db wz))"
      using res by (cases rule: pool_read_cases)
        (auto split: if_splits simp: scan_one_uint64_def scan_uint64_def max_uint64_def)
    then show ?thesis using w' final_state [of w' w] by blast
  qed
qed simp

lemma kv_Delete_commits: "guarantees (kv_removal key) (kv_Delete vn s c key)"
  unfolding kv_Delete_def kv_resolveDelete_def by (intro guarantee_intros)

text \<open>
  Every change \<open>Delete\<close> commits removes that key and nothing else; and when it reports
  success the key was absent in some committed state during the call.
\<close>

theorem kv_Delete_sound:
  "guarantees (kv_removal key) (kv_Delete vn s c key) \<and>
   (run_state (kv_Delete vn s c key) w = (Inr (), w') \<and> vn key = None \<longrightarrow>
      (\<exists>d \<in> set (states w w'). key |\<notin>| fmdom (t_kv d)))"
  using kv_Delete_commits kv_Delete_success [of vn s c key w w'] by blast

section \<open>The sequential specification\<close>

text \<open>What \<open>Put\<close> does when nothing fails and nobody interferes, on every branch.\<close>

definition kv_put_spec ::
  "string \<Rightarrow> u64 \<Rightarrow> bytes option \<Rightarrow> database \<Rightarrow> u64 result \<times> database" where
  "kv_put_spec key expected v d =
     (if \<not> uint expected \<le> max_int64 then
        (if key |\<in>| fmdom (t_kv d) then (Inl (Conflict key expected), d) else (Inl (Redacted ''kv put''), d))
      else if \<not> kv_matches key expected d then (Inl (Conflict key expected), d)
      else if uint expected = max_int64 then (Inl (Redacted ''kv put''), d)
      else (Inr (expected + 1),
        d\<lparr>t_kv := fmupd key \<lparr>kv_revision = uint expected + 1, kv_value = stored_value v\<rparr> (t_kv d)\<rparr>))"

lemma quiet_world_step [simp]:
  "script w = [] \<Longrightarrow> script (advance w) = []"
  by simp

lemma pool_run_quiet:
  assumes "script w = []"
  shows "\<exists>w'. run_state (pool_run ctx s) w =
     ((case sql_sem s 0 (db w) of (Inl e, _) \<Rightarrow> Inl e | (Inr rows, _) \<Rightarrow> Inr rows), w') \<and> script w' = [] \<and>
     db w' = (case sql_sem s 0 (db w) of (Inl e, _) \<Rightarrow> db w | (Inr rows, ws) \<Rightarrow> apply_writes ws (db w))"
  using assms by (auto simp: pool_run_def Let_def split: prod.split sum.split)

lemma pool_QueryRow_quiet:
  assumes "script w = []"
  shows "\<exists>w'. run_state (pool_QueryRow ctx s) w =
     (first_row (case sql_sem s 0 (db w) of (Inl e, _) \<Rightarrow> Inl e | (Inr rows, _) \<Rightarrow> Inr rows), w') \<and> script w' = [] \<and>
     db w' = (case sql_sem s 0 (db w) of (Inl e, _) \<Rightarrow> db w | (Inr rows, ws) \<Rightarrow> apply_writes ws (db w))"
  using pool_run_quiet [OF assms, of ctx s] by (auto simp: pool_QueryRow_def)

lemma kv_putOnce_quiet:
  assumes q: "script w = []" and "constraints (db w)"
  shows "\<exists>w'. run_state (kv_putOnce s ctx key expected v) w =
     ((if \<not> uint expected \<le> max_int64 then Inl DriverError
       else if \<not> kv_matches key expected (db w) then Inl ErrNoRows
       else if uint expected = max_int64 then Inl out_of_range else Inr (expected + 1)), w') \<and>
     script w' = [] \<and> db w' = snd (kv_put_spec key expected v (db w))"
proof (cases "expected = 0")
  case True
  have m: "0 \<le> max_int64" "max_int64 \<noteq> 0" "0 < max_int64" by (simp_all add: max_int64_def)
  have sc: "scan_one_uint64 [CInt 1] = Inr 1"
    using scan_revision [of 0] m by simp
  show ?thesis
    using pool_QueryRow_quiet [OF q, of ctx "kv_insert_stmt s key (stored_value v)"] True m sc
    by (cases "fmlookup (t_kv (db w)) key")
      (auto simp: kv_putOnce_def Let_def stored_value_def [symmetric] kv_insert_stmt_def kv_matches_def
        kv_put_spec_def)
next
  case False
  show ?thesis
    using pool_QueryRow_quiet [OF q, of ctx "kv_update_stmt s key expected (stored_value v)"] False
    by (cases "fmlookup (t_kv (db w)) key")
      (auto simp: kv_putOnce_def Let_def stored_value_def [symmetric] kv_update_stmt_def kv_matches_def
        kv_put_spec_def bigint_arg_def)
qed

lemma kv_resolvePut_quiet:
  assumes q: "script w = []" and c: "constraints (db w)" and m: "max_int64 \<le> uint expected"
  shows "\<exists>w'. run_state (kv_resolvePut s key expected v cause) w =
     ((case fmlookup (t_kv (db w)) key of None \<Rightarrow> Inl cause
       | Some x \<Rightarrow> if kv_revision x = uint expected then Inl cause else Inl (Conflict key expected)), w') \<and>
     db w' = db w"
proof -
  let ?w1 = "w\<lparr>script := []\<rparr>"
  let ?ctx = "WithDeadline Background AuthoritativeReadTimeout"
  obtain w' where w': "run_state (pool_QueryRow ?ctx (kv_select_stmt s key)) ?w1 =
      (first_row (Inr (kv_row_list key (db w))), w')" "db w' = db w"
    using pool_QueryRow_quiet [of ?w1 ?ctx "kv_select_stmt s key"] by (auto simp: kv_select_sem)
  show ?thesis
  proof (cases "fmlookup (t_kv (db w)) key")
    case None
    with w' q show ?thesis by (auto simp: kv_resolvePut_def kv_row_list_def)
  next
    case (Some x)
    with c have x: "kv_row_ok x" by (auto simp: constraints_def)
    then have wi: "(word_of_int (kv_revision x) = (u :: u64)) = (kv_revision x = uint u)" for u
      by (intro word_of_int_eq_iff_range) (auto simp: kv_row_ok_def max_int64_def max_uint64_def)
    have "kv_revision x \<noteq> uint (expected + 1)"
    proof (cases "uint expected < max_uint64")
      case True
      with x m show ?thesis by (simp add: uint_succ_u64 kv_row_ok_def)
    next
      case False
      then have "uint expected = max_uint64" using uint_less_max [of expected] by simp
      then have "uint (expected + 1) = 0" by (simp add: max_uint64_def uint_word_ariths(1))
      with x show ?thesis by (simp add: kv_row_ok_def)
    qed
    with Some x wi w' q show ?thesis by (auto simp: kv_resolvePut_def kv_row_list_def)
  qed
qed

lemma kv_Put_refines_spec_aux:
  assumes "script w = []" and "constraints (db w)" and "vn key = None"
  shows "(case run_state (kv_Put vn s (Some c) key expected v) w of (r, w') \<Rightarrow> (r, db w')) =
     kv_put_spec key expected v (db w)"
proof -
  obtain ctx w0 where w0: "run_state (Bound (Some c) ''KV.Put'' (kv_operationTimeout s)) w = (Inr ctx, w0)"
      "script w0 = []" "db w0 = db w"
    using assms(1) by (cases "deadline c") (auto simp: Bound_run)
  from kv_putOnce_quiet [of w0 s ctx key expected v] w0 assms(2)
  obtain r1 w1 where w1: "run_state (kv_putOnce s ctx key expected v) w0 = (r1, w1)" "script w1 = []"
      "db w1 = snd (kv_put_spec key expected v (db w))"
      "r1 = (if \<not> uint expected \<le> max_int64 then Inl DriverError
         else if \<not> kv_matches key expected (db w) then Inl ErrNoRows
         else if uint expected = max_int64 then Inl out_of_range else Inr (expected + 1))"
    by auto
  show ?thesis
  proof (cases "max_int64 \<le> uint expected \<and> (uint expected = max_int64 \<longrightarrow> kv_matches key expected (db w))")
    case True
    let ?w2 = "w1\<lparr>script := []\<rparr>"
    from True have db1: "db ?w2 = db w" using w1(3) by (auto simp: kv_put_spec_def)
    with True kv_resolvePut_quiet [of ?w2 expected s key v "RedactedError ''kv put''"] assms(2)
    obtain w3 where w3: "run_state (kv_resolvePut s key expected v (RedactedError ''kv put'')) ?w2 =
        ((case fmlookup (t_kv (db w)) key of None \<Rightarrow> Inl (RedactedError ''kv put'')
         | Some x \<Rightarrow> if kv_revision x = uint expected then Inl (RedactedError ''kv put'')
           else Inl (Conflict key expected)), w3)" "db w3 = db w"
      by auto
    have row: "kv_revision x \<le> max_int64" if "fmlookup (t_kv (db w)) key = Some x" for x
      using that assms(2) by (auto simp: constraints_def kv_row_ok_def)
    show ?thesis
      using True w0 w1 w3 assms(3) row
      by (auto simp: kv_Put_def kv_put_spec_def out_of_range_def RedactedError_def kv_matches_def
          fmlookup_dom_iff split: option.splits)
  next
    case False
    with w0 w1 assms(3) show ?thesis
      by (auto simp: kv_Put_def kv_put_spec_def)
  qed
qed

text \<open>
  C15. Sequential refinement of \<open>Put\<close>: with a usable context, a valid name and no fault, the
  result and the new database are the specification's, on every branch -- the refusals of an
  out-of-range revision and of revision exhaustion included.
\<close>

theorem kv_Put_refines_spec:
  assumes "script w = []" and "constraints (db w)" and "vn key = None"
  shows "(case run_state (kv_Put vn s (Some c) key expected v) w of (r, w') \<Rightarrow> (r, db w')) =
     kv_put_spec key expected v (db w)"
  using assms by (rule kv_Put_refines_spec_aux)

section \<open>The contract a client of the store relies on\<close>

text \<open>
  A map whose entries carry a revision: a write names the revision it replaces (0 for an absent
  entry), and is accepted exactly when that is the current one and there is room for the next.
\<close>

locale versioned_map =
  fixes lookup :: "'s \<Rightarrow> 'k \<Rightarrow> (u64 \<times> 'v) option"
    and put :: "'k \<Rightarrow> u64 \<Rightarrow> 'v \<Rightarrow> 's \<Rightarrow> 'e + u64 \<times> 's"
    and remove :: "'k \<Rightarrow> 's \<Rightarrow> 's"
    and room :: "u64 \<Rightarrow> bool"
    and valid :: "'s \<Rightarrow> bool"
  assumes put_accepts: "valid s \<Longrightarrow> room n \<Longrightarrow> case_option 0 fst (lookup s k) = n \<Longrightarrow>
      \<exists>s'. put k n v s = Inr (n + 1, s') \<and> valid s' \<and> lookup s' = (lookup s)(k \<mapsto> (n + 1, v))"
    and put_rejects: "valid s \<Longrightarrow> case_option 0 fst (lookup s k) \<noteq> n \<Longrightarrow> \<exists>e. put k n v s = Inl e"
    and remove_spec: "valid s \<Longrightarrow> valid (remove k s) \<and> lookup (remove k s) = (lookup s)(k := None)"
    and room_succ: "room n \<Longrightarrow> n + 1 \<noteq> 0"
begin

lemma put_get:
  assumes "valid s" "put k n v s = Inr (m, s')" "room n"
  shows "m = n + 1 \<and> valid s' \<and> lookup s' k = Some (n + 1, v) \<and> (\<forall>j. j \<noteq> k \<longrightarrow> lookup s' j = lookup s j)"
proof -
  have "case_option 0 fst (lookup s k) = n"
    using assms(1,2) put_rejects [of s k n v] by fastforce
  with assms put_accepts [of s n k v] show ?thesis by auto
qed

lemma no_lost_update:
  assumes "valid s" "put k n v1 s = Inr (m, s')" "room n"
  shows "\<exists>e. put k n v2 s' = Inl e"
proof (rule put_rejects)
  show "valid s'" using put_get [OF assms] by simp
  have "n + 1 \<noteq> n" by simp
  then show "case_option 0 fst (lookup s' k) \<noteq> n" using put_get [OF assms] by simp
qed

text \<open>After a removal the revision restarts: a writer that still holds revision 1 is accepted.\<close>

lemma revision_restarts:
  assumes "valid s" "room 0" "room 1"
  shows "\<exists>s1 s2. put k 0 v (remove k s) = Inr (1, s1) \<and> put k 1 v' s1 = Inr (2, s2)"
proof -
  have r: "valid (remove k s)" "lookup (remove k s) k = None"
    using remove_spec [OF assms(1), of k] by auto
  from put_accepts [OF r(1) assms(2), of k v] r(2) obtain s1 where
    s1: "put k 0 v (remove k s) = Inr (1, s1)" "valid s1" "lookup s1 k = Some (1, v)"
    by fastforce
  from put_accepts [OF s1(2) assms(3), of k v'] s1(3) obtain s2 where "put k 1 v' s1 = Inr (2, s2)"
    by fastforce
  with s1(1) show ?thesis by blast
qed

end

definition kv_lookup :: "database \<Rightarrow> string \<Rightarrow> (u64 \<times> bytes) option" where
  "kv_lookup d key = map_option (\<lambda>r. (word_of_int (kv_revision r), kv_value r)) (fmlookup (t_kv d) key)"

definition kv_seq_put :: "kv_store \<Rightarrow> string \<Rightarrow> u64 \<Rightarrow> bytes \<Rightarrow> database \<Rightarrow> err + u64 \<times> database" where
  "kv_seq_put s key n v d =
     (case run_state (kv_Put (\<lambda>_. None) s (Some Background) key n (Some v)) (open_world d []) of
        (Inl e, _) \<Rightarrow> Inl e | (Inr m, w) \<Rightarrow> Inr (m, db w))"

definition kv_seq_remove :: "kv_store \<Rightarrow> string \<Rightarrow> database \<Rightarrow> database" where
  "kv_seq_remove s key d = db (snd (run_state (kv_Delete (\<lambda>_. None) s (Some Background) key) (open_world d [])))"

lemma kv_seq_put_spec:
  assumes "constraints d"
  shows "kv_seq_put s key n v d = (case kv_put_spec key n (Some v) d of (Inl e, _) \<Rightarrow> Inl e | (Inr m, d') \<Rightarrow> Inr (m, d'))"
proof -
  obtain r w where rw: "run_state (kv_Put (\<lambda>_. None) s (Some Background) key n (Some v)) (open_world d []) = (r, w)"
    by (meson surj_pair)
  have "kv_put_spec key n (Some v) d = (r, db w)"
    using kv_Put_refines_spec_aux [of "open_world d []" "\<lambda>_. None" key s Background n "Some v"] assms rw by simp
  then show ?thesis using rw by (auto simp: kv_seq_put_def split: sum.split)
qed

lemma constraints_cas: "kv_cas key n v d d' \<Longrightarrow> constraints d \<Longrightarrow> constraints d'"
  by (auto simp: kv_cas_def constraints_def kv_row_ok_def)

lemma constraints_removal: "kv_removal key d d' \<Longrightarrow> constraints d \<Longrightarrow> constraints d'"
  by (auto simp: kv_removal_def constraints_def)

lemma kv_delete_sem:
  "sql_sem (kv_delete_stmt s key) now d = (Inr [], if key |\<in>| fmdom (t_kv d) then [WKv key None] else [])"
  by (auto simp: kv_delete_stmt_def fmlookup_dom_iff split: option.splits)

lemma kv_seq_remove_spec: "kv_seq_remove s key d = d\<lparr>t_kv := fmdrop key (t_kv d)\<rparr>"
proof -
  let ?ctx = "WithDeadline Background (kv_operationTimeout s)"
  let ?w = "(open_world d [])\<lparr>script := []\<rparr>"
  obtain w' where w': "run_state (pool_run ?ctx (kv_delete_stmt s key)) ?w = (Inr [], w')"
      "db w' = d\<lparr>t_kv := fmdrop key (t_kv d)\<rparr>"
    using pool_run_quiet [of ?w ?ctx "kv_delete_stmt s key"]
    by (cases "key |\<in>| fmdom (t_kv d)") (auto simp: kv_delete_sem fmdrop_idle)
  then show ?thesis
    by (simp add: kv_seq_remove_def kv_Delete_def Bound_run kv_deleteOnce_def pool_Exec_def Background_def)
qed

lemma kv_matches_lookup:
  assumes "constraints d"
  shows "kv_matches key n d \<longleftrightarrow> case_option 0 fst (kv_lookup d key) = n"
proof (cases "fmlookup (t_kv d) key")
  case None
  then show ?thesis by (auto simp: kv_matches_def kv_lookup_def)
next
  case (Some x)
  with assms have x: "kv_row_ok x" by (auto simp: constraints_def)
  then have "(word_of_int (kv_revision x) = n) = (kv_revision x = uint n)"
    by (intro word_of_int_eq_iff_range) (auto simp: kv_row_ok_def max_int64_def max_uint64_def)
  with Some x show ?thesis by (auto simp: kv_matches_def kv_lookup_def kv_row_ok_def)
qed

interpretation pgkv: versioned_map kv_lookup "kv_seq_put s" "kv_seq_remove s" "\<lambda>n. uint n < max_int64" constraints
proof unfold_locales
  fix d :: database and n :: u64 and key v
  assume c: "constraints d" and n: "uint n < max_int64" and "case_option 0 fst (kv_lookup d key) = n"
  then have m: "kv_matches key n d" by (simp add: kv_matches_lookup)
  let ?d' = "d\<lparr>t_kv := fmupd key \<lparr>kv_revision = uint n + 1, kv_value = v\<rparr> (t_kv d)\<rparr>"
  have "kv_seq_put s key n v d = Inr (n + 1, ?d')"
    using c n m by (simp add: kv_seq_put_spec kv_put_spec_def stored_value_def)
  moreover have "constraints ?d'"
    using constraints_cas [of key n "Some v" d ?d'] c n m by (simp add: kv_cas_def stored_value_def)
  moreover have "word_of_int (uint n + 1) = n + 1"
    by (simp add: of_int_add)
  then have "kv_lookup ?d' = (kv_lookup d)(key \<mapsto> (n + 1, v))"
    by (auto simp: kv_lookup_def fun_eq_iff)
  ultimately show "\<exists>s'. kv_seq_put s key n v d = Inr (n + 1, s') \<and> constraints s' \<and>
      kv_lookup s' = (kv_lookup d)(key \<mapsto> (n + 1, v))"
    by blast
next
  fix d :: database and n :: u64 and key v
  assume c: "constraints d" and "case_option 0 fst (kv_lookup d key) \<noteq> n"
  then have "\<not> kv_matches key n d" by (simp add: kv_matches_lookup)
  with c show "\<exists>e. kv_seq_put s key n v d = Inl e"
    by (auto simp: kv_seq_put_spec kv_put_spec_def)
next
  fix d :: database and key
  assume "constraints d"
  then show "constraints (kv_seq_remove s key d) \<and> kv_lookup (kv_seq_remove s key d) = (kv_lookup d)(key := None)"
    by (auto simp: kv_seq_remove_spec constraints_def kv_lookup_def fun_eq_iff)
next
  fix n :: u64
  assume "uint n < max_int64"
  then have "uint (n + 1) = uint n + 1" by (simp add: uint_succ_int64)
  then have "0 < uint (n + 1)" using uint_ge_0 [of n] by linarith
  then show "n + 1 \<noteq> 0" by auto
qed


section \<open>Every statement carries a deadline; and two limits of the reread\<close>

text \<open>
  Every statement any KV operation sends -- the rereads included -- is sent under a
  context with a deadline, whatever context the caller passed.
\<close>

lemma kv_statements_bounded:
  "sends bounded_send (kv_Get vn s c key) \<and> sends bounded_send (kv_Put vn s c key expected v) \<and>
   sends bounded_send (kv_Keys s c p) \<and> sends bounded_send (kv_Delete vn s c key)"
  unfolding kv_Get_def kv_Put_def kv_Keys_def kv_Delete_def kv_putOnce_def kv_resolvePut_def
    kv_deleteOnce_def kv_resolveDelete_def Let_def
  by (intro conjI; rule sends_operation; (intro sends_intros; simp))

text \<open>
  A conflict is not proof that nothing was written: when the acknowledgement is lost and
  another session writes the key before the reread, \<open>Put\<close> reports a conflict although its own
  write was committed.
\<close>

theorem kv_Put_conflict_after_commit:
  "\<exists>(w :: world) r w'. run_state (kv_Put (\<lambda>_. None) (kv_New ''s'' ''p_'') (Some \<lparr>deadline = Some 0\<rparr>) ''k'' 0 (Some ''a'')) w = (r, w') \<and>
     r = Inl (Conflict ''k'' 0) \<and> length (our_commits w w') = 1"
proof -
  let ?other = "served (\<lambda>d. d\<lparr>t_kv := fmupd ''k'' \<lparr>kv_revision = 2, kv_value = ''b''\<rparr> (t_kv d)\<rparr>)"
  let ?m = "kv_Put (\<lambda>_. None) (kv_New ''s'' ''p_'') (Some \<lparr>deadline = Some 0\<rparr>) ''k'' 0 (Some ''a'')"
  let ?w = "open_world empty_database [ack_lost, quiet, quiet, ?other]"
  have 1: "fst (run_state ?m ?w) = Inl (Conflict ''k'' 0)"
    by (simp add: kv_Put_def Bound_run kv_putOnce_def Let_def pool_QueryRow_def pool_run_def
        kv_resolvePut_def kv_select_stmt_def kv_insert_stmt_def kv_New_def ack_lost_def served_def
        kv_scan_def scan_bytes_def scan_uint64_def max_uint64_def advance_def held_locks_def
        empty_database_def RedactedError_def bytes_Equal_def WithDeadline_def Background_def)
  have 2: "length (our_commits ?w (snd (run_state ?m ?w))) = 1"
    by (simp add: kv_Put_def Bound_run kv_putOnce_def Let_def pool_QueryRow_def pool_run_def
        kv_resolvePut_def kv_select_stmt_def kv_insert_stmt_def kv_New_def ack_lost_def served_def
        kv_scan_def scan_bytes_def scan_uint64_def max_uint64_def advance_def held_locks_def
        empty_database_def RedactedError_def bytes_Equal_def WithDeadline_def Background_def
        our_commits_def commits_def commit_ours_def log_sent_def)
  show ?thesis
    by (intro exI conjI) (rule prod.collapse [symmetric, of "run_state ?m ?w"], rule 1, rule 2)
qed

section \<open>The properties on concrete runs\<close>

text \<open>
  One \<open>Put\<close> of a new key, and one \<open>Put\<close>, \<open>Delete\<close> and \<open>Keys\<close> on a database with two keys, each
  against a given script.
\<close>

definition demo_kv :: database where
  "demo_kv = empty_database\<lparr>t_kv := fmupd ''k2'' \<lparr>kv_revision = 4, kv_value = ''z''\<rparr>
     (fmupd ''k'' \<lparr>kv_revision = 7, kv_value = ''a''\<rparr> fmempty)\<rparr>"

definition demo_put :: "database \<Rightarrow> u64 \<Rightarrow> event list \<Rightarrow> u64 result \<times> world" where
  "demo_put d n es = run_state (kv_Put (\<lambda>_. None) (kv_New ''s'' ''p_'') (Some Background) ''k'' n (Some ''b'')) (open_world d es)"

lemmas kv_eval = kv_Put_def kv_Get_def kv_Keys_def kv_Delete_def Bound_run kv_putOnce_def kv_deleteOnce_def
  Let_def pool_QueryRow_def pool_Query_def pool_Exec_def pool_run_def kv_resolvePut_def kv_resolveDelete_def
  kv_statements kv_New_def ack_lost_def served_def kv_scan_def scan_bytes_def scan_uint64_def
  scan_one_uint64_def max_uint64_def max_int64_def advance_def held_locks_def empty_database_def
  RedactedError_def bytes_Equal_def WithDeadline_def Background_def bigint_arg_def demo_kv_def

lemma demo_put_runs:
  "fst (demo_put empty_database 0 []) = Inr 1"
  "fst (demo_put empty_database 0 [quiet, ack_lost]) = Inr 1"
  "fst (demo_put demo_kv 0 []) = Inl (Conflict ''k'' 0)"
  "fst (demo_put demo_kv 7 []) = Inr 8"
  by (simp_all add: demo_put_def kv_eval)

lemma demo_put_run:
  "run_state (kv_Put (\<lambda>_. None) (kv_New ''s'' ''p_'') (Some Background) ''k'' n (Some ''b'')) (open_world d es) =
     (fst (demo_put d n es), snd (demo_put d n es))"
  by (simp add: demo_put_def)

theorem kv_Put_at_most_once_witness:
  "length (our_commits (open_world empty_database [quiet, ack_lost])
     (snd (demo_put empty_database 0 [quiet, ack_lost]))) \<le> 1"
  by (rule kv_Put_at_most_once [OF demo_put_run])

theorem kv_Put_success_witness:
  "\<exists>d \<in> set (states (open_world empty_database [quiet, ack_lost]) (snd (demo_put empty_database 0 [quiet, ack_lost]))).
     \<exists>x. fmlookup (t_kv d) ''k'' = Some x \<and> kv_revision x = uint (0 + 1 :: u64) \<and> kv_value x = stored_value (Some ''b'')"
  using kv_Put_success [OF demo_put_run [of 0 empty_database "[quiet, ack_lost]", unfolded demo_put_runs]] by simp

theorem kv_Put_conflict_witness:
  "\<exists>d \<in> set (states (open_world demo_kv []) (snd (demo_put demo_kv 0 []))). \<not> kv_matches ''k'' 0 d"
  using kv_Put_conflict [OF demo_put_run [of 0 demo_kv "[]", unfolded demo_put_runs]] by simp

theorem kv_Put_error_definite_witness:
  "our_commits (open_world demo_kv []) (snd (demo_put demo_kv 0 [])) = []"
  by (rule kv_Put_error_definite [OF demo_put_run [of 0 demo_kv "[]", unfolded demo_put_runs]])
    (simp_all add: reliable_def)

definition demo_get :: "(bytes option \<times> u64) result \<times> world" where
  "demo_get = run_state (kv_Get (\<lambda>_. None) (kv_New ''s'' ''p_'') (Some Background) ''k'') (open_world demo_kv [])"

definition demo_keys :: "string list result \<times> world" where
  "demo_keys = run_state (kv_Keys (kv_New ''s'' ''p_'') (Some Background) ''k2'') (open_world demo_kv [])"

definition demo_delete :: "unit result \<times> world" where
  "demo_delete = run_state (kv_Delete (\<lambda>_. None) (kv_New ''s'' ''p_'') (Some Background) ''k'') (open_world demo_kv [quiet, ack_lost])"

lemma demo_keys_run: "fst demo_keys = Inr [''k2''] \<and> db (snd demo_keys) = demo_kv \<and>
    states (open_world demo_kv []) (snd demo_keys) = [demo_kv, demo_kv]"
  by (simp add: demo_keys_def kv_eval pg_length_def utf8_continuation_def scan_one_text_def scan_text_def
      sorted_list_of_fset_def states_def commits_def log_sent_def)

lemma demo_delete_run: "fst demo_delete = Inr ()"
  by (simp add: demo_delete_def kv_eval)

theorem kv_Get_reads_committed_witness:
  "fst demo_get = Inr (Some ''a'', 7) \<and>
   (\<exists>d \<in> set (states (open_world demo_kv []) (snd demo_get)). \<exists>x. fmlookup (t_kv d) ''k'' = Some x \<and>
      Some ''a'' = Some (kv_value x) \<and> uint (7 :: u64) = kv_revision x)"
proof -
  have 1: "fst demo_get = Inr (Some ''a'', 7)" by (simp add: demo_get_def kv_eval)
  have "run_state (kv_Get (\<lambda>_. None) (kv_New ''s'' ''p_'') (Some Background) ''k'') (open_world demo_kv []) =
      (fst demo_get, snd demo_get)" by (simp add: demo_get_def)
  from kv_Get_reads_committed [OF this] 1 show ?thesis by blast
qed

theorem kv_Keys_prefix_sorted_witness:
  "sorted [''k2''] \<and> (\<exists>d \<in> set (states (open_world demo_kv []) (snd demo_keys)).
     \<forall>k. (k \<in> set [''k2'']) = (k |\<in>| fmdom (t_kv d) \<and> (\<exists>r. k = ''k2'' @ r)))"
proof -
  have run: "run_state (kv_Keys (kv_New ''s'' ''p_'') (Some Background) ''k2'') (open_world demo_kv []) =
      (Inr [''k2''], snd demo_keys)"
    using demo_keys_run by (metis demo_keys_def prod.collapse)
  have "\<forall>d \<in> set (states (open_world demo_kv []) (snd demo_keys)). \<forall>k. k |\<in>| fmdom (t_kv d) \<longrightarrow> utf8_wf k"
    using demo_keys_run by (auto simp: demo_kv_def utf8_width_def)
  from kv_Keys_prefix_sorted [OF run _ this] show ?thesis by (simp add: utf8_width_def)
qed

theorem kv_Delete_sound_witness:
  "\<exists>d \<in> set (states (open_world demo_kv [quiet, ack_lost]) (snd demo_delete)). ''k'' |\<notin>| fmdom (t_kv d)"
proof -
  have "run_state (kv_Delete (\<lambda>_. None) (kv_New ''s'' ''p_'') (Some Background) ''k'') (open_world demo_kv [quiet, ack_lost]) =
      (Inr (), snd demo_delete)"
    using demo_delete_run by (metis demo_delete_def prod.collapse)
  with kv_Delete_sound show ?thesis by blast
qed

lemma constraints_demo_kv: "constraints demo_kv"
  by (simp add: constraints_def demo_kv_def empty_database_def kv_row_ok_def max_int64_def)

theorem kv_Put_refines_spec_witness:
  "(case demo_put demo_kv 7 [] of (r, w') \<Rightarrow> (r, db w')) = kv_put_spec ''k'' 7 (Some ''b'') demo_kv"
  using kv_Put_refines_spec [of "open_world demo_kv []" "\<lambda>_. None" "''k''" "kv_New ''s'' ''p_''" Background 7 "Some ''b''"]
  by (simp add: demo_put_def constraints_demo_kv)


end
