(* ===== verification/Ledger.thy ===== *)
theory Ledger
  imports Transaction
begin

text \<open>
  \<open>internal/ledger/ledger.go\<close>: the append-only log.  \<open>Append\<close> is one serializable transaction
  tried up to four times; when the outcome of a commit is unknown it rereads the record it
  may have written.  \<open>Read\<close> fetches a snapshot into a cursor.

  The fields \<open>commit\<close>, \<open>attempt\<close> and \<open>delete\<close> of the Go struct are fixed by \<open>New\<close> to
  \<open>tx.Commit\<close>, \<open>appendOnce\<close> and \<open>deleteOnce\<close>; the model calls those directly.
\<close>

section \<open>The store and its statements\<close>

record ledger_store =
  lg_operationTimeout :: duration
  lg_schema :: string
  lg_tablePrefix :: string
  lg_statementTimeout :: duration
  lg_lockTimeout :: duration

definition ledger_New :: "string \<Rightarrow> string \<Rightarrow> duration list \<Rightarrow> ledger_store" where
  "ledger_New schema tablePrefix operationTimeouts =
     (let (statementTimeout, lockTimeout) = (case operationTimeouts of
            [a, b] \<Rightarrow> (a, b) | _ \<Rightarrow> (30 * second, 5 * second)) in
      \<lparr>lg_operationTimeout = DefaultOperationTimeout, lg_schema = schema, lg_tablePrefix = tablePrefix,
       lg_statementTimeout = statementTimeout, lg_lockTimeout = lockTimeout\<rparr>)"

definition ledger_WithOperationTimeout :: "ledger_store \<Rightarrow> duration \<Rightarrow> ledger_store" where
  "ledger_WithOperationTimeout s timeout = s\<lparr>lg_operationTimeout := timeout\<rparr>"

definition ledger_scopes :: "ledger_store \<Rightarrow> string" where
  "ledger_scopes s = Qualified (lg_schema s) (lg_tablePrefix s @ ''ledger_scopes'')"

definition ledger_records :: "ledger_store \<Rightarrow> string" where
  "ledger_records s = Qualified (lg_schema s) (lg_tablePrefix s @ ''ledger_records'')"

definition ensure_scope_stmt :: "ledger_store \<Rightarrow> string \<Rightarrow> statement" where
  "ensure_scope_stmt s name =
     write_statement (''INSERT INTO '' @ ledger_scopes s @ '' (name, tip) VALUES ($1, 0) ON CONFLICT (name) DO NOTHING'')
       [CText name] [ScopeRow name]
       (\<lambda>_ d. case fmlookup (t_ledger_scopes d) name of
          Some _ \<Rightarrow> (Inr [], []) | None \<Rightarrow> (Inr [], [WScope name (Some 0)]))"

definition lock_tip_stmt :: "ledger_store \<Rightarrow> string \<Rightarrow> statement" where
  "lock_tip_stmt s name =
     locking_statement (''SELECT tip FROM '' @ ledger_scopes s @ '' WHERE name = $1 FOR UPDATE'')
       [CText name] (ScopeRow name)
       (\<lambda>_ d. case fmlookup (t_ledger_scopes d) name of None \<Rightarrow> Inr [] | Some t \<Rightarrow> Inr [[CInt t]])"

text \<open>A nil \<open>[]byte\<close> is bound as NULL.\<close>

definition bytes_cell :: "bytes option \<Rightarrow> cell" where
  "bytes_cell b = (case b of None \<Rightarrow> CNull | Some x \<Rightarrow> CBytes x)"

definition insert_record_stmt :: "ledger_store \<Rightarrow> string \<Rightarrow> u64 \<Rightarrow> bytes option \<Rightarrow> statement" where
  "insert_record_stmt s name seq payload =
     write_statement (''INSERT INTO '' @ ledger_records s @ '' (name, seq, payload) VALUES ($1, $2, $3)'')
       [CText name, CInt (uint seq), bytes_cell payload] [RecordRow name (uint seq)]
       (\<lambda>_ d. bigint_arg seq (\<lambda>n.
          case payload of None \<Rightarrow> (Inl not_null_violation, []) | Some p \<Rightarrow>
          if n \<le> 0 then (Inl check_violation, [])
          else if (name, n) |\<in>| fmdom (t_ledger_records d) then (Inl unique_violation, [])
          else if name |\<notin>| fmdom (t_ledger_scopes d) then (Inl foreign_key_violation, [])
          else (Inr [], [WRecord name n (Some p)])))"

definition update_tip_stmt :: "ledger_store \<Rightarrow> string \<Rightarrow> u64 \<Rightarrow> statement" where
  "update_tip_stmt s name tip =
     write_statement (''UPDATE '' @ ledger_scopes s @ '' SET tip = $2 WHERE name = $1'')
       [CText name, CInt (uint tip)] [ScopeRow name]
       (\<lambda>_ d. bigint_arg tip (\<lambda>n.
          if name |\<in>| fmdom (t_ledger_scopes d) then (Inr [], [WScope name (Some n)]) else (Inr [], [])))"

definition select_payload_stmt :: "ledger_store \<Rightarrow> string \<Rightarrow> u64 \<Rightarrow> statement" where
  "select_payload_stmt s name seq =
     read_statement (''SELECT payload FROM '' @ ledger_records s @ '' WHERE name = $1 AND seq = $2'')
       [CText name, CInt (uint seq)]
       (\<lambda>_ d. if uint seq \<le> max_int64 then
            (case fmlookup (t_ledger_records d) (name, uint seq) of None \<Rightarrow> Inr [] | Some p \<Rightarrow> Inr [[CBytes p]])
          else Inl DriverError)"

text \<open>The sequence numbers of a name, ascending.\<close>

definition ledger_seqs :: "string \<Rightarrow> database \<Rightarrow> int list" where
  "ledger_seqs name d = sorted_list_of_fset (snd |`| ffilter (\<lambda>k. fst k = name) (fmdom (t_ledger_records d)))"

definition select_records_stmt :: "ledger_store \<Rightarrow> string \<Rightarrow> u64 \<Rightarrow> statement" where
  "select_records_stmt s name start =
     read_statement (''SELECT seq, payload FROM '' @ ledger_records s @ '' WHERE name = $1 AND seq >= $2 ORDER BY seq'')
       [CText name, CInt (uint start)]
       (\<lambda>_ d. if uint start \<le> max_int64 then
            Inr (map (\<lambda>n. [CInt n, CBytes (case_option [] id (fmlookup (t_ledger_records d) (name, n)))])
              (filter (\<lambda>n. uint start \<le> n) (ledger_seqs name d)))
          else Inl DriverError)"

definition select_tip_stmt :: "ledger_store \<Rightarrow> string \<Rightarrow> statement" where
  "select_tip_stmt s name =
     read_statement (''SELECT tip FROM '' @ ledger_scopes s @ '' WHERE name = $1'') [CText name]
       (\<lambda>_ d. case fmlookup (t_ledger_scopes d) name of None \<Rightarrow> Inr [] | Some t \<Rightarrow> Inr [[CInt t]])"

text \<open>\<open>ON DELETE CASCADE\<close>: deleting the scope deletes its records.\<close>

definition delete_scope_stmt :: "ledger_store \<Rightarrow> string \<Rightarrow> statement" where
  "delete_scope_stmt s name =
     write_statement (''DELETE FROM '' @ ledger_scopes s @ '' WHERE name = $1'') [CText name] [ScopeRow name]
       (\<lambda>_ d. if name |\<in>| fmdom (t_ledger_scopes d)
          then (Inr [], WScope name None # map (\<lambda>n. WRecord name n None) (ledger_seqs name d))
          else (Inr [], []))"

definition scope_exists_stmt :: "ledger_store \<Rightarrow> string \<Rightarrow> statement" where
  "scope_exists_stmt s name =
     read_statement (''SELECT 1 FROM '' @ ledger_scopes s @ '' WHERE name = $1'') [CText name]
       (\<lambda>_ d. if name |\<in>| fmdom (t_ledger_scopes d) then Inr [[CInt 1]] else Inr [])"

definition scan_one_bytes :: "row \<Rightarrow> bytes option result" where
  "scan_one_bytes r = (case r of [c] \<Rightarrow> scan_bytes c | _ \<Rightarrow> Inl DriverError)"

section \<open>Append\<close>

text \<open>The part of an attempt after the tip was found to match: the two writes and the commit.\<close>

definition ledger_appendWrites :: "ledger_store \<Rightarrow> go_context \<Rightarrow> string \<Rightarrow> u64 \<Rightarrow> bytes option \<Rightarrow> ('z world_scheme, unit result) state" where
  "ledger_appendWrites s ctx name expected payload = do {
     a \<leftarrow> tx_Exec ctx (insert_record_stmt s name (expected + 1) payload);
     case a of Inl e \<Rightarrow> State_Monad.return (Inl e) | Inr _ \<Rightarrow> do {
     u \<leftarrow> tx_Exec ctx (update_tip_stmt s name (expected + 1));
     case u of Inl e \<Rightarrow> State_Monad.return (Inl e) | Inr _ \<Rightarrow> do {
     c \<leftarrow> tx_Commit ctx;
     State_Monad.return (case c of
         Inl e \<Rightarrow> if Retryable e then Inl e else Inl (CommitOutcome e)
       | Inr _ \<Rightarrow> Inr ()) }}}"

text \<open>The statements of one attempt, from the timeouts on.\<close>

definition ledger_appendTx ::
  "ledger_store \<Rightarrow> go_context \<Rightarrow> string \<Rightarrow> u64 \<Rightarrow> bytes option \<Rightarrow> ('z world_scheme, unit result) state" where
  "ledger_appendTx s ctx name expected payload = do {
     t \<leftarrow> SetLocalTimeouts ctx (lg_statementTimeout s) (lg_lockTimeout s);
     case t of Inl e \<Rightarrow> State_Monad.return (Inl e) | Inr _ \<Rightarrow> do {
     i \<leftarrow> tx_Exec ctx (ensure_scope_stmt s name);
     case i of Inl e \<Rightarrow> State_Monad.return (Inl e) | Inr _ \<Rightarrow> do {
     q \<leftarrow> tx_QueryRow ctx (lock_tip_stmt s name);
     case scanned scan_one_uint64 q of Inl e \<Rightarrow> State_Monad.return (Inl e) | Inr tip \<Rightarrow>
     if tip \<noteq> expected then State_Monad.return (Inl (Conflict name expected))
     else ledger_appendWrites s ctx name expected payload }}}"

definition ledger_appendOnce ::
  "ledger_store \<Rightarrow> go_context \<Rightarrow> string \<Rightarrow> u64 \<Rightarrow> bytes option \<Rightarrow> ('z world_scheme, unit result) state" where
  "ledger_appendOnce s ctx name expected payload = do {
     b \<leftarrow> BeginTx ctx Serializable;
     case b of Inl e \<Rightarrow> State_Monad.return (Inl e) | Inr _ \<Rightarrow> do {
       r \<leftarrow> ledger_appendTx s ctx name expected payload;
       Rollback;
       State_Monad.return r } }"

definition ledger_resolveAppend ::
  "ledger_store \<Rightarrow> go_context \<Rightarrow> string \<Rightarrow> u64 \<Rightarrow> bytes option \<Rightarrow> err \<Rightarrow> ('z world_scheme, unit result) state" where
  "ledger_resolveAppend s ctx name expected payload cause = do {
     checkCtx \<leftarrow> WithTimeout (WithoutCancel ctx) AuthoritativeReadTimeout;
     q \<leftarrow> pool_QueryRow checkCtx (select_payload_stmt s name (expected + 1));
     State_Monad.return (case scanned scan_one_bytes q of
         Inr stored \<Rightarrow> if bytes_Equal stored payload then Inr () else Inl (Conflict name expected)
       | Inl _ \<Rightarrow> Inl (Ambiguous name expected cause)) }"

text \<open>\<open>errors.As\<close> with the two error types the loop looks for.\<close>

fun as_commitOutcome :: "err \<Rightarrow> err option" where
  "as_commitOutcome (CommitOutcome cause) = Some cause"
| "as_commitOutcome _ = None"

fun as_conflict :: "err \<Rightarrow> err option" where
  "as_conflict (Conflict n e) = Some (Conflict n e)"
| "as_conflict (CommitOutcome cause) = as_conflict cause"
| "as_conflict _ = None"

function ledger_append_from ::
  "ledger_store \<Rightarrow> go_context \<Rightarrow> string \<Rightarrow> u64 \<Rightarrow> bytes option \<Rightarrow> nat \<Rightarrow> ('z world_scheme, unit result) state" where
  "ledger_append_from s ctx name expected payload attempt =
     (if attempt < Attempts then do {
        r \<leftarrow> ledger_appendOnce s ctx name expected payload;
        case r of Inr _ \<Rightarrow> State_Monad.return (Inr ()) | Inl e \<Rightarrow>
        (case as_commitOutcome e of
           Some cause \<Rightarrow> ledger_resolveAppend s ctx name expected payload cause
         | None \<Rightarrow>
        (case as_conflict e of Some conflict \<Rightarrow> State_Monad.return (Inl conflict) | None \<Rightarrow> do {
           c1 \<leftarrow> (if Retryable e then ctx_Err ctx else State_Monad.return None);
           case c1 of Some x \<Rightarrow> State_Monad.return (Inl (CtxError x)) | None \<Rightarrow>
           if Retryable e \<and> attempt + 1 < Attempts
           then ledger_append_from s ctx name expected payload (attempt + 1)
           else do {
             c2 \<leftarrow> ctx_Err ctx;
             case c2 of Some x \<Rightarrow> State_Monad.return (Inl (CtxError x)) | None \<Rightarrow>
             if \<not> Retryable e \<or> attempt + 1 = Attempts
             then State_Monad.return (Inl (RedactedError ''ledger append''))
             else ledger_append_from s ctx name expected payload (attempt + 1) } })) }
      else State_Monad.return (Inl (PlainError ''panic: unreachable'')))"
  by pat_completeness auto

termination
  by (relation "measure (\<lambda>(s, ctx, name, expected, payload, attempt). Attempts - attempt)") auto

declare ledger_append_from.simps [simp del]

definition ledger_Append ::
  "(string \<Rightarrow> err option) \<Rightarrow> ledger_store \<Rightarrow> go_context option \<Rightarrow> string \<Rightarrow> u64 \<Rightarrow> bytes option \<Rightarrow>
   ('z world_scheme, unit result) state" where
  "ledger_Append vn s ctx0 name expected payload = do {
     b \<leftarrow> Bound ctx0 ''Ledger.Append'' (lg_operationTimeout s);
     case b of Inl e \<Rightarrow> State_Monad.return (Inl e) | Inr ctx \<Rightarrow>
     (case vn name of Some e \<Rightarrow> State_Monad.return (Inl e) | None \<Rightarrow>
        ledger_append_from s ctx name expected payload 0) }"

section \<open>Read, the cursor, Tip and Delete\<close>

record ledger_record =
  Seq :: u64
  Payload :: "bytes option"

record ledger_cursor =
  cur_operationTimeout :: duration
  cur_records :: "ledger_record list"
  cur_position :: nat
  cur_closed :: bool

definition ledger_operationFailure :: "go_context \<Rightarrow> string \<Rightarrow> ('z world_scheme, err) state" where
  "ledger_operationFailure ctx operation = do {
     e \<leftarrow> ctx_Err ctx;
     State_Monad.return (case e of Some x \<Rightarrow> CtxError x | None \<Rightarrow> RedactedError operation) }"

definition ledger_safeCause :: "go_context \<Rightarrow> string \<Rightarrow> ('z world_scheme, err) state" where
  "ledger_safeCause ctx operation = do {
     e \<leftarrow> ctx_Err ctx;
     State_Monad.return (case e of Some x \<Rightarrow> CtxError x | None \<Rightarrow> RedactedError operation) }"

text \<open>\<open>rows.Scan(&record.Seq, &record.Payload)\<close> and the row loop.\<close>

definition scan_ledger_record :: "row \<Rightarrow> ledger_record result" where
  "scan_ledger_record r = (case r of
     [n, p] \<Rightarrow> (case scan_uint64 n of Inl e \<Rightarrow> Inl e | Inr seq \<Rightarrow>
       (case scan_bytes p of Inl e \<Rightarrow> Inl e | Inr payload \<Rightarrow> Inr \<lparr>Seq = seq, Payload = payload\<rparr>))
   | _ \<Rightarrow> Inl DriverError)"

fun scan_ledger_records :: "row list \<Rightarrow> ledger_record list result" where
  "scan_ledger_records [] = Inr []"
| "scan_ledger_records (r # rs) = (case scan_ledger_record r of Inl e \<Rightarrow> Inl e | Inr x \<Rightarrow>
     (case scan_ledger_records rs of Inl e \<Rightarrow> Inl e | Inr xs \<Rightarrow> Inr (x # xs)))"

definition ledger_Read ::
  "(string \<Rightarrow> err option) \<Rightarrow> ledger_store \<Rightarrow> go_context option \<Rightarrow> string \<Rightarrow> u64 \<Rightarrow>
   ('z world_scheme, ledger_cursor result) state" where
  "ledger_Read vn s ctx0 name from0 = do {
     b \<leftarrow> Bound ctx0 ''Ledger.Read'' (lg_operationTimeout s);
     case b of Inl e \<Rightarrow> State_Monad.return (Inl e) | Inr ctx \<Rightarrow>
     (case vn name of Some e \<Rightarrow> State_Monad.return (Inl e) | None \<Rightarrow>
     (let start = (if from0 < 1 then 1 else from0) in do {
        rows \<leftarrow> pool_Query ctx (select_records_stmt s name start);
        case rows of
          Inl _ \<Rightarrow> do { f \<leftarrow> ledger_operationFailure ctx ''ledger read''; State_Monad.return (Inl f) }
        | Inr rs \<Rightarrow> State_Monad.return (case scan_ledger_records rs of
              Inl _ \<Rightarrow> Inl (RedactedError ''ledger read'')
            | Inr records \<Rightarrow> Inr \<lparr>cur_operationTimeout = lg_operationTimeout s, cur_records = records,
                cur_position = 0, cur_closed = False\<rparr>) })) }"

definition ledger_Next ::
  "go_context option \<Rightarrow> ledger_cursor \<Rightarrow> ('z world_scheme, ledger_record result \<times> ledger_cursor) state" where
  "ledger_Next ctx0 c = do {
     b \<leftarrow> Bound ctx0 ''Ledger.Cursor.Next'' (cur_operationTimeout c);
     State_Monad.return (case b of Inl e \<Rightarrow> (Inl e, c) | Inr _ \<Rightarrow>
       if cur_closed c \<or> length (cur_records c) \<le> cur_position c then (Inl EOF, c)
       else (Inr (cur_records c ! cur_position c), c\<lparr>cur_position := cur_position c + 1\<rparr>)) }"

definition ledger_Close :: "ledger_cursor \<Rightarrow> ledger_cursor" where
  "ledger_Close c = c\<lparr>cur_closed := True\<rparr>"

definition ledger_Tip ::
  "(string \<Rightarrow> err option) \<Rightarrow> ledger_store \<Rightarrow> go_context option \<Rightarrow> string \<Rightarrow> ('z world_scheme, u64 result) state" where
  "ledger_Tip vn s ctx0 name = do {
     b \<leftarrow> Bound ctx0 ''Ledger.Tip'' (lg_operationTimeout s);
     case b of Inl e \<Rightarrow> State_Monad.return (Inl e) | Inr ctx \<Rightarrow>
     (case vn name of Some e \<Rightarrow> State_Monad.return (Inl e) | None \<Rightarrow> do {
        q \<leftarrow> pool_QueryRow ctx (select_tip_stmt s name);
        case scanned scan_one_uint64 q of
          Inl e \<Rightarrow> if e = ErrNoRows then State_Monad.return (Inr 0)
                   else do { f \<leftarrow> ledger_operationFailure ctx ''ledger tip''; State_Monad.return (Inl f) }
        | Inr tip \<Rightarrow> State_Monad.return (Inr tip) }) }"

definition ledger_deleteOnce :: "ledger_store \<Rightarrow> go_context \<Rightarrow> string \<Rightarrow> ('z world_scheme, unit result) state" where
  "ledger_deleteOnce s ctx name = pool_Exec ctx (delete_scope_stmt s name)"

definition ledger_resolveDelete :: "ledger_store \<Rightarrow> string \<Rightarrow> err \<Rightarrow> ('z world_scheme, unit result) state" where
  "ledger_resolveDelete s name cause = do {
     ctx \<leftarrow> WithTimeout Background AuthoritativeReadTimeout;
     q \<leftarrow> pool_QueryRow ctx (scope_exists_stmt s name);
     State_Monad.return (case scanned scan_one_uint64 q of
         Inr _ \<Rightarrow> Inl cause
       | Inl e \<Rightarrow> if e = ErrNoRows then Inr ()
                  else Inl (RedactedError ''ledger delete outcome resolution'')) }"

definition ledger_Delete ::
  "(string \<Rightarrow> err option) \<Rightarrow> ledger_store \<Rightarrow> go_context option \<Rightarrow> string \<Rightarrow> ('z world_scheme, unit result) state" where
  "ledger_Delete vn s ctx0 name = do {
     b \<leftarrow> Bound ctx0 ''Ledger.Delete'' (lg_operationTimeout s);
     case b of Inl e \<Rightarrow> State_Monad.return (Inl e) | Inr ctx \<Rightarrow>
     (case vn name of Some e \<Rightarrow> State_Monad.return (Inl e) | None \<Rightarrow> do {
        r \<leftarrow> ledger_deleteOnce s ctx name;
        case r of
          Inl _ \<Rightarrow> do { cause \<leftarrow> ledger_safeCause ctx ''ledger delete''; ledger_resolveDelete s name cause }
        | Inr _ \<Rightarrow> State_Monad.return (Inr ()) }) }"

section \<open>What one attempt does\<close>

definition ledger_tip :: "database \<Rightarrow> string \<Rightarrow> int" where
  "ledger_tip d name = (case fmlookup (t_ledger_scopes d) name of None \<Rightarrow> 0 | Some t \<Rightarrow> t)"

text \<open>
  The append step: at the expected tip, the next record is new, and tip and record are set
  together.  The removal step: the scope goes, and with it all its records.
\<close>

definition append_step :: "string \<Rightarrow> u64 \<Rightarrow> bytes option \<Rightarrow> database \<Rightarrow> database \<Rightarrow> bool" where
  "append_step name expected payload d d' \<longleftrightarrow>
     ledger_tip d name = uint expected \<and> uint expected < max_int64 \<and>
     fmlookup (t_ledger_records d) (name, uint expected + 1) = None \<and>
     (\<exists>p. payload = Some p \<and>
       d' = d\<lparr>t_ledger_scopes := fmupd name (uint expected + 1) (t_ledger_scopes d),
              t_ledger_records := fmupd (name, uint expected + 1) p (t_ledger_records d)\<rparr>)"

definition ledger_removal :: "string \<Rightarrow> database \<Rightarrow> database \<Rightarrow> bool" where
  "ledger_removal name d d' \<longleftrightarrow> name |\<in>| fmdom (t_ledger_scopes d) \<and>
     d' = d\<lparr>t_ledger_scopes := fmdrop name (t_ledger_scopes d),
            t_ledger_records := fmfilter (\<lambda>k. fst k \<noteq> name) (t_ledger_records d)\<rparr>"

lemmas ledger_writes = ensure_scope_stmt_def lock_tip_stmt_def insert_record_stmt_def update_tip_stmt_def

lemmas sqlstates = not_null_violation_def check_violation_def unique_violation_def foreign_key_violation_def
  out_of_range_def

lemma ledger_aimed [simp]:
  "aimed (ensure_scope_stmt s name)" "aimed (lock_tip_stmt s name)"
  "aimed (insert_record_stmt s name n p)" "aimed (update_tip_stmt s name n)"
  by (auto simp: aimed_def ledger_writes bigint_arg_def split: option.splits if_splits)

lemma ledger_answers [simp]:
  "answers (ensure_scope_stmt s name)" "answers (lock_tip_stmt s name)"
  "answers (insert_record_stmt s name n p)" "answers (update_tip_stmt s name n)"
  by (auto simp: answers_def ledger_writes bigint_arg_def sqlstates split: option.splits if_splits)

lemma ensure_scope_sem:
  "sql_sem (ensure_scope_stmt s name) now d = (Inr rows, ws) \<Longrightarrow>
   ws = (if name |\<in>| fmdom (t_ledger_scopes d) then [] else [WScope name (Some 0)])"
  by (auto simp: ensure_scope_stmt_def fmlookup_dom_iff split: option.splits)

lemma ledger_tip_ensured:
  "ws = (if name |\<in>| fmdom (t_ledger_scopes b) then [] else [WScope name (Some 0)]) \<Longrightarrow>
   fmlookup (t_ledger_scopes (apply_writes ws b)) name = Some (ledger_tip b name)"
  by (auto simp: ledger_tip_def fmlookup_dom_iff split: option.splits)

text \<open>The rows an append writes decide whether it is the append step.\<close>

lemma append_step_transfer:
  assumes "ledger_tip b name = uint expected" "uint expected < max_int64"
    and "fmlookup (t_ledger_records b) (name, uint expected + 1) = None"
    and "same_row (ScopeRow name) b d" "same_row (RecordRow name (uint expected + 1)) b d"
    and "ws0 = [] \<or> ws0 = [WScope name (Some 0)]"
  shows "append_step name expected (Some p) d (apply_writes
     (ws0 @ [WRecord name (uint expected + 1) (Some p), WScope name (Some (uint expected + 1))]) d)"
  using assms by (auto simp: append_step_def ledger_tip_def)

lemma scan_tip:
  assumes "scan_one_uint64 [CInt t] = Inr u"
  shows "t = uint u"
  using assms word_of_int_eq_iff_range [of t u]
  by (auto simp: scan_one_uint64_def scan_uint64_def split: if_splits)

lemma scan_one_uint64_error: "scan_one_uint64 r = Inl e \<Longrightarrow> e = DriverError"
  by (auto simp: scan_one_uint64_def scan_uint64_def split: list.splits cell.splits if_splits)

lemma insert_record_sem:
  assumes "sql_sem (insert_record_stmt s name (expected + 1) payload) now d = (Inr rows, ws)"
  shows "\<exists>p. payload = Some p \<and> ws = [WRecord name (uint expected + 1) (Some p)] \<and>
    uint expected < max_int64 \<and> uint (expected + 1) = uint expected + 1 \<and>
    fmlookup (t_ledger_records d) (name, uint expected + 1) = None"
proof (cases "uint expected < max_uint64")
  case True
  with assms show ?thesis
    by (auto simp: insert_record_stmt_def bigint_arg_def uint_succ_u64 fmlookup_dom_iff
        split: option.splits if_splits)
next
  case False
  then have "uint expected = max_uint64" using uint_less_max [of expected] by simp
  then have "uint (expected + 1) = 0" by (simp add: max_uint64_def uint_word_ariths(1))
  with assms show ?thesis
    by (auto simp: insert_record_stmt_def bigint_arg_def split: option.splits if_splits)
qed

lemma update_tip_sem:
  assumes "sql_sem (update_tip_stmt s name n) now d = (Inr rows, ws)" and "name |\<in>| fmdom (t_ledger_scopes d)"
  shows "ws = [WScope name (Some (uint n))]"
  using assms by (auto simp: update_tip_stmt_def bigint_arg_def split: if_splits)

lemma lock_tip_sem:
  assumes "sql_sem (lock_tip_stmt s name) now d = (Inr rows, ws)" and "fmlookup (t_ledger_scopes d) name = Some t"
  shows "ws = [] \<and> rows = [[CInt t]]"
  using assms by (simp add: lock_tip_stmt_def)

lemma append_commit_cases:
  assumes run: "run_state (do { c \<leftarrow> tx_Commit ctx; State_Monad.return (case c of
         Inl e \<Rightarrow> if Retryable e then Inl e else Inl (CommitOutcome e) | Inr _ \<Rightarrow> Inr ()) }) w = (r, w')"
    and ser: "serial b ws w"
  obtains (Failed) e where "r = Inl e" "driver_error e" "others_only w w'"
  | (Unknown) x where "r = Inl (CommitOutcome (refusal_error x))" "others_only w w'"
  | (Committed) w1 where "others_only w w1" "w' = commit_ours ws w1"
      "\<forall>k \<in> write_key ` set ws. same_row k b (db w1)"
      "r = Inr () \<or> r = Inl (CommitOutcome DriverError) \<and> ev_fault (next_event w) = AckLost"
proof -
  obtain c where c: "run_state (tx_Commit ctx) w = (c, w')"
      and r: "r = (case c of Inl e \<Rightarrow> if Retryable e then Inl e else Inl (CommitOutcome e) | Inr _ \<Rightarrow> Inr ())"
    using run by (auto split: prod.splits)
  from c ser show thesis
  proof (cases rule: serial_Commit_cases)
    case (Failed x)
    with r show thesis
      by (cases "Retryable (refusal_error x)") (auto intro: that(1) [of "refusal_error x"] that(2) [of x])
  next
    case (Committed w1)
    with r show thesis by (intro that(3) [of w1]) auto
  qed
qed

lemma append_writes_cases:
  assumes run: "run_state (ledger_appendWrites s ctx name expected payload) w = (r, w')"
    and ser: "serial b ws0 w" and ws0: "ws0 = (if name |\<in>| fmdom (t_ledger_scopes b) then [] else [WScope name (Some 0)])"
    and tip: "ledger_tip b name = uint expected"
  obtains (Failed) e where "r = Inl e" "driver_error e" "others_only w w'"
  | (Unknown) x where "r = Inl (CommitOutcome (refusal_error x))" "others_only w w'"
  | (Committed) w1 ws where "others_only w w1" "ws \<noteq> []" "w' = commit_ours ws w1"
      "append_step name expected payload (db w1) (db w')"
      "r = Inr () \<or> r = Inl (CommitOutcome DriverError) \<and> \<not> reliable (script w)"
  using run [unfolded ledger_appendWrites_def]
proof (cases rule: try_cases)
  case (Error e)
  from Error(1) ser ledger_aimed(3) ledger_answers(3) show thesis
    by (cases rule: serial_Exec_cases) (use Error(2) in \<open>auto intro: that(1)\<close>)
next
  case (Ok x wa)
  from Ok(1) ser ledger_aimed(3) ledger_answers(3) obtain now rows wsa where a: "others_only w wa"
      "sql_sem (insert_record_stmt s name (expected + 1) payload) now (apply_writes ws0 b) = (Inr rows, wsa)"
      "serial b (ws0 @ wsa) wa"
    by (cases rule: serial_Exec_cases) auto
  from insert_record_sem [OF a(2)] obtain p where p: "payload = Some p"
      "wsa = [WRecord name (uint expected + 1) (Some p)]" "uint expected < max_int64"
      "uint (expected + 1) = uint expected + 1"
      "fmlookup (t_ledger_records b) (name, uint expected + 1) = None"
    using ws0 by (auto split: if_splits)
  from Ok(2) show thesis
  proof (cases rule: try_cases)
    case (Error e)
    from Error(1) a(3) ledger_aimed(4) ledger_answers(4) show thesis
      by (cases rule: serial_Exec_cases) (use Error(2) a(1) in \<open>auto intro: that(1) others_only_trans\<close>)
  next
    case (Ok y wu)
    from Ok(1) a(3) ledger_aimed(4) ledger_answers(4) obtain now' rows' wsu where u: "others_only wa wu"
        "sql_sem (update_tip_stmt s name (expected + 1)) now' (apply_writes (ws0 @ wsa) b) = (Inr rows', wsu)"
        "serial b ((ws0 @ wsa) @ wsu) wu"
      by (cases rule: serial_Exec_cases) auto
    from update_tip_sem [OF u(2)] p(4) have wsu: "wsu = [WScope name (Some (uint expected + 1))]"
      using ws0 p(2) by (auto split: if_splits)
    have oo: "others_only w wu" using a(1) u(1) by (rule others_only_trans)
    from Ok(2) u(3) show thesis
    proof (cases rule: append_commit_cases)
      case (Committed w1)
      have ws0': "ws0 = [] \<or> ws0 = [WScope name (Some 0)]" using ws0 by auto
      have "append_step name expected (Some p) (db w1) (apply_writes (ws0 @
          [WRecord name (uint expected + 1) (Some p), WScope name (Some (uint expected + 1))]) (db w1))"
        by (rule append_step_transfer [OF tip p(3,5) _ _ ws0']) (use Committed(3) p(2) wsu in auto)
      moreover have "\<not> reliable (script w)" if "ev_fault (next_event wu) = AckLost"
        using that oo leads_to_reliable [of w wu] reliable_next [of wu] by blast
      ultimately show thesis
        using Committed oo p(1,2) wsu
        by (intro that(3) [of w1 "(ws0 @ wsa) @ wsu"]) (auto intro: others_only_trans)
    next
      case (Failed e)
      with oo show thesis by (intro that(1)) (auto intro: others_only_trans)
    next
      case (Unknown x)
      with oo show thesis by (intro that(2)) (auto intro: others_only_trans)
    qed
  qed
qed

lemma append_locked_cases:
  assumes run: "run_state (do { q \<leftarrow> tx_QueryRow ctx (lock_tip_stmt s name);
     case scanned scan_one_uint64 q of Inl e \<Rightarrow> State_Monad.return (Inl e) | Inr tip \<Rightarrow>
     if tip \<noteq> expected then State_Monad.return (Inl (Conflict name expected))
     else ledger_appendWrites s ctx name expected payload }) w = (r, w')"
    and ser: "serial b ws0 w" and ws0: "ws0 = (if name |\<in>| fmdom (t_ledger_scopes b) then [] else [WScope name (Some 0)])"
  obtains (Failed) e where "r = Inl e" "driver_error e" "others_only w w'"
  | (Mismatch) "r = Inl (Conflict name expected)" "others_only w w'" "ledger_tip b name \<noteq> uint expected"
  | (Unknown) x where "r = Inl (CommitOutcome (refusal_error x))" "others_only w w'"
  | (Committed) w1 ws where "others_only w w1" "ws \<noteq> []" "w' = commit_ours ws w1"
      "append_step name expected payload (db w1) (db w')"
      "r = Inr () \<or> r = Inl (CommitOutcome DriverError) \<and> \<not> reliable (script w)"
proof -
  obtain q wq where q: "run_state (tx_QueryRow ctx (lock_tip_stmt s name)) w = (q, wq)" by (meson surj_pair)
  from q ser ledger_aimed(2) ledger_answers(2) show thesis
  proof (cases rule: serial_QueryRow_cases)
    case (Failed e)
    with run q show thesis by (intro that(1) [of e]) auto
  next
    case (Done now rows ws)
    with lock_tip_sem [OF Done(3) ledger_tip_ensured [OF ws0]]
    have d: "q = Inr [CInt (ledger_tip b name)]" "serial b ws0 wq" by auto
    show thesis
    proof (cases "scan_one_uint64 [CInt (ledger_tip b name)]")
      case (Inl e)
      with scan_one_uint64_error [OF Inl] run q d Done(2) show thesis by (intro that(1) [of e]) auto
    next
      case (Inr tip)
      note t = scan_tip [OF Inr]
      show thesis
      proof (cases "tip = expected")
        case False
        then have "uint tip \<noteq> uint expected" by (simp add: word_uint_eq_iff)
        with False Inr run q d t Done(2) show thesis by (intro that(2)) auto
      next
        case True
        with Inr run q d have run': "run_state (ledger_appendWrites s ctx name expected payload) wq = (r, w')" by simp
        have rel: "\<not> reliable (script wq) \<Longrightarrow> \<not> reliable (script w)"
          using Done(2) leads_to_reliable [of w wq] by blast
        from run' d(2) ws0 t [unfolded True] show thesis
        proof (cases rule: append_writes_cases)
          case (Failed e)
          with Done(2) show thesis by (intro that(1)) (auto intro: others_only_trans)
        next
          case (Unknown x)
          with Done(2) show thesis by (intro that(3)) (auto intro: others_only_trans)
        next
          case (Committed w1 ws)
          with Done(2) rel show thesis by (intro that(4) [of w1 ws]) (auto intro: others_only_trans)
        qed
      qed
    qed
  qed
qed

lemma appendTx_cases:
  assumes run: "run_state (ledger_appendTx s ctx name expected payload) w = (r, w')"
    and begun: "begun Serializable w"
  obtains (Failed) e where "r = Inl e" "driver_error e" "others_only w w'"
  | (Mismatch) w1 where "r = Inl (Conflict name expected)" "others_only w w1" "others_only w1 w'"
      "ledger_tip (db w1) name \<noteq> uint expected"
  | (Unknown) x where "r = Inl (CommitOutcome (refusal_error x))" "others_only w w'"
  | (Committed) w1 ws where "others_only w w1" "ws \<noteq> []" "w' = commit_ours ws w1"
      "append_step name expected payload (db w1) (db w')"
      "r = Inr () \<or> r = Inl (CommitOutcome DriverError) \<and> \<not> reliable (script w)"
  using run [unfolded ledger_appendTx_def]
proof (cases rule: try_cases)
  case (Error e)
  from Error(1) begun show thesis
    by (cases rule: serial_start_cases) (use Error(2) in \<open>auto intro: that(1)\<close>)
next
  case (Ok x wb)
  from Ok(1) begun have b: "others_only w wb" "serial (db wb) [] wb"
    by (cases rule: serial_start_cases; auto)+
  from Ok(2) show thesis
  proof (cases rule: try_cases)
    case (Error e)
    from Error(1) b(2) ledger_aimed(1) ledger_answers(1) show thesis
      by (cases rule: serial_Exec_cases) (use Error(2) b(1) in \<open>auto intro: that(1) others_only_trans\<close>)
  next
    case (Ok y wi)
    from Ok(1) b(2) ledger_aimed(1) ledger_answers(1) obtain now rows ws where i: "others_only wb wi"
        "sql_sem (ensure_scope_stmt s name) now (db wb) = (Inr rows, ws)" "serial (db wb) ws wi"
      by (cases rule: serial_Exec_cases) auto
    have oo: "others_only w wi" using b(1) i(1) by (rule others_only_trans)
    have rel: "\<not> reliable (script wi) \<Longrightarrow> \<not> reliable (script w)"
      using oo leads_to_reliable [of w wi] by blast
    from Ok(2) i(3) ensure_scope_sem [OF i(2)] show thesis
    proof (cases rule: append_locked_cases)
      case (Failed e)
      with oo show thesis by (intro that(1)) (auto intro: others_only_trans)
    next
      case Mismatch
      with b(1) i(1) show thesis by (intro that(2) [of wb]) (auto intro: others_only_trans)
    next
      case (Unknown x)
      with oo show thesis by (intro that(3)) (auto intro: others_only_trans)
    next
      case (Committed w1 ws)
      with oo rel show thesis by (intro that(4) [of w1 ws]) (auto intro: others_only_trans)
    qed
  qed
qed

text \<open>One attempt, transaction and deferred rollback included.\<close>

lemma appendOnce_cases:
  assumes run: "run_state (ledger_appendOnce s ctx name expected payload) w = (r, w')" and none: "txn w = None"
  obtains (Failed) e where "r = Inl e" "driver_error e" "others_only w w'" "txn w' = None"
  | (Mismatch) w1 where "r = Inl (Conflict name expected)" "others_only w w1" "others_only w1 w'"
      "ledger_tip (db w1) name \<noteq> uint expected" "txn w' = None"
  | (Unknown) x where "r = Inl (CommitOutcome (refusal_error x))" "others_only w w'" "txn w' = None"
  | (Committed) w1 w2 ws where "others_only w w1" "ws \<noteq> []" "w2 = commit_ours ws w1" "w' = w2\<lparr>txn := None\<rparr>"
      "append_step name expected payload (db w1) (db w2)"
      "r = Inr () \<or> r = Inl (CommitOutcome DriverError) \<and> \<not> reliable (script w)"
  using run [unfolded ledger_appendOnce_def]
proof (cases rule: try_cases)
  case (Error e)
  from Error(1) none show thesis
    by (cases rule: begin_cases) (use Error(2) in \<open>auto intro: that(1)\<close>)
next
  case (Ok x wb)
  from Ok(1) none have b: "others_only w wb" "begun Serializable wb"
    by (cases rule: begin_cases; auto)+
  obtain wt where t: "run_state (ledger_appendTx s ctx name expected payload) wb = (r, wt)" and w': "w' = wt\<lparr>txn := None\<rparr>"
    using Ok(2) by (auto split: prod.splits)
  have rel: "\<not> reliable (script wb) \<Longrightarrow> \<not> reliable (script w)"
    using b(1) leads_to_reliable [of w wb] by blast
  from t b(2) show thesis
  proof (cases rule: appendTx_cases)
    case (Failed e)
    with b(1) w' show thesis by (intro that(1)) (auto intro: others_only_trans)
  next
    case (Mismatch w1)
    with b(1) w' show thesis by (intro that(2) [of w1]) (auto intro: others_only_trans)
  next
    case (Unknown x)
    with b(1) w' show thesis by (intro that(3)) (auto intro: others_only_trans)
  next
    case (Committed w1 ws)
    with b(1) w' rel show thesis by (intro that(4) [of w1 ws wt]) (auto intro: others_only_trans)
  qed
qed

section \<open>The reread\<close>

lemma select_payload_cases:
  assumes "run_state (pool_QueryRow ctx (select_payload_stmt s name n)) w = (r, w')"
  obtains (Failed) e where "r = Inl e" "others_only w w'" "txn w' = txn w"
  | (Found) p where "r = Inr [CBytes p]" "others_only w w'" "txn w' = txn w"
      "fmlookup (t_ledger_records (db w')) (name, uint n) = Some p"
  using assms
proof (cases rule: pool_QueryRow_cases)
  case (Failed e)
  then show thesis by (intro that(1)) auto
next
  case (Done w1 now rows ws)
  have ws: "ws = []" using Done(2) by (simp add: select_payload_stmt_def)
  show thesis
  proof (cases "fmlookup (t_ledger_records (db w1)) (name, uint n)")
    case None
    then have "r = Inl ErrNoRows \<or> r = Inl DriverError"
      using Done by (auto simp: select_payload_stmt_def split: if_splits)
    then show thesis using Done ws by (auto intro: that(1))
  next
    case (Some p)
    then have "r = Inr [CBytes p] \<or> r = Inl DriverError"
      using Done by (auto simp: select_payload_stmt_def split: if_splits)
    then show thesis using Done ws Some by (auto intro: that)
  qed
qed

lemma resolveAppend_cases:
  assumes "run_state (ledger_resolveAppend s ctx name expected payload cause) w = (r, w')"
  obtains (Ours) p where "r = Inr ()" "others_only w w'" "txn w' = txn w"
      "fmlookup (t_ledger_records (db w')) (name, uint (expected + 1)) = Some p" "bytes_Equal (Some p) payload"
  | (Other) p where "r = Inl (Conflict name expected)" "others_only w w'" "txn w' = txn w"
      "fmlookup (t_ledger_records (db w')) (name, uint (expected + 1)) = Some p" "\<not> bytes_Equal (Some p) payload"
  | (Unknown) "r = Inl (Ambiguous name expected cause)" "others_only w w'" "txn w' = txn w"
proof -
  let ?w1 = "w\<lparr>script := tl (script w)\<rparr>"
  let ?ctx = "WithDeadline (WithoutCancel ctx) (ev_clock (next_event w) + AuthoritativeReadTimeout)"
  obtain q where q: "run_state (pool_QueryRow ?ctx (select_payload_stmt s name (expected + 1))) ?w1 = (q, w')"
      and r: "r = (case scanned scan_one_bytes q of
         Inr stored \<Rightarrow> if bytes_Equal stored payload then Inr () else Inl (Conflict name expected)
       | Inl _ \<Rightarrow> Inl (Ambiguous name expected cause))"
    using assms by (auto simp: ledger_resolveAppend_def split: prod.splits)
  have oo: "others_only w w'" if "others_only ?w1 w'"
    using others_only_trans [of w ?w1 w'] that by simp
  from q show thesis
  proof (cases rule: select_payload_cases)
    case (Failed e)
    with r oo show thesis by (intro that(3)) auto
  next
    case (Found p)
    with r oo show thesis
      by (cases "bytes_Equal (Some p) payload") (auto simp: scan_one_bytes_def scan_bytes_def intro: that)
  qed
qed

section \<open>The attempts\<close>

lemma ledger_append_from_unfold:
  "attempt < Attempts \<Longrightarrow> run_state (ledger_append_from s ctx name expected payload attempt) w =
   (case run_state (ledger_appendOnce s ctx name expected payload) w of (r, w1) \<Rightarrow>
    (case r of Inr _ \<Rightarrow> (Inr (), w1) | Inl e \<Rightarrow>
     (case as_commitOutcome e of Some cause \<Rightarrow> run_state (ledger_resolveAppend s ctx name expected payload cause) w1
      | None \<Rightarrow> (case as_conflict e of Some conflict \<Rightarrow> (Inl conflict, w1) | None \<Rightarrow>
        (let w2 = w1\<lparr>script := tl (script w1)\<rparr>;
             w3 = w2\<lparr>script := tl (script w2)\<rparr> in
         if Retryable e then
           (case ev_ctx_err (next_event w1) of Some x \<Rightarrow> (Inl (CtxError x), w2) | None \<Rightarrow>
            if attempt + 1 < Attempts then run_state (ledger_append_from s ctx name expected payload (attempt + 1)) w2
            else (case ev_ctx_err (next_event w2) of Some x \<Rightarrow> (Inl (CtxError x), w3)
              | None \<Rightarrow> (Inl (RedactedError ''ledger append''), w3)))
         else (case ev_ctx_err (next_event w1) of Some x \<Rightarrow> (Inl (CtxError x), w2)
              | None \<Rightarrow> (Inl (RedactedError ''ledger append''), w2)))))))"
  by (subst ledger_append_from.simps) (auto simp: Let_def split: prod.splits sum.splits option.splits)

lemma driver_error_as [simp]:
  "driver_error e \<Longrightarrow> as_commitOutcome e = None" "driver_error e \<Longrightarrow> as_conflict e = None"
  by (auto simp: driver_error_def)

text \<open>How the whole loop can end.\<close>

inductive append_ended ::
  "ledger_store \<Rightarrow> go_context \<Rightarrow> string \<Rightarrow> u64 \<Rightarrow> bytes option \<Rightarrow> 'z world_scheme \<Rightarrow> unit result \<Rightarrow> 'z world_scheme \<Rightarrow> bool"
  for s ctx name expected payload w where
  Definite: "e = RedactedError ''ledger append'' \<or> (\<exists>x. e = CtxError x) \<Longrightarrow> others_only w w' \<Longrightarrow> txn w' = None \<Longrightarrow>
     append_ended s ctx name expected payload w (Inl e) w'"
| Mismatch: "others_only w w1 \<Longrightarrow> others_only w1 w' \<Longrightarrow> ledger_tip (db w1) name \<noteq> uint expected \<Longrightarrow> txn w' = None \<Longrightarrow>
     append_ended s ctx name expected payload w (Inl (Conflict name expected)) w'"
| Direct: "others_only w w1 \<Longrightarrow> ws \<noteq> [] \<Longrightarrow> append_step name expected payload (db w1) (apply_writes ws (db w1)) \<Longrightarrow>
     append_ended s ctx name expected payload w (Inr ()) ((commit_ours ws w1)\<lparr>txn := None\<rparr>)"
| Reread: "run_state (ledger_resolveAppend s ctx name expected payload cause) wm = (r, w') \<Longrightarrow> leads_to w wm \<Longrightarrow> txn wm = None \<Longrightarrow>
     our_commits w wm = [] \<or> (\<exists>d. our_commits w wm = [\<lparr>by_us = True, pre = d, post = db wm\<rparr>] \<and>
        append_step name expected payload d (db wm) \<and> \<not> reliable (script w)) \<Longrightarrow>
     append_ended s ctx name expected payload w r w'"

lemma append_ended_later:
  assumes "append_ended s ctx name expected payload w1 r w'" and oo: "others_only w w1"
  shows "append_ended s ctx name expected payload w r w'"
proof -
  have rel: "\<not> reliable (script w1) \<Longrightarrow> \<not> reliable (script w)"
    using oo leads_to_reliable [of w w1] by blast
  have ours: "our_commits w wm = our_commits w1 wm" if "leads_to w1 wm" for wm
    using our_commits_trans [of w w1 wm] others_only_ours [OF oo] that oo by (simp add: others_only_leads_to)
  have trans: "others_only w1 x \<Longrightarrow> others_only w x" "leads_to w1 x \<Longrightarrow> leads_to w x" for x
    using oo others_only_trans leads_to_trans by blast+
  from assms(1) show ?thesis
  proof (cases rule: append_ended.cases)
    case (Reread cause wm)
    with rel ours [of wm] trans show ?thesis by (auto intro!: append_ended.Reread)
  qed (use trans in \<open>auto intro: append_ended.intros\<close>)
qed

lemma append_ended_attempt:
  assumes once: "run_state (ledger_appendOnce s ctx name expected payload) w = (r1, w1)" and "txn w = None"
    and "\<And>e. r1 \<noteq> Inl e \<or> \<not> driver_error e"
    and rest: "(case r1 of Inr _ \<Rightarrow> (Inr (), w1) | Inl e \<Rightarrow>
     (case as_commitOutcome e of Some cause \<Rightarrow> run_state (ledger_resolveAppend s ctx name expected payload cause) w1
      | None \<Rightarrow> (case as_conflict e of Some conflict \<Rightarrow> (Inl conflict, w1) | None \<Rightarrow> z e))) = (r, w')"
  shows "append_ended s ctx name expected payload w r w'"
  using once assms(2)
proof (cases rule: appendOnce_cases)
  case (Failed e)
  with assms(3) show ?thesis by blast
next
  case (Mismatch w2)
  with rest have "r = Inl (Conflict name expected)" "w' = w1" by auto
  with Mismatch show ?thesis by (auto intro: append_ended.Mismatch)
next
  case (Unknown x)
  with rest have "run_state (ledger_resolveAppend s ctx name expected payload (refusal_error x)) w1 = (r, w')" by simp
  with Unknown others_only_ours [OF Unknown(2)] show ?thesis
    by (intro append_ended.Reread) (auto intro: others_only_leads_to)
next
  case (Committed w2 w3 ws)
  show ?thesis
  proof (cases r1)
    case (Inr u)
    with rest Committed have "r = Inr ()" "w' = (commit_ours ws w2)\<lparr>txn := None\<rparr>" by auto
    with Committed show ?thesis by (auto intro: append_ended.Direct)
  next
    case (Inl e)
    with Committed have e: "e = CommitOutcome DriverError" "\<not> reliable (script w)" by auto
    with rest Inl have "run_state (ledger_resolveAppend s ctx name expected payload DriverError) w1 = (r, w')" by simp
    moreover have "leads_to w w1"
      using Committed by (auto intro: leads_to_trans)
    moreover have "our_commits w w1 = [\<lparr>by_us = True, pre = db w2, post = db w1\<rparr>]"
      using our_commits_direct [of w w2 ws] Committed by simp
    moreover have "append_step name expected payload (db w2) (db w1)" using Committed by simp
    moreover have "txn w1 = None" using Committed by simp
    ultimately show ?thesis using e(2) by (intro append_ended.Reread) auto
  qed
qed

lemma append_from_ended:
  assumes "run_state (ledger_append_from s ctx name expected payload attempt) w = (r, w')"
    and "txn w = None" and "attempt < Attempts"
  shows "append_ended s ctx name expected payload w r w'"
  using assms
proof (induction "Attempts - attempt" arbitrary: attempt w)
  case 0
  then show ?case by simp
next
  case (Suc n)
  obtain r1 w1 where once: "run_state (ledger_appendOnce s ctx name expected payload) w = (r1, w1)"
    by (meson surj_pair)
  note run = Suc.prems(1) [unfolded ledger_append_from_unfold [OF Suc.prems(3)] once, simplified]
  show ?case
  proof (cases "\<exists>e. r1 = Inl e \<and> driver_error e")
    case False
    then show ?thesis
      using append_ended_attempt [OF once Suc.prems(2) _ run] by blast
  next
    case True
    then obtain e where e: "r1 = Inl e" "driver_error e" by blast
    from once Suc.prems(2) e have w1: "others_only w w1" "txn w1 = None"
      by (cases rule: appendOnce_cases; auto)+
    let ?w2 = "w1\<lparr>script := tl (script w1)\<rparr>"
    let ?w3 = "?w2\<lparr>script := tl (script ?w2)\<rparr>"
    have o2: "others_only w ?w2" using w1(1) by (rule others_only_tick)
    then have o3: "others_only w ?w3" by (rule others_only_tick)
    note oo = o2 o3
    show ?thesis
    proof (cases "Retryable e \<and> ev_ctx_err (next_event w1) = None \<and> attempt + 1 < Attempts")
      case True
      with run e have "run_state (ledger_append_from s ctx name expected payload (attempt + 1)) ?w2 = (r, w')"
        by (simp add: Let_def)
      then have "append_ended s ctx name expected payload ?w2 r w'"
        using Suc.hyps(1) [of "attempt + 1" ?w2] Suc.hyps(2) w1(2) True by simp
      then show ?thesis using oo(1) by (rule append_ended_later)
    next
      case False
      with run e oo w1(2) show ?thesis
        by (auto simp: Let_def intro!: append_ended.Definite split: option.splits if_splits)
    qed
  qed
qed

section \<open>Properties of Append\<close>

lemma ledger_Append_cases:
  assumes "run_state (ledger_Append vn s c name expected payload) w = (r, w')" and "txn w = None"
  obtains (NilContext) "r = Inl (DeadlineRequired ''Ledger.Append'')" "c = None" "w' = w"
  | (BadName) e where "vn name = Some e" "r = Inl e" "others_only w w'" "txn w' = None"
  | (Ended) ctx where "append_ended s ctx name expected payload w r w'"
  using assms(1) [unfolded ledger_Append_def]
proof (cases rule: after_Bound)
  case Refused
  then show thesis by (intro that(1)) auto
next
  case (Bounded ctx w0)
  show thesis
  proof (cases "vn name")
    case None
    with Bounded have "run_state (ledger_append_from s ctx name expected payload 0) w0 = (r, w')" by simp
    then have "append_ended s ctx name expected payload w0 r w'"
      by (rule append_from_ended) (use Bounded(3) assms(2) in simp_all)
    then have "append_ended s ctx name expected payload w r w'"
      using Bounded(2) by (rule append_ended_later)
    then show thesis by (rule that(3))
  next
    case (Some e)
    with Bounded assms(2) show thesis by (intro that(2)) auto
  qed
qed

lemma append_ended_commits:
  assumes "append_ended s ctx name expected payload w r w'"
  shows "txn w' = None \<and> leads_to w w' \<and>
    (our_commits w w' = [] \<or> (\<exists>d d'. our_commits w w' = [\<lparr>by_us = True, pre = d, post = d'\<rparr>] \<and>
       append_step name expected payload d d' \<and> (r = Inr () \<or> \<not> reliable (script w))))"
  using assms
proof (cases rule: append_ended.cases)
  case (Direct w1 ws)
  then show ?thesis
    using our_commits_direct [of w w1 ws] by (auto intro: leads_to_trans)
next
  case (Reread cause wm)
  then have "others_only wm w' \<and> txn w' = None" by (auto elim: resolveAppend_cases)
  then have "our_commits w w' = our_commits w wm" "txn w' = None" "leads_to w w'"
    using our_commits_trans [of w wm w'] others_only_ours [of wm w'] Reread(2)
    by (auto simp: others_only_leads_to intro: leads_to_trans)
  with Reread show ?thesis by auto
next
  case (Mismatch w1)
  then have "others_only w w'" by (blast intro: others_only_trans)
  with Mismatch show ?thesis by (auto simp: others_only_ours)
qed (auto simp: others_only_ours)

lemma append_guarantee:
  "guarantees (append_step name expected payload) (ledger_Append vn s c name expected payload)"
proof (rule guaranteesI)
  fix w :: "'a world_scheme" and r w'
  assume run: "run_state (ledger_Append vn s c name expected payload) w = (r, w')" and none: "txn w = None"
  from run none have "txn w' = None \<and> leads_to w w' \<and>
      (\<forall>c \<in> set (our_commits w w'). append_step name expected payload (pre c) (post c))"
  proof (cases rule: ledger_Append_cases)
    case NilContext
    with none show ?thesis by (simp add: our_commits_def commits_def)
  next
    case (BadName e)
    then show ?thesis by (auto simp: others_only_ours)
  next
    case (Ended ctx)
    from append_ended_commits [OF this] show ?thesis by auto
  qed
  then show "txn w' = None \<and> (\<exists>cs. evolves cs w w' \<and>
      (\<forall>c \<in> set cs. by_us c \<longrightarrow> append_step name expected payload (pre c) (post c)))"
    by (auto intro: our_commits_evolve)
qed

text \<open>
  C2. Whatever the other sessions, the network and the clocks do, every change \<open>Append\<close>
  commits is exactly one append step: the tip was the expected one and the next record did not
  exist; afterwards the tip is one higher and the next record holds the payload, nothing else
  having changed.
\<close>

theorem ledger_Append_commits:
  "guarantees (append_step name expected payload) (ledger_Append vn s c name expected payload)"
  by (rule append_guarantee)

text \<open>
  C12. Retrying never appends twice: over all its attempts \<open>Append\<close> commits at most once, also
  when a commit's acknowledgement is lost; and when no acknowledgement is lost, a call that
  returns an error committed nothing.
\<close>

theorem ledger_Append_at_most_once:
  assumes "run_state (ledger_Append vn s c name expected payload) w = (r, w')" and "txn w = None"
  shows "length (our_commits w w') \<le> 1 \<and> (reliable (script w) \<and> r \<noteq> Inr () \<longrightarrow> our_commits w w' = [])"
  using assms
proof (cases rule: ledger_Append_cases)
  case NilContext
  then show ?thesis by (simp add: our_commits_def commits_def)
next
  case (BadName e)
  then show ?thesis by (auto simp: others_only_ours)
next
  case (Ended ctx)
  from append_ended_commits [OF this] show ?thesis by auto
qed

text \<open>
  When \<open>Append\<close> reports success, some committed state during the call held the payload as
  the record after the expected tip.
\<close>

theorem ledger_Append_success:
  assumes "run_state (ledger_Append vn s c name expected payload) w = (Inr (), w')"
    and "txn w = None"
  shows "\<exists>d \<in> set (states w w'). \<exists>p. fmlookup (t_ledger_records d) (name, uint (expected + 1)) = Some p \<and>
    bytes_Equal (Some p) payload"
  using assms
proof (cases rule: ledger_Append_cases)
  case (Ended ctx)
  then show ?thesis
  proof (cases rule: append_ended.cases)
    case (Direct w1 ws)
    then have "uint (expected + 1) = uint expected + 1"
      by (auto simp: append_step_def uint_succ_int64)
    with Direct show ?thesis
      using final_state [of w' w] by (auto simp: append_step_def bytes_Equal_def intro!: bexI [of _ "db w'"])
  next
    case (Reread cause wm)
    from Reread(1) show ?thesis
      by (cases rule: resolveAppend_cases) (auto intro!: bexI [of _ "db w'"] final_state)
  qed
qed auto

text \<open>
  When \<open>Append\<close> reports a conflict, in some committed state during the call the tip was not
  the expected one or another payload stood as the record after it.
\<close>

theorem ledger_Append_conflict:
  assumes "run_state (ledger_Append vn s c name expected payload) w = (Inl (Conflict name expected), w')"
    and "vn name = None" and "txn w = None"
  shows "\<exists>d \<in> set (states w w'). ledger_tip d name \<noteq> uint expected \<or>
    (\<exists>p. fmlookup (t_ledger_records d) (name, uint (expected + 1)) = Some p \<and> \<not> bytes_Equal (Some p) payload)"
  using assms(1,3)
proof (cases rule: ledger_Append_cases)
  case (Ended ctx)
  then show ?thesis
  proof (cases rule: append_ended.cases)
    case Definite
    then show ?thesis by (auto simp: RedactedError_def)
  next
    case (Mismatch w1)
    then show ?thesis using state_between [of w w1 w'] by blast
  next
    case (Reread cause wm)
    from Reread(1) show ?thesis
      by (cases rule: resolveAppend_cases) (auto intro!: bexI [of _ "db w'"] final_state)
  qed
qed (use assms in auto)

text \<open>
  Every way \<open>Append\<close> can end: success, the nil-context refusal, the name's error, the
  context's error, the redacted failure, a conflict or an ambiguous outcome -- never the panic
  at the end of the loop, and never a raw driver error.
\<close>

theorem ledger_Append_outcomes:
  assumes "run_state (ledger_Append vn s c name expected payload) w = (r, w')" and "txn w = None"
  shows "r = Inr () \<or> r = Inl (DeadlineRequired ''Ledger.Append'') \<or> (\<exists>e. vn name = Some e \<and> r = Inl e) \<or>
    (\<exists>x. r = Inl (CtxError x)) \<or> r = Inl (Redacted ''ledger append'') \<or> r = Inl (Conflict name expected) \<or>
    (\<exists>cause. r = Inl (Ambiguous name expected cause))"
  using assms
proof (cases rule: ledger_Append_cases)
  case (Ended ctx)
  then show ?thesis
  proof (cases rule: append_ended.cases)
    case (Reread cause wm)
    from Reread(1) show ?thesis by (cases rule: resolveAppend_cases) auto
  qed (auto simp: RedactedError_def)
qed auto

section \<open>The log has no gaps\<close>

text \<open>The records of a name are exactly those numbered from 1 to its tip.\<close>

definition ledger_inv :: "database \<Rightarrow> bool" where
  "ledger_inv d \<longleftrightarrow> (\<forall>name t. fmlookup (t_ledger_scopes d) name = Some t \<longrightarrow> tip_ok t) \<and>
     (\<forall>name n. (name, n) |\<in>| fmdom (t_ledger_records d) \<longleftrightarrow> 1 \<le> n \<and> n \<le> ledger_tip d name)"

definition ledger_step :: "database \<Rightarrow> database \<Rightarrow> bool" where
  "ledger_step d d' \<longleftrightarrow> (\<exists>name expected payload. append_step name expected payload d d') \<or> (\<exists>name. ledger_removal name d d')"

lemma append_keeps: "append_step name expected payload d d' \<Longrightarrow> ledger_inv d \<Longrightarrow> ledger_inv d'"
  unfolding append_step_def ledger_inv_def ledger_tip_def tip_ok_def
  by (auto split: if_splits)

lemma removal_keeps: "ledger_removal name d d' \<Longrightarrow> ledger_inv d \<Longrightarrow> ledger_inv d'"
  unfolding ledger_removal_def ledger_inv_def ledger_tip_def by (auto split: if_splits)

interpretation ledger: protocol ledger_step ledger_inv
  by unfold_locales (auto simp: ledger_step_def intro: append_keeps removal_keeps)

lemma ledger_tip_nonneg: "ledger_inv d \<Longrightarrow> 0 \<le> ledger_tip d name \<and> ledger_tip d name \<le> max_int64"
  by (auto simp: ledger_inv_def ledger_tip_def tip_ok_def max_int64_def split: option.splits)

lemma set_ledger_seqs [simp]: "n \<in> set (ledger_seqs name d) \<longleftrightarrow> (name, n) |\<in>| fmdom (t_ledger_records d)"
  by (force simp: ledger_seqs_def)

lemma ledger_seqs_sorted [simp]: "sorted (ledger_seqs name d)" "distinct (ledger_seqs name d)"
  by (simp_all add: ledger_seqs_def)

lemma ledger_seqs_inv: "ledger_inv d \<Longrightarrow> ledger_seqs name d = [1..ledger_tip d name]"
  by (rule sorted_distinct_set_unique) (auto simp: ledger_inv_def)

lemma drop_records_sem:
  "apply_writes (map (\<lambda>n. WRecord name n None) ns) d =
     d\<lparr>t_ledger_records := fmfilter (\<lambda>k. \<not> (fst k = name \<and> snd k \<in> set ns)) (t_ledger_records d)\<rparr>"
proof (induction ns arbitrary: d)
  case Nil
  have "fmfilter (\<lambda>k. True) (t_ledger_records d) = t_ledger_records d" by (rule fmap_ext) simp
  then show ?case by simp
next
  case (Cons n ns)
  have "fmfilter (\<lambda>k. \<not> (fst k = name \<and> snd k \<in> set ns)) (fmdrop (name, n) (t_ledger_records d)) =
      fmfilter (\<lambda>k. \<not> (fst k = name \<and> snd k \<in> set (n # ns))) (t_ledger_records d)"
    by (rule fmap_ext) auto
  with Cons.IH show ?case by (simp cong del: fmfilter_cong)
qed

lemma delete_scope_sem:
  assumes "sql_sem (delete_scope_stmt s name) now d = (Inr rows, ws)"
  shows "(ws = [] \<and> name |\<notin>| fmdom (t_ledger_scopes d)) \<or> (ws \<noteq> [] \<and> ledger_removal name d (apply_writes ws d))"
proof (cases "name |\<in>| fmdom (t_ledger_scopes d)")
  case True
  have "fmfilter (\<lambda>k. \<not> (fst k = name \<and> snd k \<in> set (ledger_seqs name d))) (t_ledger_records d) =
      fmfilter (\<lambda>k. fst k \<noteq> name) (t_ledger_records d)"
    by (rule fmap_ext) (auto simp: fmlookup_dom_iff)
  with True assms show ?thesis
    by (auto simp: delete_scope_stmt_def ledger_removal_def drop_records_sem cong del: fmfilter_cong)
next
  case False
  with assms show ?thesis by (simp add: delete_scope_stmt_def)
qed

lemma select_tip_sem:
  "sql_sem (select_tip_stmt s name) now d =
     (Inr (case fmlookup (t_ledger_scopes d) name of None \<Rightarrow> [] | Some t \<Rightarrow> [[CInt t]]), [])"
  by (simp add: select_tip_stmt_def split: option.split)

lemma scope_exists_sem:
  "sql_sem (scope_exists_stmt s name) now d =
     (Inr (if name |\<in>| fmdom (t_ledger_scopes d) then [[CInt 1]] else []), [])"
  by (simp add: scope_exists_stmt_def)

lemma ledger_failure_run [simp]:
  "run_state (ledger_operationFailure ctx operation) w =
     ((case ev_ctx_err (next_event w) of Some x \<Rightarrow> CtxError x | None \<Rightarrow> RedactedError operation),
      w\<lparr>script := tl (script w)\<rparr>)"
  "run_state (ledger_safeCause ctx operation) w =
     ((case ev_ctx_err (next_event w) of Some x \<Rightarrow> CtxError x | None \<Rightarrow> RedactedError operation),
      w\<lparr>script := tl (script w)\<rparr>)"
  by (simp_all add: ledger_operationFailure_def ledger_safeCause_def)

lemma guarantees_ledger_parts [guarantee_intros]:
  "guarantees R (ledger_operationFailure ctx operation)" "guarantees R (ledger_safeCause ctx operation)"
  "guarantees R (pool_QueryRow ctx (select_tip_stmt s name))"
  "guarantees R (pool_QueryRow ctx (scope_exists_stmt s name))"
  "guarantees R (pool_Query ctx (select_records_stmt s name start))"
  unfolding ledger_operationFailure_def ledger_safeCause_def
  by (intro guarantee_intros; simp add: select_tip_sem scope_exists_sem select_records_stmt_def)+

lemma guarantees_ledger_deleteOnce [guarantee_intros]:
  "guarantees (ledger_removal name) (ledger_deleteOnce s ctx name)"
  unfolding ledger_deleteOnce_def by (intro guarantee_intros) (auto dest: delete_scope_sem)

lemma ledger_Delete_commits: "guarantees (ledger_removal name) (ledger_Delete vn s c name)"
  unfolding ledger_Delete_def ledger_resolveDelete_def by (intro guarantee_intros)

text \<open>
  C6. The log of every name stays gap-free: in every committed state \<open>Append\<close> and \<open>Delete\<close> run
  through, the records of each name are exactly 1 up to its tip, if that held at the start and
  the other sessions keep it.
\<close>

theorem ledger_gap_free:
  assumes "ledger_inv (db w)" and "keeps ledger_inv (script w)" and "txn w = None"
  shows "(\<forall>d \<in> set (states w (snd (run_state (ledger_Append vn s c name expected payload) w))). ledger_inv d) \<and>
    (\<forall>d \<in> set (states w (snd (run_state (ledger_Delete vn s c name) w))). ledger_inv d)"
proof
  have "guarantees ledger_step (ledger_Append vn s c name expected payload)"
    by (rule guarantees_mono [OF append_guarantee]) (auto simp: ledger_step_def)
  from ledger.invariant_everywhere [OF this prod.collapse [symmetric] assms(3,1,2)]
  show "\<forall>d \<in> set (states w (snd (run_state (ledger_Append vn s c name expected payload) w))). ledger_inv d" .
  have "guarantees ledger_step (ledger_Delete vn s c name)"
    by (rule guarantees_mono [OF ledger_Delete_commits]) (auto simp: ledger_step_def)
  from ledger.invariant_everywhere [OF this prod.collapse [symmetric] assms(3,1,2)]
  show "\<forall>d \<in> set (states w (snd (run_state (ledger_Delete vn s c name) w))). ledger_inv d" .
qed

section \<open>Read and the cursor\<close>

text \<open>What a reader of the log sees: the payloads from the first to the last.\<close>

definition ledger_log :: "database \<Rightarrow> string \<Rightarrow> bytes list" where
  "ledger_log d name = map (\<lambda>n. the (fmlookup (t_ledger_records d) (name, n))) [1..ledger_tip d name]"

text \<open>The records numbered from \<open>a\<close> to \<open>b\<close>.\<close>

definition log_records :: "database \<Rightarrow> string \<Rightarrow> int \<Rightarrow> int \<Rightarrow> ledger_record list" where
  "log_records d name a b =
     map (\<lambda>n. \<lparr>Seq = word_of_int n, Payload = Some (the (fmlookup (t_ledger_records d) (name, n)))\<rparr>) [a..b]"

lemma scan_log_records:
  assumes "\<forall>n \<in> set ns. 0 \<le> n \<and> n \<le> max_int64"
  shows "scan_ledger_records (map (\<lambda>n. [CInt n, CBytes (f n)]) ns) =
     Inr (map (\<lambda>n. \<lparr>Seq = word_of_int n, Payload = Some (f n)\<rparr>) ns)"
  using assms
  by (induction ns) (auto simp: scan_ledger_record_def scan_uint64_def scan_bytes_def max_int64_def max_uint64_def)

lemma filter_upto: "1 \<le> a \<Longrightarrow> filter (\<lambda>n. a \<le> n) [1..b] = [a..b]"
  by (rule sorted_distinct_set_unique) (auto simp: sorted_filter [where f = "\<lambda>x. x", simplified])

lemma select_records_sem:
  assumes "ledger_inv d" and "1 \<le> uint start" and "uint start \<le> max_int64"
  shows "sql_sem (select_records_stmt s name start) now d =
     (Inr (map (\<lambda>n. [CInt n, CBytes (the (fmlookup (t_ledger_records d) (name, n)))]) [uint start..ledger_tip d name]), [])"
proof -
  have "case_option [] id (fmlookup (t_ledger_records d) (name, n)) = the (fmlookup (t_ledger_records d) (name, n))"
    if "n \<in> set [uint start..ledger_tip d name]" for n
  proof -
    have "(name, n) |\<in>| fmdom (t_ledger_records d)"
      using assms(1,2) that by (auto simp: ledger_inv_def)
    then show ?thesis by (auto simp: fmlookup_dom_iff)
  qed
  with assms show ?thesis
    by (simp add: select_records_stmt_def ledger_seqs_inv filter_upto)
qed

text \<open>
  C24. \<open>Read\<close> changes nothing; its cursor holds, in order and without gaps, exactly the records
  of one committed state from the requested position (at least 1) to the tip.
\<close>

theorem ledger_Read_contiguous:
  assumes "run_state (ledger_Read vn s c name from0) w = (Inr cur, w')" and vn: "vn name = None"
    and inv: "\<forall>d \<in> set (states w w'). ledger_inv d"
  shows "our_commits w w' = [] \<and> cur_position cur = 0 \<and> \<not> cur_closed cur \<and>
    (\<exists>d \<in> set (states w w'). cur_records cur = log_records d name (max 1 (uint from0)) (ledger_tip d name))"
  using assms(1) [unfolded ledger_Read_def]
proof (cases rule: after_Bound)
  case (Bounded ctx w0)
  define start where "start = (if from0 < 1 then 1 else from0)"
  have start: "uint start = max 1 (uint from0)"
    by (auto simp: start_def word_less_def)
  obtain q wq where q: "run_state (pool_run ctx (select_records_stmt s name start)) w0 = (q, wq)"
    by (meson surj_pair)
  have run: "\<exists>rs. q = Inr rs \<and> w' = wq \<and> (case scan_ledger_records rs of
              Inl _ \<Rightarrow> Inl (RedactedError ''ledger read'')
            | Inr records \<Rightarrow> Inr \<lparr>cur_operationTimeout = lg_operationTimeout s, cur_records = records,
                cur_position = 0, cur_closed = False\<rparr>) = Inr cur"
    using Bounded(4) vn q by (cases q) (auto simp: pool_Query_def Let_def start_def)
  then obtain rs where rs: "q = Inr rs" "w' = wq" and res: "(case scan_ledger_records rs of
              Inl _ \<Rightarrow> Inl (RedactedError ''ledger read'')
            | Inr records \<Rightarrow> Inr \<lparr>cur_operationTimeout = lg_operationTimeout s, cur_records = records,
                cur_position = 0, cur_closed = False\<rparr>) = Inr cur"
    by blast
  from q show ?thesis
  proof (cases rule: pool_run_cases)
    case (Failed e)
    with rs show ?thesis by simp
  next
    case (Done w1 now rows ws)
    have ws: "ws = []" and bound: "uint start \<le> max_int64"
      using Done(2) by (auto simp: select_records_stmt_def split: if_splits)
    have w': "w' = w1" using Done(3) ws rs by simp
    have inv': "ledger_inv (db w1)" using inv final_state [of w' w] w' by blast
    from select_records_sem [OF inv' _ bound] Done(2,5) rs start
    have rows: "rs = map (\<lambda>n. [CInt n, CBytes (the (fmlookup (t_ledger_records (db w1)) (name, n)))])
        [uint start..ledger_tip (db w1) name]" by auto
    have "scan_ledger_records rs = Inr (log_records (db w1) name (uint start) (ledger_tip (db w1) name))"
      unfolding rows log_records_def
      by (rule scan_log_records) (use ledger_tip_nonneg [OF inv', of name] start in auto)
    with res have cur: "cur = \<lparr>cur_operationTimeout = lg_operationTimeout s,
        cur_records = log_records (db w1) name (uint start) (ledger_tip (db w1) name),
        cur_position = 0, cur_closed = False\<rparr>" by simp
    have "others_only w w'" using Bounded(2) Done(1) w' by (blast intro: others_only_trans)
    with cur show ?thesis
      using others_only_ours [of w w'] final_state [of w' w] w' start by auto
  qed
qed simp

text \<open>Call \<open>Next\<close> until it fails, at most \<open>n\<close> times.\<close>

fun ledger_drain :: "nat \<Rightarrow> go_context option \<Rightarrow> ledger_cursor \<Rightarrow> ('z world_scheme, ledger_record list) state" where
  "ledger_drain 0 ctx c = State_Monad.return []"
| "ledger_drain (Suc n) ctx c = do {
     (r, c') \<leftarrow> ledger_Next ctx c;
     case r of Inl _ \<Rightarrow> State_Monad.return []
     | Inr x \<Rightarrow> do { xs \<leftarrow> ledger_drain n ctx c'; State_Monad.return (x # xs) } }"

lemma ledger_Next_run:
  obtains w' where "run_state (ledger_Next (Some x) c) w =
    (if cur_closed c \<or> length (cur_records c) \<le> cur_position c then (Inl EOF, c)
     else (Inr (cur_records c ! cur_position c), c\<lparr>cur_position := cur_position c + 1\<rparr>), w')"
  by (cases "deadline x") (auto simp: ledger_Next_def Bound_run)

text \<open>
  A cursor hands out every record it has left, in order, then \<open>io.EOF\<close>; a closed cursor
  hands out none; a nil context is refused without moving it.
\<close>

theorem ledger_cursor_complete:
  "(length (cur_records c) - cur_position c < n \<longrightarrow>
     fst (run_state (ledger_drain n (Some x) c) w) = (if cur_closed c then [] else drop (cur_position c) (cur_records c))) \<and>
   fst (run_state (ledger_drain n (Some x) (ledger_Close c)) w) = [] \<and>
   fst (run_state (ledger_Next None c) w) = (Inl (DeadlineRequired ''Ledger.Cursor.Next''), c)"
proof (intro conjI impI)
  show "length (cur_records c) - cur_position c < n \<Longrightarrow> fst (run_state (ledger_drain n (Some x) c) w) =
      (if cur_closed c then [] else drop (cur_position c) (cur_records c))"
  proof (induction n arbitrary: c w)
    case (Suc n)
    obtain w' where w': "run_state (ledger_Next (Some x) c) w =
      (if cur_closed c \<or> length (cur_records c) \<le> cur_position c then (Inl EOF, c)
       else (Inr (cur_records c ! cur_position c), c\<lparr>cur_position := cur_position c + 1\<rparr>), w')"
      by (rule ledger_Next_run)
    with Suc.prems Suc.IH [of "c\<lparr>cur_position := cur_position c + 1\<rparr>" w'] show ?case
      by (auto simp: split_beta Cons_nth_drop_Suc)
  qed simp
  obtain w' where "run_state (ledger_Next (Some x) (ledger_Close c)) w = ((Inl EOF, ledger_Close c), w')"
    using ledger_Next_run [of x "ledger_Close c" w] by (auto simp: ledger_Close_def)
  then show "fst (run_state (ledger_drain n (Some x) (ledger_Close c)) w) = []"
    by (cases n) auto
  show "fst (run_state (ledger_Next None c) w) = (Inl (DeadlineRequired ''Ledger.Cursor.Next''), c)"
    by (simp add: ledger_Next_def Bound_run)
qed

section \<open>Sequential behaviour\<close>

lemma ledger_log_length: "ledger_inv d \<Longrightarrow> int (length (ledger_log d name)) = ledger_tip d name"
  using ledger_tip_nonneg [of d name] by (simp add: ledger_log_def)

lemma ledger_log_append:
  assumes "append_step name expected (Some p) d d'" and "ledger_inv d"
  shows "ledger_log d' name = ledger_log d name @ [p]" and "n \<noteq> name \<Longrightarrow> ledger_log d' n = ledger_log d n"
proof -
  from assms(1) have t: "ledger_tip d name = uint expected" "ledger_tip d' name = uint expected + 1"
      "\<And>n k. (n, k) \<noteq> (name, uint expected + 1) \<Longrightarrow> fmlookup (t_ledger_records d') (n, k) = fmlookup (t_ledger_records d) (n, k)"
      "fmlookup (t_ledger_records d') (name, uint expected + 1) = Some p"
      "\<And>n. n \<noteq> name \<Longrightarrow> ledger_tip d' n = ledger_tip d n"
    by (auto simp: append_step_def ledger_tip_def)
  have "[1..uint expected + 1] = [1..uint expected] @ [uint expected + 1]"
    using uint_ge_0 [of expected] by (simp add: upto_rec2)
  then show "ledger_log d' name = ledger_log d name @ [p]" by (simp add: ledger_log_def t)
  show "n \<noteq> name \<Longrightarrow> ledger_log d' n = ledger_log d n" by (simp add: ledger_log_def t)
qed

lemma appendTx_start:
  assumes "calm [] d w"
  obtains w' where
    "run_state (ledger_appendTx s ctx name expected payload) w =
       run_state (case scan_one_uint64 [CInt (ledger_tip d name)] of Inl e \<Rightarrow> State_Monad.return (Inl e) | Inr tip \<Rightarrow>
         if tip \<noteq> expected then State_Monad.return (Inl (Conflict name expected))
         else ledger_appendWrites s ctx name expected payload) w'"
    "calm (if name |\<in>| fmdom (t_ledger_scopes d) then [] else [WScope name (Some 0)]) d w'"
proof -
  let ?ws = "if name |\<in>| fmdom (t_ledger_scopes d) then [] else [WScope name (Some 0)]"
  obtain w1 where w1: "run_state (SetLocalTimeouts ctx (lg_statementTimeout s) (lg_lockTimeout s)) w = (Inr (), w1)" "calm [] d w1"
    using assms by (rule calm_timeouts)
  have "sql_sem (ensure_scope_stmt s name) 0 (apply_writes [] d) = (Inr [], ?ws)"
    by (auto simp: ensure_scope_stmt_def fmlookup_dom_iff split: option.splits)
  with w1(2) obtain w2 where w2: "run_state (tx_Exec ctx (ensure_scope_stmt s name)) w1 = (Inr (), w2)" "calm ([] @ ?ws) d w2"
    by (rule calm_Exec)
  have "sql_sem (lock_tip_stmt s name) 0 (apply_writes ([] @ ?ws) d) = (Inr [[CInt (ledger_tip d name)]], [])"
    using ledger_tip_ensured [of ?ws name d] by (simp add: lock_tip_stmt_def)
  with w2(2) obtain w3 where w3: "run_state (tx_QueryRow ctx (lock_tip_stmt s name)) w2 =
      (first_row (Inr [[CInt (ledger_tip d name)]]), w3)" "calm (([] @ ?ws) @ []) d w3"
    by (rule calm_QueryRow)
  show thesis
    by (rule that [of w3]) (use w1 w2 w3 in \<open>simp_all add: ledger_appendTx_def\<close>)
qed

lemma appendWrites_quiet:
  assumes calm: "calm ws d w" and ws: "ws = (if name |\<in>| fmdom (t_ledger_scopes d) then [] else [WScope name (Some 0)])"
    and tip: "ledger_tip d name = uint expected" and inv: "ledger_inv d"
  obtains r w' where "run_state (ledger_appendWrites s ctx name expected payload) w = (r, w')" "script w' = []"
    "case payload of None \<Rightarrow> r = Inl not_null_violation \<or> r = Inl DriverError | Some p \<Rightarrow> uint expected = max_int64 \<and> r = Inl DriverError \<or>
       uint expected < max_int64 \<and> r = Inr () \<and> append_step name expected payload d (db w')"
    "r \<noteq> Inr () \<longrightarrow> db w' = d"
proof -
  have le: "uint expected \<le> max_int64" using ledger_tip_nonneg [OF inv, of name] tip by simp
  then have succ: "uint (expected + 1) = uint expected + 1" by (rule uint_succ_int64)
  have fresh: "(name, uint expected + 1) |\<notin>| fmdom (t_ledger_records d)" using inv tip by (auto simp: ledger_inv_def)
  have recs: "t_ledger_records (apply_writes ws d) = t_ledger_records d" using ws by auto
  have scope: "name |\<in>| fmdom (t_ledger_scopes (apply_writes ws d))" using ws by auto
  show thesis
  proof (cases "uint expected < max_int64 \<and> payload \<noteq> None")
    case False
    then have "\<exists>e. sql_sem (insert_record_stmt s name (expected + 1) payload) 0 (apply_writes ws d) = (Inl e, []) \<and>
        (e = DriverError \<or> payload = None \<and> e = not_null_violation) \<and> (payload \<noteq> None \<longrightarrow> uint expected = max_int64)"
      using le by (auto simp: insert_record_stmt_def bigint_arg_def succ)
    then obtain e where e: "sql_sem (insert_record_stmt s name (expected + 1) payload) 0 (apply_writes ws d) = (Inl e, [])"
        "e = DriverError \<or> payload = None \<and> e = not_null_violation" "payload \<noteq> None \<longrightarrow> uint expected = max_int64"
      by blast
    from calm e(1) obtain w1 where w1: "run_state (tx_Exec ctx (insert_record_stmt s name (expected + 1) payload)) w = (Inl e, w1)"
        "script w1 = []" "db w1 = d"
      by (rule calm_Exec_error)
    then have "run_state (ledger_appendWrites s ctx name expected payload) w = (Inl e, w1)"
      by (simp add: ledger_appendWrites_def)
    with w1 e show thesis
      by (intro that [of "Inl e" w1]) (auto simp: not_null_violation_def split: option.splits)
  next
    case True
    then obtain p where p: "payload = Some p" by blast
    have "\<not> uint expected + 1 \<le> 0" using uint_ge_0 [of expected] by linarith
    then have "sql_sem (insert_record_stmt s name (expected + 1) payload) 0 (apply_writes ws d) =
        (Inr [], [WRecord name (uint expected + 1) (Some p)])"
      using True p fresh recs scope by (simp add: insert_record_stmt_def bigint_arg_def succ)
    with calm obtain w1 where w1: "run_state (tx_Exec ctx (insert_record_stmt s name (expected + 1) payload)) w = (Inr (), w1)"
        "calm (ws @ [WRecord name (uint expected + 1) (Some p)]) d w1"
      by (rule calm_Exec)
    have "sql_sem (update_tip_stmt s name (expected + 1)) 0 (apply_writes (ws @ [WRecord name (uint expected + 1) (Some p)]) d) =
        (Inr [], [WScope name (Some (uint expected + 1))])"
      using True scope by (simp add: update_tip_stmt_def bigint_arg_def succ)
    with w1(2) obtain w2 where w2: "run_state (tx_Exec ctx (update_tip_stmt s name (expected + 1))) w1 = (Inr (), w2)"
        "calm ((ws @ [WRecord name (uint expected + 1) (Some p)]) @ [WScope name (Some (uint expected + 1))]) d w2"
      by (rule calm_Exec)
    from w2(2) obtain w3 where w3: "run_state (tx_Commit ctx) w2 = (Inr (), w3)" "script w3 = []"
        "db w3 = apply_writes ((ws @ [WRecord name (uint expected + 1) (Some p)]) @ [WScope name (Some (uint expected + 1))]) d"
      by (rule calm_Commit)
    have "ws = [] \<or> ws = [WScope name (Some 0)]" using ws by auto
    then have "append_step name expected (Some p) d (db w3)"
      using append_step_transfer [of d name expected d ws p] tip True fresh w3(3) by (simp add: fmlookup_dom_iff)
    with w1 w2 w3 True p show thesis
      by (intro that [of "Inr ()" w3]) (auto simp: ledger_appendWrites_def)
  qed
qed

lemma scan_tip_inv:
  assumes "ledger_inv d"
  shows "scan_one_uint64 [CInt (ledger_tip d name)] = Inr (word_of_int (ledger_tip d name))"
    and "(word_of_int (ledger_tip d name) = (u :: u64)) = (ledger_tip d name = uint u)"
  using ledger_tip_nonneg [OF assms, of name] word_of_int_eq_iff_range [of "ledger_tip d name" u]
  by (auto simp: scan_one_uint64_def scan_uint64_def max_int64_def max_uint64_def)

lemma appendOnce_quiet:
  assumes "script w = []" and inv: "ledger_inv (db w)"
  obtains r w' where "run_state (ledger_appendOnce s ctx name expected payload) w = (r, w')" "script w' = []"
    "if ledger_tip (db w) name \<noteq> uint expected then r = Inl (Conflict name expected)
     else case payload of None \<Rightarrow> r = Inl not_null_violation \<or> r = Inl DriverError
       | Some p \<Rightarrow> uint expected = max_int64 \<and> r = Inl DriverError \<or>
         uint expected < max_int64 \<and> r = Inr () \<and> append_step name expected payload (db w) (db w')"
    "r \<noteq> Inr () \<longrightarrow> db w' = db w"
proof -
  let ?ws = "if name |\<in>| fmdom (t_ledger_scopes (db w)) then [] else [WScope name (Some 0)]"
  obtain w1 where w1: "run_state (BeginTx ctx Serializable) w = (Inr (), w1)" "calm [] (db w) w1"
    using assms(1) by (rule calm_begin)
  from w1(2) obtain w2 where w2: "run_state (ledger_appendTx s ctx name expected payload) w1 =
       run_state (case scan_one_uint64 [CInt (ledger_tip (db w) name)] of Inl e \<Rightarrow> State_Monad.return (Inl e) | Inr tip \<Rightarrow>
         if tip \<noteq> expected then State_Monad.return (Inl (Conflict name expected))
         else ledger_appendWrites s ctx name expected payload) w2" "calm ?ws (db w) w2"
    by (rule appendTx_start)
  show thesis
  proof (cases "ledger_tip (db w) name = uint expected")
    case False
    with w1 w2 inv have "run_state (ledger_appendOnce s ctx name expected payload) w =
        (Inl (Conflict name expected), w2\<lparr>txn := None\<rparr>)"
      by (simp add: ledger_appendOnce_def scan_tip_inv)
    with w2(2) False show thesis by (intro that [of _ "w2\<lparr>txn := None\<rparr>"]) (auto simp: calm_def)
  next
    case True
    from w2(2) refl True inv obtain r w' where r: "run_state (ledger_appendWrites s ctx name expected payload) w2 = (r, w')" "script w' = []"
      "case payload of None \<Rightarrow> r = Inl not_null_violation \<or> r = Inl DriverError | Some p \<Rightarrow> uint expected = max_int64 \<and> r = Inl DriverError \<or>
       uint expected < max_int64 \<and> r = Inr () \<and> append_step name expected payload (db w) (db w')"
      "r \<noteq> Inr () \<longrightarrow> db w' = db w"
      by (rule appendWrites_quiet [of _ _ w2 name expected s ctx payload])
    have "scan_one_uint64 [CInt (ledger_tip (db w) name)] = Inr expected"
      using scan_tip_inv [OF inv, of name] True by simp
    with w1 w2(1) r(1) have "run_state (ledger_appendOnce s ctx name expected payload) w = (r, w'\<lparr>txn := None\<rparr>)"
      by (simp add: ledger_appendOnce_def)
    with r True show thesis by (intro that [of _ "w'\<lparr>txn := None\<rparr>"]) (auto split: option.splits)
  qed
qed

text \<open>
  C16. With no fault and no other session, \<open>Append\<close> is append on a list: at the right length it
  adds the payload at the end of that log and leaves the others alone, otherwise it reports a
  conflict and changes nothing.  A nil payload is refused (the column is NOT NULL), and so is
  the append past the largest \<open>bigint\<close>.
\<close>

theorem ledger_Append_refines_list:
  assumes "script w = []" and "txn w = None" and "ledger_inv (db w)" and "vn name = None"
  shows "case run_state (ledger_Append vn s (Some c) name expected payload) w of (r, w') \<Rightarrow>
    (if int (length (ledger_log (db w) name)) \<noteq> uint expected then r = Inl (Conflict name expected) \<and> db w' = db w
     else case payload of
       None \<Rightarrow> r = Inl (Redacted ''ledger append'') \<and> db w' = db w
     | Some p \<Rightarrow> if uint expected = max_int64 then r = Inl (Redacted ''ledger append'') \<and> db w' = db w
         else r = Inr () \<and> ledger_log (db w') name = ledger_log (db w) name @ [p] \<and>
           (\<forall>n. n \<noteq> name \<longrightarrow> ledger_log (db w') n = ledger_log (db w) n))"
proof -
  obtain ctx w0 where w0: "run_state (Bound (Some c) ''Ledger.Append'' (lg_operationTimeout s)) w = (Inr ctx, w0)"
      "script w0 = []" "db w0 = db w" "txn w0 = txn w"
    using assms(1) by (rule Bound_quiet)
  have inv: "ledger_inv (db w0)" using w0(3) assms(3) by simp
  from w0(2) inv obtain r w1 where once: "run_state (ledger_appendOnce s ctx name expected payload) w0 = (r, w1)" "script w1 = []"
    "if ledger_tip (db w0) name \<noteq> uint expected then r = Inl (Conflict name expected)
     else case payload of None \<Rightarrow> r = Inl not_null_violation \<or> r = Inl DriverError
       | Some p \<Rightarrow> uint expected = max_int64 \<and> r = Inl DriverError \<or>
         uint expected < max_int64 \<and> r = Inr () \<and> append_step name expected payload (db w0) (db w1)"
    "r \<noteq> Inr () \<longrightarrow> db w1 = db w0"
    by (rule appendOnce_quiet [of w0 s ctx name expected payload])
  have run: "run_state (ledger_Append vn s (Some c) name expected payload) w =
      run_state (ledger_append_from s ctx name expected payload 0) w0"
    using w0(1) assms(4) by (simp add: ledger_Append_def)
  have len: "int (length (ledger_log (db w) name)) = ledger_tip (db w0) name"
    using ledger_log_length [OF inv, of name] w0(3) by simp
  consider (Conflict) "r = Inl (Conflict name expected)" "ledger_tip (db w0) name \<noteq> uint expected"
    | (Error) e where "r = Inl e" "e = not_null_violation \<or> e = DriverError" "ledger_tip (db w0) name = uint expected"
        "payload = None \<or> uint expected = max_int64"
    | (Ok) p where "r = Inr ()" "ledger_tip (db w0) name = uint expected" "payload = Some p" "uint expected < max_int64"
        "append_step name expected (Some p) (db w0) (db w1)"
    using once(3) by (auto split: if_splits option.splits)
  then show ?thesis
  proof cases
    case Conflict
    with run once len w0(3) show ?thesis by (simp add: ledger_append_from_unfold)
  next
    case Error
    then show ?thesis using run once len w0(3)
      by (auto simp: ledger_append_from_unfold not_null_violation_def RedactedError_def Let_def split: option.splits)
  next
    case (Ok p)
    from ledger_log_append [OF Ok(5) inv] Ok run once len w0(3) show ?thesis
      by (simp add: ledger_append_from_unfold)
  qed
qed

section \<open>Tip, Delete and deadlines\<close>

lemma ledger_Tip_sound:
  assumes "run_state (ledger_Tip vn s c name) w = (Inr t, w')" and vn: "vn name = None"
  shows "our_commits w w' = [] \<and> (\<exists>d \<in> set (states w w'). ledger_tip d name = uint t)"
  using assms(1) [unfolded ledger_Tip_def]
proof (cases rule: after_Bound)
  case (Bounded ctx w0)
  obtain q wq where q: "run_state (pool_run ctx (select_tip_stmt s name)) w0 = (q, wq)" by (meson surj_pair)
  from q select_tip_sem show ?thesis
  proof (cases rule: pool_read_cases)
    case (Failed e)
    with Bounded(4) q vn show ?thesis by (auto simp: pool_QueryRow_def)
  next
    case Read
    have "w' = wq \<and> ledger_tip (db wq) name = uint t"
    proof (cases "fmlookup (t_ledger_scopes (db wq)) name")
      case None
      with Bounded(4) q vn Read show ?thesis by (auto simp: pool_QueryRow_def ledger_tip_def)
    next
      case (Some n)
      with Bounded(4) q vn Read show ?thesis
        by (cases "scan_one_uint64 [CInt n]")
          (auto simp: pool_QueryRow_def ledger_tip_def dest: scan_tip scan_one_uint64_error)
    qed
    moreover have "others_only w wq" using Bounded(2) Read by (blast intro: others_only_trans)
    ultimately show ?thesis using others_only_ours [of w w'] final_state [of w' w] by auto
  qed
qed simp

lemma ledger_Delete_success:
  assumes "run_state (ledger_Delete vn s c name) w = (Inr (), w')" and vn: "vn name = None"
  shows "\<exists>d \<in> set (states w w'). name |\<notin>| fmdom (t_ledger_scopes d)"
  using assms(1) [unfolded ledger_Delete_def]
proof (cases rule: after_Bound)
  case (Bounded ctx w0)
  obtain q wq where q: "run_state (pool_run ctx (delete_scope_stmt s name)) w0 = (q, wq)" by (meson surj_pair)
  show ?thesis
  proof (cases q)
    case (Inr rows)
    with Bounded(4) vn q have w': "w' = wq" by (auto simp: ledger_deleteOnce_def pool_Exec_def)
    from q have "name |\<notin>| fmdom (t_ledger_scopes (db wq))"
      by (cases rule: pool_run_cases) (auto simp: Inr ledger_removal_def dest!: delete_scope_sem)
    then show ?thesis using w' final_state [of w' w] by blast
  next
    case (Inl e)
    let ?w1 = "wq\<lparr>script := tl (script wq)\<rparr>"
    let ?w2 = "?w1\<lparr>script := tl (script ?w1)\<rparr>"
    let ?ctx = "WithDeadline Background (ev_clock (next_event ?w1) + AuthoritativeReadTimeout)"
    obtain z wz where z: "run_state (pool_run ?ctx (scope_exists_stmt s name)) ?w2 = (z, wz)" by (meson surj_pair)
    from Bounded(4) vn q z Inl have w': "w' = wz" and
      res: "\<exists>c. (case scanned scan_one_uint64 (first_row z) of Inr _ \<Rightarrow> Inl c
         | Inl e \<Rightarrow> if e = ErrNoRows then Inr () else Inl (RedactedError ''ledger delete outcome resolution'')) = Inr ()"
      by (auto simp: ledger_deleteOnce_def pool_Exec_def ledger_resolveDelete_def pool_QueryRow_def)
    from z scope_exists_sem have "name |\<notin>| fmdom (t_ledger_scopes (db wz))"
      using res by (cases rule: pool_read_cases)
        (auto split: if_splits simp: scan_one_uint64_def scan_uint64_def max_uint64_def)
    then show ?thesis using w' final_state [of w' w] by blast
  qed
qed simp

text \<open>
  \<open>Delete\<close> only ever removes one log with all its records, and reports success only if the
  log was absent in some committed state; \<open>Tip\<close> changes nothing and returns the tip of one
  committed state.
\<close>

theorem ledger_Delete_Tip_sound:
  "guarantees (ledger_removal name) (ledger_Delete vn s c name) \<and>
   (run_state (ledger_Delete vn s c name) w = (Inr (), w') \<and> vn name = None \<longrightarrow>
      (\<exists>d \<in> set (states w w'). name |\<notin>| fmdom (t_ledger_scopes d))) \<and>
   (run_state (ledger_Tip vn s c name) w = (Inr t, w') \<and> vn name = None \<longrightarrow>
      our_commits w w' = [] \<and> (\<exists>d \<in> set (states w w'). ledger_tip d name = uint t))"
  using ledger_Delete_commits ledger_Delete_success [of vn s c name w w'] ledger_Tip_sound [of vn s c name w t w']
  by blast

lemma sends_ledger_failure [sends_intros]:
  "sends P (ledger_operationFailure ctx operation)" "sends P (ledger_safeCause ctx operation)"
  unfolding ledger_operationFailure_def ledger_safeCause_def by (intro sends_intros)+

lemma sends_appendOnce [sends_intros]:
  assumes "deadline ctx \<noteq> None"
  shows "sends bounded_send (ledger_appendOnce s ctx name expected payload)"
  unfolding ledger_appendOnce_def ledger_appendTx_def ledger_appendWrites_def
  using assms by (intro sends_intros) simp_all

lemma sends_append_from:
  assumes "deadline ctx \<noteq> None"
  shows "sends bounded_send (ledger_append_from s ctx name expected payload attempt)"
proof (induction "Attempts - attempt" arbitrary: attempt)
  case 0
  then show ?case by (subst ledger_append_from.simps) (simp add: sends_return)
next
  case (Suc n)
  from Suc.hyps(2) have "n = Attempts - (attempt + 1)" by linarith
  note IH = Suc.hyps(1) [OF this]
  from assms IH show ?case
    by (subst ledger_append_from.simps, unfold ledger_resolveAppend_def)
      (intro sends_intros; simp)
qed

text \<open>
  Every statement any ledger operation sends -- in every attempt and in the rereads -- is
  sent under a context with a deadline, whatever context the caller passed.
\<close>

lemma ledger_statements_bounded:
  "sends bounded_send (ledger_Append vn s c name expected payload) \<and> sends bounded_send (ledger_Read vn s c name from0) \<and>
   sends bounded_send (ledger_Tip vn s c name) \<and> sends bounded_send (ledger_Delete vn s c name)"
  unfolding ledger_Append_def ledger_Read_def ledger_Tip_def ledger_Delete_def ledger_deleteOnce_def
    ledger_resolveDelete_def Let_def
  by (intro conjI; rule sends_operation; (intro sends_intros sends_append_from; simp))

section \<open>The properties on concrete runs\<close>

definition demo_ledger :: database where
  "demo_ledger = empty_database\<lparr>t_ledger_scopes := fmupd ''l'' 1 fmempty,
     t_ledger_records := fmupd (''l'', 1) ''a'' fmempty\<rparr>"

definition demo_append :: "u64 \<Rightarrow> event list \<Rightarrow> unit result \<times> world" where
  "demo_append n es = run_state (ledger_Append (\<lambda>_. None) (ledger_New ''s'' ''p_'' []) (Some Background) ''l'' n (Some ''b''))
     (open_world demo_ledger es)"

text \<open>A commit, or a statement, that the server answers with a serialization failure.\<close>

definition serialization_failure :: event where
  "serialization_failure = quiet\<lparr>ev_fault := Refused (Sqlstate ''40001'')\<rparr>"

lemmas ledger_eval = ledger_Append_def ledger_Read_def ledger_Tip_def ledger_Delete_def Bound_run
  ledger_append_from_unfold ledger_appendOnce_def ledger_appendTx_def ledger_appendWrites_def
  ledger_resolveAppend_def ledger_deleteOnce_def ledger_New_def
  SetLocalTimeouts_def set_timeouts_stmt_def ledger_writes select_payload_stmt_def select_records_stmt_def
  select_tip_stmt_def delete_scope_stmt_def scope_exists_stmt_def ledger_seqs_def
  BeginTx_def tx_Exec_def tx_QueryRow_def tx_run_def tx_Commit_def tx_base_def new_locks_def
  pool_QueryRow_def pool_Query_def pool_Exec_def pool_run_def Let_def
  scan_one_uint64_def scan_uint64_def scan_one_bytes_def scan_bytes_def bytes_Equal_def
  max_uint64_def max_int64_def advance_def held_locks_def bigint_arg_def
  demo_ledger_def empty_database_def ack_lost_def serialization_failure_def Background_def WithDeadline_def

lemma demo_append_runs:
  "fst (demo_append 1 []) = Inr ()"
  "fst (demo_append 0 []) = Inl (Conflict ''l'' 0)"
  by (simp_all add: demo_append_def ledger_eval)

lemma demo_append_run:
  "run_state (ledger_Append (\<lambda>_. None) (ledger_New ''s'' ''p_'' []) (Some Background) ''l'' n (Some ''b'')) (open_world demo_ledger es) =
     (fst (demo_append n es), snd (demo_append n es))"
  by (simp add: demo_append_def)

text \<open>
  The commit takes effect but is not acknowledged: the call rereads and succeeds.
\<close>

definition demo_script :: "event list" where
  "demo_script = [quiet, quiet, quiet, quiet, quiet, quiet, quiet, ack_lost]"

lemma demo_append_lost: "fst (demo_append 1 demo_script) = Inr ()"
  by (simp add: demo_append_def demo_script_def ledger_eval)

theorem ledger_Append_at_most_once_witness:
  "length (our_commits (open_world demo_ledger demo_script) (snd (demo_append 1 demo_script))) \<le> 1"
  using ledger_Append_at_most_once [OF demo_append_run [of 1 demo_script]] by simp

theorem ledger_Append_success_witness:
  "\<exists>d \<in> set (states (open_world demo_ledger demo_script) (snd (demo_append 1 demo_script))).
     \<exists>p. fmlookup (t_ledger_records d) (''l'', uint (1 + 1 :: u64)) = Some p \<and> bytes_Equal (Some p) (Some ''b'')"
  by (rule ledger_Append_success [OF demo_append_run [of 1 demo_script, unfolded demo_append_lost]]) simp

theorem ledger_Append_conflict_witness:
  "\<exists>d \<in> set (states (open_world demo_ledger []) (snd (demo_append 0 []))). ledger_tip d ''l'' \<noteq> uint (0 :: u64) \<or>
     (\<exists>p. fmlookup (t_ledger_records d) (''l'', uint (0 + 1 :: u64)) = Some p \<and> \<not> bytes_Equal (Some p) (Some ''b''))"
  by (rule ledger_Append_conflict [OF demo_append_run [of 0 "[]", unfolded demo_append_runs]]) simp_all

theorem ledger_Append_outcomes_witness:
  "fst (demo_append 0 []) = Inr () \<or> fst (demo_append 0 []) = Inl (DeadlineRequired ''Ledger.Append'') \<or>
   (\<exists>e. None = Some e \<and> fst (demo_append 0 []) = Inl e) \<or> (\<exists>x. fst (demo_append 0 []) = Inl (CtxError x)) \<or>
   fst (demo_append 0 []) = Inl (Redacted ''ledger append'') \<or> fst (demo_append 0 []) = Inl (Conflict ''l'' 0) \<or>
   (\<exists>cause. fst (demo_append 0 []) = Inl (Ambiguous ''l'' 0 cause))"
  using ledger_Append_outcomes [OF demo_append_run [of 0 "[]"]] by simp

lemma demo_ledger_inv: "ledger_inv demo_ledger"
  by (auto simp: ledger_inv_def demo_ledger_def empty_database_def ledger_tip_def tip_ok_def max_int64_def)

theorem ledger_gap_free_witness:
  "list_all ledger_inv (states (open_world demo_ledger demo_script) (snd (demo_append 1 demo_script)))"
  using ledger_gap_free [of "open_world demo_ledger demo_script" "\<lambda>_. None" "ledger_New ''s'' ''p_'' []" "Some Background"
      "''l''" 1 "Some ''b''"] demo_ledger_inv
  by (simp add: demo_append_def keeps_def demo_script_def serialization_failure_def ack_lost_def list_all_iff)

definition demo_read :: "ledger_cursor result \<times> world" where
  "demo_read = run_state (ledger_Read (\<lambda>_. None) (ledger_New ''s'' ''p_'' []) (Some Background) ''l'' 0) (open_world demo_ledger [])"

lemma ffilter_fempty [simp]: "ffilter P {||} = {||}"
  by (rule fset_eqI) simp

lemma ffilter_finsert [simp]:
  "ffilter P (finsert x A) = (if P x then finsert x (ffilter P A) else ffilter P A)"
  by (rule fset_eqI) auto

lemma demo_read_run:
  "fst demo_read = Inr \<lparr>cur_operationTimeout = DefaultOperationTimeout, cur_records = [\<lparr>Seq = 1, Payload = Some ''a''\<rparr>],
     cur_position = 0, cur_closed = False\<rparr>"
  "states (open_world demo_ledger []) (snd demo_read) = [demo_ledger, demo_ledger]"
  by (simp_all add: demo_read_def ledger_eval scan_ledger_record_def states_def commits_def log_sent_def)

theorem ledger_Read_contiguous_witness:
  "\<exists>d \<in> set (states (open_world demo_ledger []) (snd demo_read)).
     [\<lparr>Seq = 1, Payload = Some ''a''\<rparr>] = log_records d ''l'' (max 1 (uint (0 :: u64))) (ledger_tip d ''l'')"
proof -
  have "run_state (ledger_Read (\<lambda>_. None) (ledger_New ''s'' ''p_'' []) (Some Background) ''l'' 0) (open_world demo_ledger []) =
      (Inr \<lparr>cur_operationTimeout = DefaultOperationTimeout, cur_records = [\<lparr>Seq = 1, Payload = Some ''a''\<rparr>],
     cur_position = 0, cur_closed = False\<rparr>, snd demo_read)"
    using demo_read_run(1) by (metis demo_read_def prod.collapse)
  from ledger_Read_contiguous [OF this] show ?thesis by (simp add: demo_read_run(2) demo_ledger_inv)
qed

theorem ledger_cursor_complete_witness:
  "fst (run_state (ledger_drain 2 (Some Background) \<lparr>cur_operationTimeout = second, cur_records = [\<lparr>Seq = 1, Payload = Some ''a''\<rparr>],
     cur_position = 0, cur_closed = False\<rparr>) (open_world demo_ledger [])) = [\<lparr>Seq = 1, Payload = Some ''a''\<rparr>]"
  using ledger_cursor_complete [of "\<lparr>cur_operationTimeout = second, cur_records = [\<lparr>Seq = 1, Payload = Some ''a''\<rparr>],
     cur_position = 0, cur_closed = False\<rparr>" 2 Background "open_world demo_ledger []"] by simp

theorem ledger_Append_refines_list_witness:
  "ledger_log (db (snd (demo_append 1 []))) ''l'' = ledger_log demo_ledger ''l'' @ [''b'']"
proof -
  have "ledger_log demo_ledger ''l'' = [''a'']"
    by (simp add: ledger_log_def demo_ledger_def ledger_tip_def empty_database_def)
  then show ?thesis
    using ledger_Append_refines_list [where w = "open_world demo_ledger []" and vn = "\<lambda>_. None" and name = "''l''"
        and s = "ledger_New ''s'' ''p_'' []" and c = Background and expected = 1 and payload = "Some ''b''"] demo_ledger_inv
    by (simp add: demo_append_def max_int64_def split: prod.splits)
qed

definition demo_ledger_delete :: "unit result \<times> world" where
  "demo_ledger_delete = run_state (ledger_Delete (\<lambda>_. None) (ledger_New ''s'' ''p_'' []) (Some Background) ''l'') (open_world demo_ledger [])"

theorem ledger_Delete_Tip_sound_witness:
  "\<exists>d \<in> set (states (open_world demo_ledger []) (snd demo_ledger_delete)). ''l'' |\<notin>| fmdom (t_ledger_scopes d)"
proof -
  have "fst demo_ledger_delete = Inr ()" by (simp add: demo_ledger_delete_def ledger_eval)
  then have "run_state (ledger_Delete (\<lambda>_. None) (ledger_New ''s'' ''p_'' []) (Some Background) ''l'') (open_world demo_ledger []) =
      (Inr (), snd demo_ledger_delete)" by (metis demo_ledger_delete_def prod.collapse)
  with ledger_Delete_Tip_sound show ?thesis by blast
qed

end
