(* ===== verification/Lease.thy ===== *)
theory Lease
  imports Transaction
begin

text \<open>
  \<open>internal/lease/lease.go\<close>: renewable leases fenced by an epoch.  The database row of a name
  holds the epoch, the holder's token, the expiry and a revision.  In the process, a store
  keeps its lease objects; each has a goroutine that renews it.

  \<open>lease_world\<close> extends the world by that memory: the lease objects by reference, the
  registered ones, and whether the store's context was canceled.  A closed channel is \<open>True\<close>.
  The goroutine of a lease is a program counter; its steps and those of \<open>Release\<close> and \<open>Close\<close>
  interleave (\<open>lease_system\<close>).  The function fields \<open>renew\<close>, \<open>commit\<close> and \<open>release\<close> of the Go
  struct are fixed by \<open>New\<close> and called directly.

  \<open>vn\<close> stands for \<open>storage.ValidateName\<close>, \<open>token\<close> for what \<open>rand.Read\<close> delivers (\<open>None\<close>: an
  error).  All readings of \<open>clock_timestamp()\<close> in one statement are taken to be equal.
\<close>

section \<open>The store, the lease objects and the process memory\<close>

definition holderTokenBytes :: nat where
  "holderTokenBytes = 32"

record lease_store =
  ls_operationTimeout :: duration
  ls_schema :: string
  ls_tablePrefix :: string
  ls_leaseTTL :: duration
  ls_renewInterval :: duration
  ls_statementTimeout :: duration
  ls_lockTimeout :: duration

text \<open>Where the goroutine of a lease is: at the top of its loop, in the select with the deadline
  it read, about to renew, or returned.\<close>

datatype loop_pc = LoopTop | Waiting instant | Renewing instant | Exited

record lease =
  le_name :: string
  le_epoch :: int
  le_holder :: bytes
  le_safeUntil :: instant
  le_released :: bool
  le_releaseComplete :: bool
  le_lost :: bool
  le_done :: bool
  le_pc :: loop_pc

record lease_world = world +
  objects :: "(nat, lease) fmap"
  registered :: "nat fset"
  store_canceled :: bool
  next_ref :: nat

definition lease_New :: "string \<Rightarrow> string \<Rightarrow> duration \<Rightarrow> duration \<Rightarrow> duration list \<Rightarrow> lease_store" where
  "lease_New schema tablePrefix leaseTTL renewInterval operationTimeouts =
     (let (statementTimeout, lockTimeout) = (case operationTimeouts of
            [a, b] \<Rightarrow> (a, b) | _ \<Rightarrow> (30 * second, 5 * second)) in
      \<lparr>ls_operationTimeout = DefaultOperationTimeout, ls_schema = schema, ls_tablePrefix = tablePrefix,
       ls_leaseTTL = leaseTTL, ls_renewInterval = renewInterval,
       ls_statementTimeout = statementTimeout, ls_lockTimeout = lockTimeout\<rparr>)"

definition lease_WithOperationTimeout :: "lease_store \<Rightarrow> duration \<Rightarrow> lease_store" where
  "lease_WithOperationTimeout s timeout = s\<lparr>ls_operationTimeout := timeout\<rparr>"

definition lease_table :: "lease_store \<Rightarrow> string" where
  "lease_table s = Qualified (ls_schema s) (ls_tablePrefix s @ ''leases'')"

section \<open>Statements\<close>

definition ensure_lease_stmt :: "lease_store \<Rightarrow> string \<Rightarrow> statement" where
  "ensure_lease_stmt s name =
     write_statement (''INSERT INTO '' @ lease_table s @ '' (name, epoch, revision) VALUES ($1, 0, 0) ON CONFLICT (name) DO NOTHING'')
       [CText name] [LeaseRow name]
       (\<lambda>_ d. case fmlookup (t_leases d) name of
          Some _ \<Rightarrow> (Inr [], [])
        | None \<Rightarrow> (Inr [], [WLease name (Some \<lparr>l_epoch = 0, l_holder = None, l_expires_at = None, l_revision = 0\<rparr>)]))"

definition time_cell :: "instant option \<Rightarrow> cell" where
  "time_cell t = (case t of None \<Rightarrow> CNull | Some x \<Rightarrow> CTime x)"

definition holder_cell :: "bytes option \<Rightarrow> cell" where
  "holder_cell h = (case h of None \<Rightarrow> CNull | Some x \<Rightarrow> CBytes x)"

definition lease_columns :: "instant \<Rightarrow> lease_row \<Rightarrow> row" where
  "lease_columns now r = [CInt (l_epoch r), holder_cell (l_holder r), time_cell (l_expires_at r), CTime now]"

definition lock_lease_stmt :: "lease_store \<Rightarrow> string \<Rightarrow> statement" where
  "lock_lease_stmt s name =
     locking_statement (''SELECT epoch, holder, expires_at, clock_timestamp() FROM '' @ lease_table s @ '' WHERE name = $1 FOR UPDATE'')
       [CText name] (LeaseRow name)
       (\<lambda>now d. case fmlookup (t_leases d) name of None \<Rightarrow> Inr [] | Some r \<Rightarrow> Inr [lease_columns now r])"

definition select_lease_stmt :: "lease_store \<Rightarrow> string \<Rightarrow> statement" where
  "select_lease_stmt s name =
     read_statement (''SELECT epoch, holder, expires_at, clock_timestamp() FROM '' @ lease_table s @ '' WHERE name = $1'')
       [CText name]
       (\<lambda>now d. case fmlookup (t_leases d) name of None \<Rightarrow> Inr [] | Some r \<Rightarrow> Inr [lease_columns now r])"

definition take_lease_stmt :: "lease_store \<Rightarrow> string \<Rightarrow> int \<Rightarrow> bytes \<Rightarrow> statement" where
  "take_lease_stmt s name epoch holder =
     write_statement (''UPDATE '' @ lease_table s @ '' SET epoch = $2, holder = $3, expires_at = clock_timestamp() + $4::bigint * interval '1 millisecond', revision = revision + 1 WHERE name = $1 RETURNING expires_at, clock_timestamp()'')
       [CText name, CInt epoch, CBytes holder, CInt (Milliseconds (ls_leaseTTL s))] [LeaseRow name]
       (\<lambda>now d. case fmlookup (t_leases d) name of
          None \<Rightarrow> (Inr [], [])
        | Some r \<Rightarrow>
            if epoch < 0 then (Inl check_violation, [])
            else if l_revision r = max_int64 then (Inl out_of_range, [])
            else let expires = now + Milliseconds (ls_leaseTTL s) * millisecond in
              (Inr [[CTime expires, CTime now]],
               [WLease name (Some \<lparr>l_epoch = epoch, l_holder = Some holder, l_expires_at = Some expires,
                  l_revision = l_revision r + 1\<rparr>)]))"

definition renew_lease_stmt :: "lease_store \<Rightarrow> string \<Rightarrow> int \<Rightarrow> bytes \<Rightarrow> statement" where
  "renew_lease_stmt s name epoch holder =
     write_statement (''UPDATE '' @ lease_table s @ '' SET expires_at = clock_timestamp() + $4::bigint * interval '1 millisecond', revision = revision + 1 WHERE name = $1 AND epoch = $2 AND holder = $3 AND expires_at > clock_timestamp() RETURNING expires_at, clock_timestamp()'')
       [CText name, CInt epoch, CBytes holder, CInt (Milliseconds (ls_leaseTTL s))] [LeaseRow name]
       (\<lambda>now d. case fmlookup (t_leases d) name of
          None \<Rightarrow> (Inr [], [])
        | Some r \<Rightarrow>
            if l_epoch r = epoch \<and> l_holder r = Some holder \<and> (\<exists>t \<in> set_option (l_expires_at r). now < t) then
              (if l_revision r = max_int64 then (Inl out_of_range, [])
               else let expires = now + Milliseconds (ls_leaseTTL s) * millisecond in
                 (Inr [[CTime expires, CTime now]],
                  [WLease name (Some (r\<lparr>l_expires_at := Some expires, l_revision := l_revision r + 1\<rparr>))]))
            else (Inr [], []))"

definition release_lease_stmt :: "lease_store \<Rightarrow> string \<Rightarrow> int \<Rightarrow> bytes \<Rightarrow> statement" where
  "release_lease_stmt s name epoch holder =
     write_statement (''UPDATE '' @ lease_table s @ '' SET holder = NULL, expires_at = NULL, revision = revision + 1 WHERE name = $1 AND epoch = $2 AND holder = $3'')
       [CText name, CInt epoch, CBytes holder] [LeaseRow name]
       (\<lambda>_ d. case fmlookup (t_leases d) name of
          None \<Rightarrow> (Inr [], [])
        | Some r \<Rightarrow>
            if l_epoch r = epoch \<and> l_holder r = Some holder then
              (if l_revision r = max_int64 then (Inl out_of_range, [])
               else (Inr [], [WLease name (Some (r\<lparr>l_holder := None, l_expires_at := None, l_revision := l_revision r + 1\<rparr>))]))
            else (Inr [], []))"

text \<open>\<open>Scan(&epoch, &holder, &expiresAt, &databaseNow)\<close> and \<open>Scan(&expiresAt, &databaseNow)\<close>.\<close>

definition lease_scan :: "row \<Rightarrow> (int \<times> bytes option \<times> instant option \<times> instant) result" where
  "lease_scan r = (case r of
     [a, b, c, d] \<Rightarrow> (case scan_int64 a of Inl e \<Rightarrow> Inl e | Inr epoch \<Rightarrow>
       (case scan_bytes b of Inl e \<Rightarrow> Inl e | Inr holder \<Rightarrow>
       (case scan_time_opt c of Inl e \<Rightarrow> Inl e | Inr expiresAt \<Rightarrow>
       (case scan_time d of Inl e \<Rightarrow> Inl e | Inr databaseNow \<Rightarrow> Inr (epoch, holder, expiresAt, databaseNow)))))
   | _ \<Rightarrow> Inl DriverError)"

definition expiry_scan :: "row \<Rightarrow> (instant \<times> instant) result" where
  "expiry_scan r = (case r of
     [a, b] \<Rightarrow> (case scan_time a of Inl e \<Rightarrow> Inl e | Inr expiresAt \<Rightarrow>
       (case scan_time b of Inl e \<Rightarrow> Inl e | Inr databaseNow \<Rightarrow> Inr (expiresAt, databaseNow)))
   | _ \<Rightarrow> Inl DriverError)"

section \<open>Lease objects\<close>

definition Epoch :: "lease \<Rightarrow> u64" where
  "Epoch l = (if le_epoch l < 0 then 0 else word_of_int (le_epoch l))"

definition Lost :: "lease \<Rightarrow> bool" where
  "Lost l = le_lost l"

definition markLost :: "lease \<Rightarrow> lease" where
  "markLost l = l\<lparr>le_lost := True\<rparr>"

definition lease_stop :: "lease \<Rightarrow> lease" where
  "lease_stop l = l\<lparr>le_done := True\<rparr>"

definition get_lease :: "nat \<Rightarrow> ('z lease_world_scheme, lease) state" where
  "get_lease h = State (\<lambda>w. (the (fmlookup (objects w) h), w))"

definition update_lease :: "nat \<Rightarrow> (lease \<Rightarrow> lease) \<Rightarrow> ('z lease_world_scheme, unit) state" where
  "update_lease h f = State (\<lambda>w. ((), case fmlookup (objects w) h of
     None \<Rightarrow> w | Some l \<Rightarrow> w\<lparr>objects := fmupd h (f l) (objects w)\<rparr>))"

definition lease_register :: "nat \<Rightarrow> ('z lease_world_scheme, unit) state" where
  "lease_register h = State (\<lambda>w. ((), w\<lparr>registered := finsert h (registered w)\<rparr>))"

definition lease_unregister :: "nat \<Rightarrow> ('z lease_world_scheme, unit) state" where
  "lease_unregister h = State (\<lambda>w. ((), w\<lparr>registered := registered w - {|h|}\<rparr>))"

definition conservativeRemaining :: "instant \<Rightarrow> instant \<Rightarrow> instant \<Rightarrow> ('z world_scheme, duration) state" where
  "conservativeRemaining proofStarted expiresAt databaseNow = do {
     now \<leftarrow> time_Now;
     State_Monad.return ((expiresAt - databaseNow) - (now - proofStarted)) }"

text \<open>Allocation of the object; the goroutine starts at the top of its loop.\<close>

definition alloc_lease :: "lease \<Rightarrow> ('z lease_world_scheme, nat) state" where
  "alloc_lease l = State (\<lambda>w. (next_ref w, w\<lparr>objects := fmupd (next_ref w) l (objects w), next_ref := next_ref w + 1\<rparr>))"

definition newLease :: "string \<Rightarrow> int \<Rightarrow> bytes \<Rightarrow> duration \<Rightarrow> ('z lease_world_scheme, nat) state" where
  "newLease name epoch holder remaining = do {
     now \<leftarrow> time_Now;
     h \<leftarrow> alloc_lease \<lparr>le_name = name, le_epoch = epoch, le_holder = holder, le_safeUntil = now + remaining,
       le_released = False, le_releaseComplete = False, le_lost = False, le_done = False, le_pc = LoopTop\<rparr>;
     lease_register h;
     State_Monad.return h }"

section \<open>Acquire\<close>

definition leaseFailure :: "go_context \<Rightarrow> string \<Rightarrow> ('z world_scheme, err) state" where
  "leaseFailure ctx operation = do {
     e \<leftarrow> ctx_Err ctx;
     State_Monad.return (case e of Some x \<Rightarrow> CtxError x | None \<Rightarrow> RedactedError operation) }"

definition fail_acquire :: "go_context \<Rightarrow> ('z world_scheme, 'a result) state" where
  "fail_acquire ctx = do { f \<leftarrow> leaseFailure ctx ''lease acquire''; State_Monad.return (Inl f) }"

definition unexpired :: "instant option \<Rightarrow> instant \<Rightarrow> bool" where
  "unexpired expiresAt databaseNow = (case expiresAt of None \<Rightarrow> False | Some t \<Rightarrow> databaseNow < t)"

text \<open>What the reread row says of the acquisition.\<close>

definition acquireVerdict ::
  "string \<Rightarrow> int \<Rightarrow> bytes \<Rightarrow> instant \<Rightarrow> int \<times> bytes option \<times> instant option \<times> instant \<Rightarrow> ('z lease_world_scheme, nat result) state" where
  "acquireVerdict name epoch holder proofStarted row = (case row of (storedEpoch, storedHolder, expiresAt, databaseNow) \<Rightarrow>
     if storedEpoch = epoch \<and> bytes_Equal storedHolder (Some holder) \<and> unexpired expiresAt databaseNow then do {
       remaining \<leftarrow> conservativeRemaining proofStarted (the expiresAt) databaseNow;
       h \<leftarrow> newLease name epoch holder remaining;
       State_Monad.return (Inr h) }
     else if storedHolder \<noteq> None \<and> unexpired expiresAt databaseNow then
       State_Monad.return (if storedEpoch < 0 then Inl (RedactedError ''lease epoch invalid'')
         else Inl (LeaseHeld name (word_of_int storedEpoch)))
     else State_Monad.return (Inl (RedactedError ''lease acquire outcome resolution'')))"

definition resolveAcquire :: "lease_store \<Rightarrow> string \<Rightarrow> int \<Rightarrow> bytes \<Rightarrow> ('z lease_world_scheme, nat result) state" where
  "resolveAcquire s name epoch holder = do {
     ctx \<leftarrow> WithTimeout Background AuthoritativeReadTimeout;
     proofStarted \<leftarrow> time_Now;
     q \<leftarrow> pool_QueryRow ctx (select_lease_stmt s name);
     case scanned lease_scan q of
       Inl e \<Rightarrow> State_Monad.return (Inl (RedactedError ''lease acquire outcome resolution''))
     | Inr row \<Rightarrow> acquireVerdict name epoch holder proofStarted row }"

text \<open>The last part of \<open>Acquire\<close>: take the row under the next epoch and commit.\<close>

definition takeLease ::
  "lease_store \<Rightarrow> go_context \<Rightarrow> string \<Rightarrow> int \<Rightarrow> bytes \<Rightarrow> ('z lease_world_scheme, nat result) state" where
  "takeLease s ctx name epoch holder = do {
     proofStarted \<leftarrow> time_Now;
     u \<leftarrow> tx_QueryRow ctx (take_lease_stmt s name epoch holder);
     case scanned expiry_scan u of Inl _ \<Rightarrow> fail_acquire ctx | Inr (expiresAt, databaseNow) \<Rightarrow> do {
     c \<leftarrow> tx_Commit ctx;
     case c of Inl _ \<Rightarrow> resolveAcquire s name epoch holder | Inr _ \<Rightarrow> do {
     remaining \<leftarrow> conservativeRemaining proofStarted expiresAt databaseNow;
     h \<leftarrow> newLease name epoch holder remaining;
     State_Monad.return (Inr h) } } }"

text \<open>The statements of the transaction, from the timeouts on.\<close>

definition acquireTx :: "lease_store \<Rightarrow> go_context \<Rightarrow> string \<Rightarrow> bytes \<Rightarrow> ('z lease_world_scheme, nat result) state" where
  "acquireTx s ctx name holder = do {
     t \<leftarrow> SetLocalTimeouts ctx (ls_statementTimeout s) (ls_lockTimeout s);
     case t of Inl _ \<Rightarrow> fail_acquire ctx | Inr _ \<Rightarrow> do {
     i \<leftarrow> tx_Exec ctx (ensure_lease_stmt s name);
     case i of Inl _ \<Rightarrow> fail_acquire ctx | Inr _ \<Rightarrow> do {
     q \<leftarrow> tx_QueryRow ctx (lock_lease_stmt s name);
     case scanned lease_scan q of Inl _ \<Rightarrow> fail_acquire ctx
     | Inr (epoch, currentHolder, expiresAt, databaseNow) \<Rightarrow>
     if epoch < 0 then State_Monad.return (Inl (RedactedError ''lease epoch invalid''))
     else if currentHolder \<noteq> None \<and> unexpired expiresAt databaseNow
     then State_Monad.return (Inl (LeaseHeld name (word_of_int epoch)))
     else if epoch = max_int64 then State_Monad.return (Inl (RedactedError ''lease epoch exhausted''))
     else takeLease s ctx name (epoch + 1) holder } } }"

definition lease_Acquire ::
  "(string \<Rightarrow> err option) \<Rightarrow> lease_store \<Rightarrow> bytes option \<Rightarrow> go_context option \<Rightarrow> string \<Rightarrow>
   ('z lease_world_scheme, nat result) state" where
  "lease_Acquire vn s token ctx0 name = do {
     b \<leftarrow> Bound ctx0 ''Leaser.Acquire'' (ls_operationTimeout s);
     case b of Inl e \<Rightarrow> State_Monad.return (Inl e) | Inr ctx \<Rightarrow>
     (case vn name of Some e \<Rightarrow> State_Monad.return (Inl e) | None \<Rightarrow>
     (case token of None \<Rightarrow> State_Monad.return (Inl (RedactedError ''lease holder token'')) | Some holder \<Rightarrow> do {
        t \<leftarrow> BeginTx ctx ReadCommitted;
        case t of Inl _ \<Rightarrow> fail_acquire ctx | Inr _ \<Rightarrow> do {
          r \<leftarrow> acquireTx s ctx name holder;
          Rollback;
          State_Monad.return r } })) }"

section \<open>Renewal and release of the row\<close>

definition renewTx :: "lease_store \<Rightarrow> go_context \<Rightarrow> lease \<Rightarrow> ('z world_scheme, duration result) state" where
  "renewTx s ctx l = do {
     t \<leftarrow> SetLocalTimeouts ctx (ls_statementTimeout s) (ls_lockTimeout s);
     case t of Inl e \<Rightarrow> State_Monad.return (Inl e) | Inr _ \<Rightarrow> do {
     proofStarted \<leftarrow> time_Now;
     u \<leftarrow> tx_QueryRow ctx (renew_lease_stmt s (le_name l) (le_epoch l) (le_holder l));
     case scanned expiry_scan u of Inl e \<Rightarrow> State_Monad.return (Inl e) | Inr (expiresAt, databaseNow) \<Rightarrow> do {
     c \<leftarrow> tx_Commit ctx;
     case c of Inl e \<Rightarrow> State_Monad.return (Inl e) | Inr _ \<Rightarrow> do {
     remaining \<leftarrow> conservativeRemaining proofStarted expiresAt databaseNow;
     State_Monad.return (Inr remaining) } } } }"

definition renewRow :: "lease_store \<Rightarrow> go_context \<Rightarrow> lease \<Rightarrow> ('z world_scheme, duration result) state" where
  "renewRow s ctx l = do {
     b \<leftarrow> BeginTx ctx ReadCommitted;
     case b of Inl e \<Rightarrow> State_Monad.return (Inl e) | Inr _ \<Rightarrow> do {
       r \<leftarrow> renewTx s ctx l; Rollback; State_Monad.return r } }"

definition releaseTx :: "lease_store \<Rightarrow> go_context \<Rightarrow> lease \<Rightarrow> ('z world_scheme, unit result) state" where
  "releaseTx s ctx l = do {
     t \<leftarrow> SetLocalTimeouts ctx (ls_statementTimeout s) (ls_lockTimeout s);
     case t of Inl e \<Rightarrow> State_Monad.return (Inl e) | Inr _ \<Rightarrow> do {
     u \<leftarrow> tx_Exec ctx (release_lease_stmt s (le_name l) (le_epoch l) (le_holder l));
     case u of Inl e \<Rightarrow> State_Monad.return (Inl e) | Inr _ \<Rightarrow> tx_Commit ctx } }"

definition releaseRow :: "lease_store \<Rightarrow> go_context \<Rightarrow> lease \<Rightarrow> ('z world_scheme, unit result) state" where
  "releaseRow s ctx l = do {
     b \<leftarrow> BeginTx ctx ReadCommitted;
     case b of Inl e \<Rightarrow> State_Monad.return (Inl e) | Inr _ \<Rightarrow> do {
       r \<leftarrow> releaseTx s ctx l; Rollback; State_Monad.return r } }"

definition observe :: "lease_store \<Rightarrow> go_context \<Rightarrow> lease \<Rightarrow> ('z world_scheme, duration result) state" where
  "observe s ctx l = do {
     proofStarted \<leftarrow> time_Now;
     q \<leftarrow> pool_QueryRow ctx (select_lease_stmt s (le_name l));
     case scanned lease_scan q of Inl e \<Rightarrow> State_Monad.return (Inl e)
     | Inr (epoch, holder, expiresAt, databaseNow) \<Rightarrow>
         if epoch \<noteq> le_epoch l \<or> \<not> bytes_Equal holder (Some (le_holder l)) \<or> \<not> unexpired expiresAt databaseNow
         then State_Monad.return (Inl (LeaseLost (le_name l) (Epoch l)))
         else do {
           remaining \<leftarrow> conservativeRemaining proofStarted (the expiresAt) databaseNow;
           State_Monad.return (Inr remaining) } }"

definition resolveRelease :: "lease_store \<Rightarrow> lease \<Rightarrow> ('z world_scheme, unit result) state" where
  "resolveRelease s l = do {
     ctx \<leftarrow> WithTimeout Background AuthoritativeReadTimeout;
     q \<leftarrow> pool_QueryRow ctx (select_lease_stmt s (le_name l));
     State_Monad.return (case scanned lease_scan q of
         Inl e \<Rightarrow> if e = ErrNoRows then Inr () else Inl (RedactedError ''lease release outcome resolution'')
       | Inr (epoch, holder, expiresAt, databaseNow) \<Rightarrow>
           if epoch \<noteq> le_epoch l \<or> \<not> bytes_Equal holder (Some (le_holder l)) \<or> \<not> unexpired expiresAt databaseNow
           then Inr () else Inl (RedactedError ''lease release outcome resolution'')) }"

text \<open>\<open>Release\<close>: on the first call the goroutine is stopped and the lease lost before the row is
  touched; a failed release may be retried, a completed one is not repeated.\<close>

definition lease_Release :: "lease_store \<Rightarrow> go_context option \<Rightarrow> nat \<Rightarrow> ('z lease_world_scheme, unit result) state" where
  "lease_Release s ctx0 h = do {
     b \<leftarrow> Bound ctx0 ''Lease.Release'' (ls_operationTimeout s);
     case b of Inl e \<Rightarrow> State_Monad.return (Inl e) | Inr ctx \<Rightarrow> do {
     l \<leftarrow> get_lease h;
     if le_releaseComplete l then State_Monad.return (Inr ()) else do {
     (if le_released l then State_Monad.return () else do {
        update_lease h (\<lambda>l. l\<lparr>le_released := True\<rparr>);
        update_lease h lease_stop;
        update_lease h markLost;
        lease_unregister h });
     r \<leftarrow> releaseRow s ctx l;
     case r of
       Inr _ \<Rightarrow> do { update_lease h (\<lambda>l. l\<lparr>le_releaseComplete := True\<rparr>); State_Monad.return (Inr ()) }
     | Inl _ \<Rightarrow> do {
         e \<leftarrow> ctx_Err ctx;
         case e of Some x \<Rightarrow> State_Monad.return (Inl (CtxError x)) | None \<Rightarrow> do {
         q \<leftarrow> resolveRelease s l;
         case q of Inl err \<Rightarrow> State_Monad.return (Inl err) | Inr _ \<Rightarrow> do {
           update_lease h (\<lambda>l. l\<lparr>le_releaseComplete := True\<rparr>);
           State_Monad.return (Inr ()) } } } } } }"

definition lease_Close :: "'z lease_world_scheme \<Rightarrow> 'z lease_world_scheme" where
  "lease_Close w = w\<lparr>store_canceled := True,
     objects := fmmap_keys (\<lambda>h l. if h |\<in>| registered w then markLost (lease_stop l) else l) (objects w)\<rparr>"

section \<open>The renewal goroutine\<close>

definition loop_exit :: "nat \<Rightarrow> ('z lease_world_scheme, unit) state" where
  "loop_exit h = do { update_lease h (\<lambda>l. l\<lparr>le_pc := Exited\<rparr>); lease_unregister h }"

definition lose_and_exit :: "nat \<Rightarrow> ('z lease_world_scheme, unit) state" where
  "lose_and_exit h = do { update_lease h markLost; loop_exit h }"

text \<open>From the top of the loop to the select.\<close>

definition renew_check :: "nat \<Rightarrow> ('z lease_world_scheme, unit) state" where
  "renew_check h = do {
     l \<leftarrow> get_lease h;
     if le_released l then loop_exit h else do {
     now \<leftarrow> time_Now;
     if le_safeUntil l - now \<le> 0 then lose_and_exit h
     else update_lease h (\<lambda>l'. l'\<lparr>le_pc := Waiting (le_safeUntil l)\<rparr>) } }"

text \<open>Which case of the select fired.\<close>

datatype wake = DoneClosed | StoreDone | ExpiryTimer | RenewTimer

definition renew_select :: "nat \<Rightarrow> wake \<Rightarrow> instant \<Rightarrow> ('z lease_world_scheme, unit) state" where
  "renew_select h k safeUntil = (case k of
     DoneClosed \<Rightarrow> loop_exit h
   | StoreDone \<Rightarrow> lose_and_exit h
   | ExpiryTimer \<Rightarrow> lose_and_exit h
   | RenewTimer \<Rightarrow> update_lease h (\<lambda>l. l\<lparr>le_pc := Renewing safeUntil\<rparr>))"

text \<open>After the renew timer: renew, or else observe, and move the deadline.\<close>

definition renew_apply :: "nat \<Rightarrow> duration result \<Rightarrow> ('z lease_world_scheme, unit) state" where
  "renew_apply h r = (case r of Inl _ \<Rightarrow> lose_and_exit h | Inr remaining \<Rightarrow>
     if remaining \<le> 0 then lose_and_exit h else do {
       now \<leftarrow> time_Now;
       update_lease h (\<lambda>l. l\<lparr>le_safeUntil := now + remaining, le_pc := LoopTop\<rparr>) })"

definition renew_attempt :: "lease_store \<Rightarrow> nat \<Rightarrow> instant \<Rightarrow> ('z lease_world_scheme, unit) state" where
  "renew_attempt s h safeUntil = do {
     l \<leftarrow> get_lease h;
     r \<leftarrow> renewRow s (WithDeadline Background safeUntil) l;
     case r of
       Inr remaining \<Rightarrow> renew_apply h (Inr remaining)
     | Inl _ \<Rightarrow> do { o1 \<leftarrow> observe s (WithDeadline Background safeUntil) l; renew_apply h o1 } }"

section \<open>The steps of the row\<close>

definition fresh_lease_row :: lease_row where
  "fresh_lease_row = \<lparr>l_epoch = 0, l_holder = None, l_expires_at = None, l_revision = 0\<rparr>"

definition lease_row_of :: "database \<Rightarrow> string \<Rightarrow> lease_row" where
  "lease_row_of d name = (case fmlookup (t_leases d) name of None \<Rightarrow> fresh_lease_row | Some r \<Rightarrow> r)"

text \<open>Somebody holds the row at a given instant of the database clock.\<close>

definition held_at :: "instant \<Rightarrow> lease_row \<Rightarrow> bool" where
  "held_at now r \<longleftrightarrow> l_holder r \<noteq> None \<and> unexpired (l_expires_at r) now"

text \<open>
  Acquisition: nobody held the row when it was checked; the epoch goes up by one and the token
  becomes the holder for the time to live.  Renewal: the same epoch and holder, not yet
  expired, get a new expiry.  Release: the same epoch and holder are cleared.
\<close>

definition acquire_step :: "lease_store \<Rightarrow> string \<Rightarrow> bytes \<Rightarrow> database \<Rightarrow> database \<Rightarrow> bool" where
  "acquire_step s name token d d' \<longleftrightarrow> (\<exists>checked now. let r = lease_row_of d name in
     \<not> held_at checked r \<and> 0 \<le> l_epoch r \<and> l_epoch r < max_int64 \<and> l_revision r \<noteq> max_int64 \<and>
     d' = d\<lparr>t_leases := fmupd name \<lparr>l_epoch = l_epoch r + 1, l_holder = Some token,
        l_expires_at = Some (now + Milliseconds (ls_leaseTTL s) * millisecond), l_revision = l_revision r + 1\<rparr> (t_leases d)\<rparr>)"

definition renew_step :: "lease_store \<Rightarrow> string \<Rightarrow> int \<Rightarrow> bytes \<Rightarrow> database \<Rightarrow> database \<Rightarrow> bool" where
  "renew_step s name epoch holder d d' \<longleftrightarrow> (\<exists>r now. fmlookup (t_leases d) name = Some r \<and>
     l_epoch r = epoch \<and> l_holder r = Some holder \<and> unexpired (l_expires_at r) now \<and> l_revision r \<noteq> max_int64 \<and>
     d' = d\<lparr>t_leases := fmupd name (r\<lparr>l_expires_at := Some (now + Milliseconds (ls_leaseTTL s) * millisecond),
        l_revision := l_revision r + 1\<rparr>) (t_leases d)\<rparr>)"

definition release_step :: "string \<Rightarrow> int \<Rightarrow> bytes \<Rightarrow> database \<Rightarrow> database \<Rightarrow> bool" where
  "release_step name epoch holder d d' \<longleftrightarrow> (\<exists>r. fmlookup (t_leases d) name = Some r \<and>
     l_epoch r = epoch \<and> l_holder r = Some holder \<and> l_revision r \<noteq> max_int64 \<and>
     d' = d\<lparr>t_leases := fmupd name (r\<lparr>l_holder := None, l_expires_at := None, l_revision := l_revision r + 1\<rparr>) (t_leases d)\<rparr>)"

lemmas lease_writes = ensure_lease_stmt_def lock_lease_stmt_def take_lease_stmt_def renew_lease_stmt_def
  release_lease_stmt_def

lemma lease_answers [simp]:
  "answers (ensure_lease_stmt s name)" "answers (lock_lease_stmt s name)" "answers (take_lease_stmt s name e h)"
  "answers (renew_lease_stmt s name e h)" "answers (release_lease_stmt s name e h)" "answers (select_lease_stmt s name)"
  by (auto simp: answers_def lease_writes select_lease_stmt_def check_violation_def out_of_range_def Let_def
      split: option.splits if_splits)

lemma unexpired_iff: "unexpired t now \<longleftrightarrow> (\<exists>x \<in> set_option t. now < x)"
  by (cases t) (auto simp: unexpired_def)

lemma set_option_unexpired: "(\<exists>x \<in> set_option t. now < x) \<longleftrightarrow> unexpired t now"
  by (simp add: unexpired_iff)

lemma lease_scan_columns [simp]:
  "lease_scan (lease_columns now r) =
     (if - max_int64 - 1 \<le> l_epoch r \<and> l_epoch r \<le> max_int64
      then Inr (l_epoch r, l_holder r, l_expires_at r, now) else Inl DriverError)"
  by (auto simp: lease_scan_def lease_columns_def scan_int64_def holder_cell_def time_cell_def scan_bytes_def
      scan_time_opt_def scan_time_def split: option.splits)

lemma expiry_scan_row [simp]: "expiry_scan [CTime a, CTime b] = Inr (a, b)"
  by (simp add: expiry_scan_def scan_time_def)

section \<open>Changes of memory\<close>

text \<open>Nothing happened to the database or the transaction.\<close>

definition idle :: "'z world_scheme \<Rightarrow> 'z world_scheme \<Rightarrow> bool" where
  "idle w w' \<longleftrightarrow> db w' = db w \<and> hist w' = hist w \<and> txn w' = txn w \<and> set (script w') \<subseteq> set (script w)"

lemma idle_refl [simp, intro]: "idle w w"
  by (simp add: idle_def)

lemma idle_trans [trans]: "idle w w1 \<Longrightarrow> idle w1 w2 \<Longrightarrow> idle w w2"
  by (auto simp: idle_def)

lemma idle_others: "idle w w' \<Longrightarrow> others_only w w'"
  by (auto simp: idle_def others_only_def evolves_def intro!: exI [of _ "[]"])

lemma idle_tick [simp]: "idle w (w\<lparr>script := tl (script w)\<rparr>)"
  using set_tl_subset [of "script w"] by (auto simp: idle_def)

lemma idle_memory [simp]:
  "idle w (snd (run_state (update_lease h f) w))" "idle w (snd (run_state (lease_register h) w))"
  "idle w (snd (run_state (lease_unregister h) w))" "idle w (snd (run_state (alloc_lease l) w))"
  "idle w (snd (run_state (get_lease h) w))"
  by (auto simp: idle_def update_lease_def lease_register_def lease_unregister_def alloc_lease_def get_lease_def
      split: option.split)

lemma conservativeRemaining_run [simp]:
  "run_state (conservativeRemaining a b c) w = ((b - c) - (ev_clock (next_event w) - a), w\<lparr>script := tl (script w)\<rparr>)"
  by (simp add: conservativeRemaining_def)

lemma newLease_cases:
  assumes "run_state (newLease name epoch holder remaining) w = (h, w')"
  obtains l where "idle w w'" "fmlookup (objects w') h = Some l" "le_name l = name" "le_epoch l = epoch"
    "le_holder l = holder" "\<not> le_lost l" "h |\<in>| registered w'" "h = next_ref w"
    "le_safeUntil l = ev_clock (next_event w) + remaining"
proof -
  let ?l = "\<lparr>le_name = name, le_epoch = epoch, le_holder = holder, le_safeUntil = ev_clock (next_event w) + remaining,
       le_released = False, le_releaseComplete = False, le_lost = False, le_done = False, le_pc = LoopTop\<rparr>"
  have "h = next_ref w" and w': "w' = w\<lparr>script := tl (script w), objects := fmupd (next_ref w) ?l (objects w),
      next_ref := next_ref w + 1, registered := finsert (next_ref w) (registered w)\<rparr>"
    using assms by (auto simp: newLease_def alloc_lease_def lease_register_def)
  moreover have "idle w w'"
    using set_tl_subset [of "script w"] by (simp add: w' idle_def)
  ultimately show thesis by (intro that [of ?l]) simp_all
qed

lemma fail_acquire_cases:
  assumes "run_state (fail_acquire ctx) w = (r, w')"
  obtains e where "r = Inl e" "e = RedactedError ''lease acquire'' \<or> (\<exists>x. e = CtxError x)" "idle w w'"
  using assms by (auto simp: fail_acquire_def leaseFailure_def split: option.splits)

section \<open>The reread after an acquisition\<close>

lemma select_lease_cases:
  assumes "run_state (pool_QueryRow ctx (select_lease_stmt s name)) w = (q, w')"
  obtains (Failed) e where "q = Inl e" "others_only w w'" "txn w' = txn w"
  | (Found) r now where "q = Inr (lease_columns now r)" "fmlookup (t_leases (db w')) name = Some r"
      "others_only w w'" "txn w' = txn w"
  using assms
proof (cases rule: pool_QueryRow_cases)
  case (Failed e)
  then show thesis by (intro that(1)) auto
next
  case (Done w1 now rows ws)
  then have ws: "ws = []" by (simp add: select_lease_stmt_def)
  with Done show thesis
    by (cases "fmlookup (t_leases (db w1)) name"; cases q) (auto simp: select_lease_stmt_def intro: that)
qed

lemma resolveAcquire_cases:
  assumes "run_state (resolveAcquire s name epoch holder) w = (r, w')"
  obtains (Ours) h l row where "r = Inr h" "others_only w w'" "txn w' = txn w" "fmlookup (objects w') h = Some l"
      "le_name l = name" "le_epoch l = epoch" "le_holder l = holder" "\<not> le_lost l" "h |\<in>| registered w'"
      "fmlookup (t_leases (db w')) name = Some row" "l_epoch row = epoch" "bytes_Equal (l_holder row) (Some holder)"
  | (Held) row now where "r = Inl (LeaseHeld name (word_of_int (l_epoch row)))" "others_only w w'" "txn w' = txn w"
      "fmlookup (t_leases (db w')) name = Some row" "held_at now row" "0 \<le> l_epoch row"
  | (Unknown) m where "r = Inl (Redacted m)" "others_only w w'" "txn w' = txn w"
proof -
  let ?w1 = "w\<lparr>script := tl (script w)\<rparr>"
  let ?w2 = "?w1\<lparr>script := tl (script ?w1)\<rparr>"
  let ?ctx = "WithDeadline Background (ev_clock (next_event w) + AuthoritativeReadTimeout)"
  obtain q wq where q: "run_state (pool_QueryRow ?ctx (select_lease_stmt s name)) ?w2 = (q, wq)" by (meson surj_pair)
  have oo: "others_only w x" if "others_only ?w2 x" for x
    using others_only_trans [OF others_only_tick [OF others_only_tick [OF others_only_refl]] that] by simp
  have red: "RedactedError m = Redacted m" for m by (simp add: RedactedError_def)
  from q show thesis
  proof (cases rule: select_lease_cases)
    case (Failed e)
    with assms q oo show thesis by (intro that(3)) (auto simp: resolveAcquire_def red)
  next
    case (Found row now)
    show thesis
    proof (cases "- max_int64 - 1 \<le> l_epoch row \<and> l_epoch row \<le> max_int64")
      case False
      with Found assms q oo show thesis by (intro that(3)) (auto simp: resolveAcquire_def red)
    next
      case True
      let ?ours = "l_epoch row = epoch \<and> bytes_Equal (l_holder row) (Some holder) \<and> unexpired (l_expires_at row) now"
      from assms q Found(1) True have "run_state (acquireVerdict name epoch holder (ev_clock (next_event ?w1))
          (l_epoch row, l_holder row, l_expires_at row, now)) wq = (r, w')"
        by (simp add: resolveAcquire_def)
      note run = this [unfolded acquireVerdict_def prod.case held_at_def [symmetric]]
      show thesis
      proof (cases ?ours)
        case Ours: True
        from run [unfolded if_P [OF Ours]] obtain rem h
          where n: "run_state (newLease name epoch holder rem) (wq\<lparr>script := tl (script wq)\<rparr>) = (h, w')" "r = Inr h"
          by (auto split: prod.splits)
        from n(1) obtain l where l: "idle (wq\<lparr>script := tl (script wq)\<rparr>) w'" "fmlookup (objects w') h = Some l"
            "le_name l = name" "le_epoch l = epoch" "le_holder l = holder" "\<not> le_lost l" "h |\<in>| registered w'"
          by (rule newLease_cases)
        from l(1) have i: "idle wq w'" by (rule idle_trans [OF idle_tick])
        have "others_only w w'" using oo [OF Found(3)] idle_others [OF i] by (rule others_only_trans)
        with i l n(2) Ours Found show thesis by (intro that(1) [of h l row]) (auto simp: idle_def)
      next
        case False
        note run' = run [unfolded if_not_P [OF False]]
        show thesis
        proof (cases "held_at now row \<and> 0 \<le> l_epoch row")
          case True
          with run' have "r = Inl (LeaseHeld name (word_of_int (l_epoch row)))" "w' = wq" by auto
          with True Found oo show thesis by (intro that(2) [of row now]) auto
        next
          case False
          with run' have "w' = wq" "\<exists>m. r = Inl (Redacted m)" by (auto simp: red split: if_splits)
          with Found oo show thesis by (elim exE) (rule that(3), auto)
        qed
      qed
    qed
  qed
qed

section \<open>How an acquisition can end\<close>

inductive acquire_ended ::
  "lease_store \<Rightarrow> string \<Rightarrow> bytes \<Rightarrow> 'z lease_world_scheme \<Rightarrow> nat result \<Rightarrow> 'z lease_world_scheme \<Rightarrow> bool"
  for s name token w where
  Definite: "others_only w w' \<Longrightarrow> (\<exists>m. e = Redacted m) \<or> (\<exists>x. e = CtxError x) \<Longrightarrow> acquire_ended s name token w (Inl e) w'"
| Held: "others_only w w1 \<Longrightarrow> others_only w1 w' \<Longrightarrow> fmlookup (t_leases (db w1)) name = Some row \<Longrightarrow> held_at now row \<Longrightarrow>
     acquire_ended s name token w (Inl (LeaseHeld name (word_of_int (l_epoch row)))) w'"
| Taken: "others_only w w1 \<Longrightarrow> ws \<noteq> [] \<Longrightarrow> acquire_step s name token (db w1) (apply_writes ws (db w1)) \<Longrightarrow>
     others_only (commit_ours ws w1) w' \<Longrightarrow> fmlookup (objects w') h = Some l \<Longrightarrow> le_name l = name \<Longrightarrow> le_holder l = token \<Longrightarrow>
     le_epoch l = l_epoch (lease_row_of (apply_writes ws (db w1)) name) \<Longrightarrow> \<not> le_lost l \<Longrightarrow> h |\<in>| registered w' \<Longrightarrow>
     acquire_ended s name token w (Inr h) w'"
| Reread: "leads_to w wm \<Longrightarrow> others_only w wl \<and> epoch = l_epoch (lease_row_of (db wl) name) + 1 \<Longrightarrow> our_commits w wm = [] \<or> (\<exists>d. our_commits w wm = [\<lparr>by_us = True, pre = d, post = db wm\<rparr>] \<and>
       acquire_step s name token d (db wm) \<and> epoch = l_epoch (lease_row_of (db wm) name) \<and> \<not> reliable (script w)) \<Longrightarrow>
     run_state (resolveAcquire s name epoch token) wm = (r, w1) \<Longrightarrow> w' = w1\<lparr>txn := t\<rparr> \<Longrightarrow>
     acquire_ended s name token w r w'"

lemma acquire_ended_rollback:
  assumes "acquire_ended s name token w r w'"
  shows "acquire_ended s name token w r (w'\<lparr>txn := t\<rparr>)"
  using assms
proof (cases rule: acquire_ended.cases)
  case (Reread wm wl epoch w1 t')
  then show ?thesis by (intro acquire_ended.Reread [of w wm wl epoch name s token r w1]) simp_all
qed (auto intro: acquire_ended.Definite acquire_ended.Held acquire_ended.Taken)

lemma acquire_ended_later:
  assumes "acquire_ended s name token w1 r w'" and oo: "others_only w w1"
  shows "acquire_ended s name token w r w'"
proof -
  have rel: "\<not> reliable (script w1) \<Longrightarrow> \<not> reliable (script w)"
    using oo leads_to_reliable [of w w1] by blast
  have ours: "our_commits w wm = our_commits w1 wm" if "leads_to w1 wm" for wm
    using our_commits_trans [of w w1 wm] others_only_ours [OF oo] that oo by (simp add: others_only_leads_to)
  have trans: "others_only w1 x \<Longrightarrow> others_only w x" "leads_to w1 x \<Longrightarrow> leads_to w x" for x
    using oo others_only_trans leads_to_trans by blast+
  from assms(1) show ?thesis
  proof (cases rule: acquire_ended.cases)
    case (Reread wm wl epoch w2 t)
    with rel ours [of wm] trans show ?thesis by (auto intro!: acquire_ended.Reread [of w wm wl epoch name s token r w2])
  qed (use trans in \<open>auto intro: acquire_ended.Definite acquire_ended.Held acquire_ended.Taken\<close>)
qed

lemma acquire_step_transfer:
  assumes "row = lease_row_of d0 name" "\<not> held_at checked row" "0 \<le> l_epoch row" "l_epoch row < max_int64"
    and "l_revision row \<noteq> max_int64" "same_row (LeaseRow name) d0 d" "ws0 = [] \<or> ws0 = [WLease name (Some fresh_lease_row)]"
    and "new = \<lparr>l_epoch = l_epoch row + 1, l_holder = Some token,
        l_expires_at = Some (now + Milliseconds (ls_leaseTTL s) * millisecond), l_revision = l_revision row + 1\<rparr>"
  shows "acquire_step s name token d (apply_writes (ws0 @ [WLease name (Some new)]) d)"
    and "l_epoch (lease_row_of (apply_writes (ws0 @ [WLease name (Some new)]) d) name) = l_epoch row + 1"
proof -
  have row: "lease_row_of d name = row" using assms(1,6) by (simp add: lease_row_of_def)
  have d': "apply_writes (ws0 @ [WLease name (Some new)]) d = d\<lparr>t_leases := fmupd name new (t_leases d)\<rparr>"
    using assms(7) by auto
  show "acquire_step s name token d (apply_writes (ws0 @ [WLease name (Some new)]) d)"
    unfolding acquire_step_def d' Let_def row using assms(2-5,8) by blast
  show "l_epoch (lease_row_of (apply_writes (ws0 @ [WLease name (Some new)]) d) name) = l_epoch row + 1"
    unfolding d' by (simp add: lease_row_of_def assms(8))
qed

lemma fail_acquire_ended:
  assumes "run_state (fail_acquire ctx) w = (r, w')" and "others_only w0 w"
  shows "acquire_ended s name token w0 r w'"
  using assms(1)
proof (cases rule: fail_acquire_cases)
  case (1 e)
  have "others_only w0 w'" using assms(2) idle_others [OF 1(3)] by (rule others_only_trans)
  with 1 show ?thesis by (auto simp: RedactedError_def intro: acquire_ended.Definite)
qed

lemma take_lease_sem:
  assumes "sql_sem (take_lease_stmt s name epoch holder) now d = (Inr rows, ws)" and "fmlookup (t_leases d) name = Some row"
  shows "l_revision row \<noteq> max_int64 \<and> rows = [[CTime (now + Milliseconds (ls_leaseTTL s) * millisecond), CTime now]] \<and>
    ws = [WLease name (Some \<lparr>l_epoch = epoch, l_holder = Some holder,
        l_expires_at = Some (now + Milliseconds (ls_leaseTTL s) * millisecond), l_revision = l_revision row + 1\<rparr>)]"
  using assms by (auto simp: take_lease_stmt_def Let_def split: if_splits)

text \<open>The commit of an acquisition, from the open transaction with its writes on.\<close>

lemma taken_commit_ended:
  assumes run: "run_state (do { c \<leftarrow> tx_Commit ctx;
      case c of Inl _ \<Rightarrow> resolveAcquire s name (l_epoch row + 1) holder | Inr _ \<Rightarrow> do {
        remaining \<leftarrow> conservativeRemaining started expiresAt databaseNow;
        h \<leftarrow> newLease name (l_epoch row + 1) holder remaining;
        State_Monad.return (Inr h) } }) wu = (r, w')"
    and wk: "weak ws ks wu" and ws: "ws \<noteq> []" and ou: "others_only w wu" and row: "row = lease_row_of (db w) name"
    and step: "\<And>d. \<forall>k \<in> ks. same_row k (db wu) d \<Longrightarrow> acquire_step s name holder d (apply_writes ws d) \<and>
      l_epoch (lease_row_of (apply_writes ws d) name) = l_epoch row + 1"
  shows "acquire_ended s name holder w r w'"
proof -
  obtain c wc where c: "run_state (tx_Commit ctx) wu = (c, wc)" by (meson surj_pair)
  from c wk show ?thesis
  proof (cases rule: weak_Commit_cases)
    case (Failed x)
    have "others_only w wc" using ou Failed(2) by (rule others_only_trans)
    moreover have "run_state (resolveAcquire s name (l_epoch row + 1) holder) wc = (r, w')" using run c Failed(1) by simp
    ultimately show ?thesis
      by (intro acquire_ended.Reread [of w wc w "l_epoch row + 1" name s holder r w' _ "txn w'"])
        (auto simp: others_only_ours row)
  next
    case (Committed w1)
    have o1: "others_only w w1" using ou Committed(1) by (rule others_only_trans)
    note st = step [OF Committed(4)]
    show ?thesis
    proof (cases c)
      case (Inr x)
      with run c obtain rem h where n: "run_state (newLease name (l_epoch row + 1) holder rem) (wc\<lparr>script := tl (script wc)\<rparr>) = (h, w')"
          "r = Inr h"
        by (auto split: prod.splits)
      from n(1) obtain l where l: "idle (wc\<lparr>script := tl (script wc)\<rparr>) w'" "fmlookup (objects w') h = Some l"
          "le_name l = name" "le_epoch l = l_epoch row + 1" "le_holder l = holder" "\<not> le_lost l" "h |\<in>| registered w'"
        by (rule newLease_cases)
      have "others_only (commit_ours ws w1) w'"
        using idle_others [OF idle_trans [OF idle_tick l(1)]] Committed(2) by simp
      from acquire_ended.Taken [OF o1 ws conjunct1 [OF st] this l(2,3,5) _ l(6,7)] l(4) st
      show ?thesis unfolding n(2) by simp
    next
      case (Inl e)
      with Committed have "ev_fault (next_event wu) = AckLost" by auto
      then have "\<not> reliable (script w)"
        using ou leads_to_reliable [of w wu] reliable_next [of wu] by blast
      moreover have "our_commits w wc = [\<lparr>by_us = True, pre = db w1, post = db wc\<rparr>]"
        using our_commits_direct [OF o1, of ws] Committed(2) ws by simp
      moreover have "leads_to w wc" using o1 Committed(2) by (auto intro: leads_to_trans)
      moreover have "run_state (resolveAcquire s name (l_epoch row + 1) holder) wc = (r, w')" using run c Inl by simp
      ultimately show ?thesis using st Committed(2) row
        by (intro acquire_ended.Reread [of w wc w "l_epoch row + 1" name s holder r w' _ "txn w'"]) auto
    qed
  qed
qed

lemma takeLease_ended:
  assumes run: "run_state (takeLease s ctx name (l_epoch row + 1) holder) w = (r, w')"
    and wk: "weak ws0 ks w" and key: "LeaseRow name \<in> ks"
    and ws0: "ws0 = [] \<or> ws0 = [WLease name (Some fresh_lease_row)]"
    and row: "row = lease_row_of (db w) name" "fmlookup (t_leases (apply_writes ws0 (db w))) name = Some row"
    and free: "\<not> held_at checked row" "0 \<le> l_epoch row" "l_epoch row < max_int64"
  shows "acquire_ended s name holder w r w'"
proof -
  let ?wn = "w\<lparr>script := tl (script w)\<rparr>"
  have wkn: "weak ws0 ks ?wn" using wk by (simp add: weak_def)
  have on: "others_only w ?wn" by (rule others_only_tick) simp
  obtain u wu where u: "run_state (tx_QueryRow ctx (take_lease_stmt s name (l_epoch row + 1) holder)) ?wn = (u, wu)"
    by (meson surj_pair)
  from u wkn lease_answers(3) show ?thesis
  proof (cases rule: weak_QueryRow_cases)
    case (Failed e)
    then have "others_only w wu" using on by (blast intro: others_only_trans)
    with run u Failed show ?thesis by (auto simp: takeLease_def intro: fail_acquire_ended)
  next
    case (Done now rows ws)
    have ou: "others_only w wu" using on Done(2) by (rule others_only_trans)
    have same: "same_row (LeaseRow name) (db w) (db wu)" using bspec [OF Done(3) key] by simp
    have "fmlookup (t_leases (apply_writes ws0 (db wu))) name = Some row"
      using row(2) same ws0 by auto
    note t = take_lease_sem [OF Done(4) this]
    define new where "new = \<lparr>l_epoch = l_epoch row + 1, l_holder = Some holder,
        l_expires_at = Some (now + Milliseconds (ls_leaseTTL s) * millisecond), l_revision = l_revision row + 1\<rparr>"
    have ws: "ws = [WLease name (Some new)]" using t by (simp add: new_def)
    show ?thesis
    proof (rule taken_commit_ended [OF _ Done(5) _ ou row(1)])
      show "run_state (do { c \<leftarrow> tx_Commit ctx;
          case c of Inl _ \<Rightarrow> resolveAcquire s name (l_epoch row + 1) holder | Inr _ \<Rightarrow> do {
            remaining \<leftarrow> conservativeRemaining (ev_clock (next_event w)) (now + Milliseconds (ls_leaseTTL s) * millisecond) now;
            h \<leftarrow> newLease name (l_epoch row + 1) holder remaining;
            State_Monad.return (Inr h) } }) wu = (r, w')"
        using run u Done(1) t by (simp add: takeLease_def)
      fix d
      assume "\<forall>k \<in> ks \<union> set (new_locks (take_lease_stmt s name (l_epoch row + 1) holder) (apply_writes ws0 (db wu)) ws). same_row k (db wu) d"
      with key have "same_row (LeaseRow name) (db wu) d" by blast
      with same have "same_row (LeaseRow name) (db w) d" by simp
      from acquire_step_transfer [OF row(1) free conjunct1 [OF t] this ws0 new_def]
      show "acquire_step s name holder d (apply_writes (ws0 @ ws) d) \<and>
          l_epoch (lease_row_of (apply_writes (ws0 @ ws) d) name) = l_epoch row + 1" unfolding ws by simp
    qed (simp add: ws)
  qed
qed

lemma ensure_lease_sem:
  "sql_sem (ensure_lease_stmt s name) now d = (Inr rows, ws) \<Longrightarrow>
   (ws = [] \<and> name |\<in>| fmdom (t_leases d)) \<or> (ws = [WLease name (Some fresh_lease_row)] \<and> fmlookup (t_leases d) name = None)"
  by (auto simp: ensure_lease_stmt_def fresh_lease_row_def fmlookup_dom_iff split: option.splits)

lemma lock_lease_sem:
  assumes "sql_sem (lock_lease_stmt s name) now d = (Inr rows, ws)"
  shows "ws = [] \<and> (rows = [] \<or> (\<exists>row. fmlookup (t_leases d) name = Some row \<and> rows = [lease_columns now row] \<and>
     LeaseRow name \<in> set (new_locks (lock_lease_stmt s name) d ws)))"
  using assms by (auto simp: lock_lease_stmt_def new_locks_def fmlookup_dom_iff split: option.splits)

text \<open>The part after the row was locked.\<close>

lemma locked_ended:
  assumes run: "run_state (case scanned lease_scan (Inr (lease_columns now row)) of Inl _ \<Rightarrow> fail_acquire ctx
     | Inr (epoch, currentHolder, expiresAt, databaseNow) \<Rightarrow>
     if epoch < 0 then State_Monad.return (Inl (RedactedError ''lease epoch invalid''))
     else if currentHolder \<noteq> None \<and> unexpired expiresAt databaseNow
     then State_Monad.return (Inl (LeaseHeld name (word_of_int epoch)))
     else if epoch = max_int64 then State_Monad.return (Inl (RedactedError ''lease epoch exhausted''))
     else takeLease s ctx name (epoch + 1) holder) w = (r, w')"
    and wk: "weak ws0 ks w" and key: "LeaseRow name \<in> ks"
    and ws0: "ws0 = [] \<and> fmlookup (t_leases (db w)) name = Some row \<or>
      ws0 = [WLease name (Some fresh_lease_row)] \<and> fmlookup (t_leases (db w)) name = None \<and> row = fresh_lease_row"
  shows "acquire_ended s name holder w r w'"
proof (cases "- max_int64 - 1 \<le> l_epoch row \<and> l_epoch row \<le> max_int64")
  case False
  with run have "run_state (fail_acquire ctx) w = (r, w')" by (auto split: if_splits)
  then show ?thesis by (rule fail_acquire_ended) simp
next
  case True
  note run' = run [simplified scanned_simps lease_scan_columns if_P [OF True] sum.case prod.case held_at_def [symmetric]]
  consider (Bad) "l_epoch row < 0 \<or> \<not> held_at now row \<and> l_epoch row = max_int64"
    | (Held) "\<not> l_epoch row < 0" "held_at now row"
    | (Free) "\<not> l_epoch row < 0" "\<not> held_at now row" "l_epoch row \<noteq> max_int64"
    by blast
  then show ?thesis
  proof cases
    case Bad
    with run' have "w' = w" "\<exists>m. r = Inl (Redacted m)" by (auto simp: RedactedError_def split: if_splits)
    then show ?thesis by (auto intro: acquire_ended.Definite)
  next
    case Held
    with run' have "w' = w" "r = Inl (LeaseHeld name (word_of_int (l_epoch row)))" by auto
    moreover have "fmlookup (t_leases (db w)) name = Some row"
      using ws0 Held by (auto simp: held_at_def fresh_lease_row_def)
    ultimately show ?thesis using Held by (auto intro: acquire_ended.Held)
  next
    case Free
    with run' have "run_state (takeLease s ctx name (l_epoch row + 1) holder) w = (r, w')" by simp
    then show ?thesis
      by (rule takeLease_ended [OF _ wk key]) (use ws0 Free True in \<open>auto simp: lease_row_of_def\<close>)
  qed
qed

lemma ensured_ended:
  assumes run: "run_state (do { q \<leftarrow> tx_QueryRow ctx (lock_lease_stmt s name); case scanned lease_scan q of Inl _ \<Rightarrow> fail_acquire ctx
     | Inr (epoch, currentHolder, expiresAt, databaseNow) \<Rightarrow>
     if epoch < 0 then State_Monad.return (Inl (RedactedError ''lease epoch invalid''))
     else if currentHolder \<noteq> None \<and> unexpired expiresAt databaseNow
     then State_Monad.return (Inl (LeaseHeld name (word_of_int epoch)))
     else if epoch = max_int64 then State_Monad.return (Inl (RedactedError ''lease epoch exhausted''))
     else takeLease s ctx name (epoch + 1) holder }) w = (r, w')"
    and wk: "weak ws ks w" "ws \<noteq> [] \<longrightarrow> LeaseRow name \<in> ks"
    and ws: "ws = [] \<or> ws = [WLease name (Some fresh_lease_row)] \<and> fmlookup (t_leases (db w)) name = None"
  shows "acquire_ended s name holder w r w'"
proof -
  obtain q wq where q: "run_state (tx_QueryRow ctx (lock_lease_stmt s name)) w = (q, wq)" by (meson surj_pair)
  from q wk(1) lease_answers(2) show ?thesis
  proof (cases rule: weak_QueryRow_cases)
    case (Failed e)
    with run q show ?thesis by (auto intro: fail_acquire_ended)
  next
    case (Done now rows ws')
    from lock_lease_sem [OF Done(4)] consider (Absent) "rows = []"
      | (Found) row where "ws' = []" "fmlookup (t_leases (apply_writes ws (db wq))) name = Some row" "rows = [lease_columns now row]"
          "LeaseRow name \<in> set (new_locks (lock_lease_stmt s name) (apply_writes ws (db wq)) ws')"
      by blast
    then show ?thesis
    proof cases
      case Absent
      with run q Done(1,2) show ?thesis by (auto intro: fail_acquire_ended)
    next
      case Found
      have row: "ws = [] \<and> fmlookup (t_leases (db wq)) name = Some row \<or>
          ws = [WLease name (Some fresh_lease_row)] \<and> fmlookup (t_leases (db wq)) name = None \<and> row = fresh_lease_row"
        using ws
      proof
        assume a: "ws = [WLease name (Some fresh_lease_row)] \<and> fmlookup (t_leases (db w)) name = None"
        with wk(2) Done(3) have "same_row (LeaseRow name) (db w) (db wq)" by blast
        with a Found(2) show ?thesis by auto
      qed (use Found(2) in simp)
      have wkq: "weak ws (ks \<union> set (new_locks (lock_lease_stmt s name) (apply_writes ws (db wq)) ws')) wq"
        using Done(5) Found(1) by simp
      have "run_state (case scanned lease_scan (Inr (lease_columns now row)) of Inl _ \<Rightarrow> fail_acquire ctx
     | Inr (epoch, currentHolder, expiresAt, databaseNow) \<Rightarrow>
     if epoch < 0 then State_Monad.return (Inl (RedactedError ''lease epoch invalid''))
     else if currentHolder \<noteq> None \<and> unexpired expiresAt databaseNow
     then State_Monad.return (Inl (LeaseHeld name (word_of_int epoch)))
     else if epoch = max_int64 then State_Monad.return (Inl (RedactedError ''lease epoch exhausted''))
     else takeLease s ctx name (epoch + 1) holder) wq = (r, w')"
        using run q Done(1) Found(3) by simp
      then have "acquire_ended s name holder wq r w'"
        by (rule locked_ended [OF _ wkq _ row]) (use Found(4) in simp)
      then show ?thesis using Done(2) by (rule acquire_ended_later)
    qed
  qed
qed

lemma acquireTx_ended:
  assumes run: "run_state (acquireTx s ctx name holder) w = (r, w')" and "begun ReadCommitted w"
  shows "acquire_ended s name holder w r w'"
proof -
  have wk: "weak [] {} w" using assms(2) by (rule begun_weak)
  obtain t wt where t: "run_state (SetLocalTimeouts ctx (ls_statementTimeout s) (ls_lockTimeout s)) w = (t, wt)"
    by (meson surj_pair)
  from t wk show ?thesis
  proof (cases rule: weak_timeouts_cases)
    case (Failed e)
    with run t show ?thesis by (auto simp: acquireTx_def intro: fail_acquire_ended)
  next
    case Done
    obtain i wi where i: "run_state (tx_Exec ctx (ensure_lease_stmt s name)) wt = (i, wi)" by (meson surj_pair)
    from i Done(4) lease_answers(1) show ?thesis
    proof (cases rule: weak_Exec_cases)
      case (Failed e)
      with Done(2) have "others_only w wi" by (blast intro: others_only_trans)
      with run t Done i Failed show ?thesis by (auto simp: acquireTx_def intro: fail_acquire_ended)
    next
      case ensured: (Done now rows ws)
      have "acquire_ended s name holder wi r w'"
      proof (rule ensured_ended)
        show "run_state (do { q \<leftarrow> tx_QueryRow ctx (lock_lease_stmt s name); case scanned lease_scan q of Inl _ \<Rightarrow> fail_acquire ctx
     | Inr (epoch, currentHolder, expiresAt, databaseNow) \<Rightarrow>
     if epoch < 0 then State_Monad.return (Inl (RedactedError ''lease epoch invalid''))
     else if currentHolder \<noteq> None \<and> unexpired expiresAt databaseNow
     then State_Monad.return (Inl (LeaseHeld name (word_of_int epoch)))
     else if epoch = max_int64 then State_Monad.return (Inl (RedactedError ''lease epoch exhausted''))
     else takeLease s ctx name (epoch + 1) holder }) wi = (r, w')"
          using run t Done(1) i ensured(1) by (simp add: acquireTx_def)
      qed (use ensured(5) ensure_lease_sem [OF ensured(4)] in \<open>auto simp: new_locks_def\<close>)
      moreover have "others_only w wi" using Done(2) ensured(2) by (rule others_only_trans)
      ultimately show ?thesis by (rule acquire_ended_later)
    qed
  qed
qed

lemma lease_Acquire_cases:
  assumes "run_state (lease_Acquire vn s token c name) w = (r, w')" and none: "txn w = None"
  obtains (Refused) e where "r = Inl e" "others_only w w'" "txn w' = None" "e \<noteq> LeaseHeld name n \<or> vn name = Some e"
  | (Ended) holder where "token = Some holder" "vn name = None" "acquire_ended s name holder w r w'" "txn w' = None"
  using assms(1) [unfolded lease_Acquire_def]
proof (cases rule: after_Bound)
  case Refused
  with none show thesis by (intro that(1)) auto
next
  case (Bounded ctx w0)
  show thesis
  proof (cases "vn name")
    case (Some e)
    with Bounded none show thesis by (intro that(1) [of e]) auto
  next
    case vn: None
    show thesis
    proof (cases token)
      case None
      with vn Bounded none show thesis by (intro that(1)) (auto simp: RedactedError_def)
    next
      case (Some holder)
      obtain b wb where b: "run_state (BeginTx ctx ReadCommitted) w0 = (b, wb)" by (meson surj_pair)
      have none0: "txn w0 = None" using Bounded(3) none by simp
      from b none0 show thesis
      proof (cases rule: begin_cases)
        case (Failed e)
        with Bounded(4) vn Some b have f: "run_state (fail_acquire ctx) wb = (r, w')" by simp
        have "others_only w wb" using Bounded(2) Failed(3) by (rule others_only_trans)
        with f have "acquire_ended s name holder w r w'" by (rule fail_acquire_ended)
        moreover from f have "txn w' = None" using Failed(4) by (elim fail_acquire_cases) (auto simp: idle_def)
        ultimately show thesis using Some vn by (intro that(2)) auto
      next
        case Begun
        obtain wa where a: "run_state (acquireTx s ctx name holder) wb = (r, wa)" "w' = wa\<lparr>txn := None\<rparr>"
          using Bounded(4) vn Some b Begun(1) by (auto split: prod.splits)
        have "others_only w wb" using Bounded(2) Begun(2) by (rule others_only_trans)
        with acquireTx_ended [OF a(1) Begun(3)] have "acquire_ended s name holder w r wa" by (rule acquire_ended_later)
        then show thesis using a(2) Some vn by (intro that(2)) (auto intro: acquire_ended_rollback)
      qed
    qed
  qed
qed

lemma acquire_ended_commits:
  assumes "acquire_ended s name token w r w'"
  shows "leads_to w w' \<and> (our_commits w w' = [] \<or> (\<exists>d d'. our_commits w w' = [\<lparr>by_us = True, pre = d, post = d'\<rparr>] \<and>
       acquire_step s name token d d' \<and> ((\<exists>h. r = Inr h) \<or> \<not> reliable (script w))))"
  using assms
proof (cases rule: acquire_ended.cases)
  case (Held w1 row now)
  then have "others_only w w'" by (blast intro: others_only_trans)
  then show ?thesis by (auto simp: others_only_ours)
next
  case (Taken w1 ws h l)
  have l1: "leads_to w (commit_ours ws w1)" using Taken by (auto intro: leads_to_trans)
  have l2: "leads_to (commit_ours ws w1) w'" using Taken by auto
  have "our_commits w w' = our_commits w (commit_ours ws w1)"
    using our_commits_trans [OF l1 l2] others_only_ours Taken by auto
  then show ?thesis using our_commits_direct [of w w1 ws] Taken leads_to_trans [OF l1 l2] by auto
next
  case (Reread wm wl epoch w1 t)
  from Reread(4) have "others_only wm w1" by (cases rule: resolveAcquire_cases) auto
  then have "our_commits w w' = our_commits w wm" "leads_to w w'"
    using our_commits_trans [of w wm w1] others_only_ours [of wm w1] Reread(1,5)
    by (auto simp: others_only_leads_to intro: leads_to_trans)
  with Reread show ?thesis by auto
qed (auto simp: others_only_ours)



text \<open>
  \<open>Acquire\<close> reports that the lease is held only with the epoch of a row that, in some
  committed state during the call, had a holder and had not expired by the database clock.
\<close>

theorem lease_Acquire_held:
  assumes "run_state (lease_Acquire vn s token c name) w = (Inl (LeaseHeld name n), w')" and "txn w = None"
    and "vn name = None"
  shows "\<exists>d \<in> set (states w w'). \<exists>row now. fmlookup (t_leases d) name = Some row \<and> held_at now row \<and> n = word_of_int (l_epoch row)"
  using assms(1,2)
proof (cases rule: lease_Acquire_cases [where n = n])
  case (Refused e)
  with assms(3) show ?thesis by auto
next
  case (Ended holder)
  from Ended(3) show ?thesis
  proof (cases rule: acquire_ended.cases)
    case (Held w1 row now)
    then show ?thesis using state_between [of w w1 w'] by blast
  next
    case (Reread wm wl epoch w1 t)
    from Reread(4) show ?thesis
    proof (cases rule: resolveAcquire_cases)
      case (Held row now)
      with Reread final_state [of w' w] show ?thesis by auto
    qed auto
  qed auto
qed

section \<open>Renewal and release\<close>

lemma renew_lease_sem:
  assumes "sql_sem (renew_lease_stmt s name epoch holder) now d = (Inr rows, ws)"
  shows "(ws = [] \<and> rows = []) \<or> (\<exists>row new. ws = [WLease name (Some new)] \<and> fmlookup (t_leases d) name = Some row \<and>
    l_epoch row = epoch \<and> l_holder row = Some holder \<and> unexpired (l_expires_at row) now \<and> l_revision row \<noteq> max_int64 \<and>
    new = row\<lparr>l_expires_at := Some (now + Milliseconds (ls_leaseTTL s) * millisecond), l_revision := l_revision row + 1\<rparr>)"
  using assms unfolding renew_lease_stmt_def
  by (auto simp: set_option_unexpired Let_def split: option.splits if_splits)

lemma release_lease_sem:
  assumes "sql_sem (release_lease_stmt s name epoch holder) now d = (Inr rows, ws)"
  shows "ws = [] \<or> (\<exists>row new. ws = [WLease name (Some new)] \<and> fmlookup (t_leases d) name = Some row \<and>
    l_epoch row = epoch \<and> l_holder row = Some holder \<and> l_revision row \<noteq> max_int64 \<and>
    new = row\<lparr>l_holder := None, l_expires_at := None, l_revision := l_revision row + 1\<rparr>)"
  using assms by (auto simp: release_lease_stmt_def split: option.splits if_splits)

lemma renew_step_transfer:
  assumes "fmlookup (t_leases d0) name = Some row" "l_epoch row = epoch" "l_holder row = Some holder"
    and "unexpired (l_expires_at row) now" "l_revision row \<noteq> max_int64"
    and "new = row\<lparr>l_expires_at := Some (now + Milliseconds (ls_leaseTTL s) * millisecond), l_revision := l_revision row + 1\<rparr>"
    and "same_row (LeaseRow name) d0 d"
  shows "renew_step s name epoch holder d (apply_writes [WLease name (Some new)] d)"
  unfolding renew_step_def
  by (intro exI [of _ row] exI [of _ now]) (use assms in simp)

lemma release_step_transfer:
  assumes "fmlookup (t_leases d0) name = Some row" "l_epoch row = epoch" "l_holder row = Some holder"
    and "l_revision row \<noteq> max_int64"
    and "new = row\<lparr>l_holder := None, l_expires_at := None, l_revision := l_revision row + 1\<rparr>"
    and "same_row (LeaseRow name) d0 d"
  shows "release_step name epoch holder d (apply_writes [WLease name (Some new)] d)"
  unfolding release_step_def
  by (intro exI [of _ row]) (use assms in simp)

text \<open>A transaction that writes one row and commits: what reached the database.\<close>

definition one_step :: "(database \<Rightarrow> database \<Rightarrow> bool) \<Rightarrow> 'z world_scheme \<Rightarrow> 'z world_scheme \<Rightarrow> bool" where
  "one_step R w w' \<longleftrightarrow> others_only w w' \<or>
     (\<exists>w1 ws. others_only w w1 \<and> ws \<noteq> [] \<and> R (db w1) (apply_writes ws (db w1)) \<and> others_only (commit_ours ws w1) w')"

lemma one_step_others: "others_only w w' \<Longrightarrow> one_step R w w'"
  by (simp add: one_step_def)

lemma one_step_before: "others_only w w1 \<Longrightarrow> one_step R w1 w' \<Longrightarrow> one_step R w w'"
  unfolding one_step_def by (meson others_only_trans)

lemma one_step_after: "one_step R w w1 \<Longrightarrow> others_only w1 w' \<Longrightarrow> one_step R w w'"
  unfolding one_step_def by (meson others_only_trans)

lemma one_step_evolves:
  assumes "one_step R w w'"
  shows "\<exists>cs. evolves cs w w' \<and> (\<forall>c \<in> set cs. by_us c \<longrightarrow> R (pre c) (post c))"
  using assms unfolding one_step_def
proof (elim disjE exE conjE)
  assume "others_only w w'"
  then show ?thesis by (auto simp: others_only_def)
next
  fix w1 ws
  assume a: "others_only w w1" "ws \<noteq> []" "R (db w1) (apply_writes ws (db w1))" "others_only (commit_ours ws w1) w'"
  then obtain cs cs' where cs: "evolves cs w w1" "\<forall>c \<in> set cs. \<not> by_us c" "evolves cs' (commit_ours ws w1) w'" "\<forall>c \<in> set cs'. \<not> by_us c"
    by (auto simp: others_only_def)
  have "evolves (cs' @ [\<lparr>by_us = True, pre = db w1, post = apply_writes ws (db w1)\<rparr>] @ cs) w w'"
    using evolves_trans [OF evolves_trans [OF cs(1) evolves_commit_ours] cs(3)] a(2) by simp
  with cs a(3) show ?thesis by (intro exI) (auto)
qed

lemma one_step_commit:
  assumes run: "run_state (tx_Commit ctx) w = (c, w')" and wk: "weak ws ks w"
    and step: "\<And>d. ws \<noteq> [] \<Longrightarrow> (\<forall>k \<in> ks. same_row k (db w) d) \<Longrightarrow> R d (apply_writes ws d)"
  shows "one_step R w w' \<and> txn w' = None"
  using run wk
proof (cases rule: weak_Commit_cases)
  case (Failed x)
  then show ?thesis by (simp add: one_step_others)
next
  case (Committed w1)
  with step [of "db w1"] show ?thesis
    by (cases "ws = []") (auto simp: one_step_def intro!: exI [of _ w1] exI [of _ ws])
qed

lemma renewTx_steps:
  assumes run: "run_state (renewTx s ctx l) w = (r, w')" and "begun ReadCommitted w"
  shows "one_step (renew_step s (le_name l) (le_epoch l) (le_holder l)) w w'"
  using run [unfolded renewTx_def]
proof (cases rule: try_cases)
  case (Error e)
  from Error(1) begun_weak [OF assms(2)] show ?thesis
    by (cases rule: weak_timeouts_cases) (auto simp: Error(2) one_step_others)
next
  case (Ok x wt)
  let ?st = "renew_lease_stmt s (le_name l) (le_epoch l) (le_holder l)"
  let ?wn = "wt\<lparr>script := tl (script wt)\<rparr>"
  from Ok(1) begun_weak [OF assms(2)] have t: "others_only w wt" "weak [] {} wt"
    by (cases rule: weak_timeouts_cases; simp)+
  have on: "others_only w ?wn" using t(1) by (rule others_only_tick)
  have wkn: "weak [] {} ?wn" using t(2) by (simp add: weak_def)
  obtain u wu where u: "run_state (tx_QueryRow ctx ?st) ?wn = (u, wu)" by (meson surj_pair)
  from u wkn lease_answers(4) show ?thesis
  proof (cases rule: weak_QueryRow_cases)
    case (Failed e)
    with Ok(2) u on show ?thesis by (auto intro: one_step_others others_only_trans)
  next
    case (Done now rows ws)
    have ou: "others_only w wu" using on Done(2) by (rule others_only_trans)
    show ?thesis
    proof (cases "scanned expiry_scan u")
      case (Inl e)
      with Ok(2) u ou show ?thesis by (auto intro: one_step_others)
    next
      case (Inr p)
      obtain c wc where c: "run_state (tx_Commit ctx) wu = (c, wc)" by (meson surj_pair)
      have "others_only wc w'"
        using Ok(2) u Inr c by (cases p; cases c) auto
      moreover have "one_step (renew_step s (le_name l) (le_epoch l) (le_holder l)) wu wc \<and> txn wc = None"
      proof (rule one_step_commit [OF c Done(5)])
        fix d
        assume "[] @ ws \<noteq> []" and same: "\<forall>k \<in> {} \<union> set (new_locks ?st (apply_writes [] (db wu)) ws). same_row k (db wu) d"
        with renew_lease_sem [OF Done(4)] obtain row new where n: "ws = [WLease (le_name l) (Some new)]"
          "fmlookup (t_leases (db wu)) (le_name l) = Some row" "l_epoch row = le_epoch l" "l_holder row = Some (le_holder l)"
          "unexpired (l_expires_at row) now" "l_revision row \<noteq> max_int64"
          "new = row\<lparr>l_expires_at := Some (now + Milliseconds (ls_leaseTTL s) * millisecond), l_revision := l_revision row + 1\<rparr>"
          by auto
        then have "same_row (LeaseRow (le_name l)) (db wu) d" using same by (simp add: new_locks_def)
        with n show "renew_step s (le_name l) (le_epoch l) (le_holder l) d (apply_writes ([] @ ws) d)"
          using renew_step_transfer [OF n(2-7)] by simp
      qed
      ultimately show ?thesis using ou by (blast intro: one_step_before one_step_after)
    qed
  qed
qed

lemma releaseTx_steps:
  assumes run: "run_state (releaseTx s ctx l) w = (r, w')" and "begun ReadCommitted w"
  shows "one_step (release_step (le_name l) (le_epoch l) (le_holder l)) w w'"
  using run [unfolded releaseTx_def]
proof (cases rule: try_cases)
  case (Error e)
  from Error(1) begun_weak [OF assms(2)] show ?thesis
    by (cases rule: weak_timeouts_cases) (auto simp: Error(2) one_step_others)
next
  case (Ok x wt)
  let ?st = "release_lease_stmt s (le_name l) (le_epoch l) (le_holder l)"
  from Ok(1) begun_weak [OF assms(2)] have t: "others_only w wt" "weak [] {} wt"
    by (cases rule: weak_timeouts_cases; simp)+
  from Ok(2) show ?thesis
  proof (cases rule: try_cases)
    case (Error e)
    from Error(1) t(2) lease_answers(5) show ?thesis
      by (cases rule: weak_Exec_cases) (use t(1) Error(2) in \<open>auto intro: one_step_others others_only_trans\<close>)
  next
    case (Ok y wu)
    from Ok(1) t(2) lease_answers(5) obtain now rows ws where u: "others_only wt wu"
        "sql_sem ?st now (apply_writes [] (db wu)) = (Inr rows, ws)"
        "weak ([] @ ws) ({} \<union> set (new_locks ?st (apply_writes [] (db wu)) ws)) wu"
      by (cases rule: weak_Exec_cases) auto
    have "one_step (release_step (le_name l) (le_epoch l) (le_holder l)) wu w' \<and> txn w' = None"
    proof (rule one_step_commit [OF Ok(2) u(3)])
      fix d
      assume "[] @ ws \<noteq> []" and same: "\<forall>k \<in> {} \<union> set (new_locks ?st (apply_writes [] (db wu)) ws). same_row k (db wu) d"
      with release_lease_sem [OF u(2)] obtain row new where n: "ws = [WLease (le_name l) (Some new)]"
        "fmlookup (t_leases (db wu)) (le_name l) = Some row" "l_epoch row = le_epoch l" "l_holder row = Some (le_holder l)"
        "l_revision row \<noteq> max_int64" "new = row\<lparr>l_holder := None, l_expires_at := None, l_revision := l_revision row + 1\<rparr>"
        by auto
      then have "same_row (LeaseRow (le_name l)) (db wu) d" using same by (simp add: new_locks_def)
      with n show "release_step (le_name l) (le_epoch l) (le_holder l) d (apply_writes ([] @ ws) d)"
        using release_step_transfer [OF n(2-6)] by simp
    qed
    then show ?thesis using t(1) u(1) by (blast intro: one_step_before)
  qed
qed

lemma guarantees_in_tx:
  assumes "\<And>w r w'. run_state m w = (r, w') \<Longrightarrow> begun lvl w \<Longrightarrow> one_step R w w'"
  shows "guarantees R (do { b \<leftarrow> BeginTx ctx lvl; case b of Inl e \<Rightarrow> State_Monad.return (Inl e) | Inr _ \<Rightarrow> do {
     r \<leftarrow> m; Rollback; State_Monad.return r } })"
proof (rule guaranteesI)
  fix w :: "'a world_scheme" and r w'
  assume run: "run_state (do { b \<leftarrow> BeginTx ctx lvl; case b of Inl e \<Rightarrow> State_Monad.return (Inl e) | Inr _ \<Rightarrow> do {
     r \<leftarrow> m; Rollback; State_Monad.return r } }) w = (r, w')" and none: "txn w = None"
  from run show "txn w' = None \<and> (\<exists>cs. evolves cs w w' \<and> (\<forall>c \<in> set cs. by_us c \<longrightarrow> R (pre c) (post c)))"
  proof (cases rule: try_cases)
    case (Error e)
    from Error(1) none show ?thesis
      by (cases rule: begin_cases) (auto intro: one_step_evolves one_step_others)
  next
    case (Ok x wb)
    from Ok(1) none have b: "others_only w wb" "begun lvl wb" by (cases rule: begin_cases; simp)+
    obtain wt where t: "run_state m wb = (r, wt)" "w' = wt\<lparr>txn := None\<rparr>"
      using Ok(2) by (auto split: prod.splits)
    have "one_step R wb wt" using t(1) b(2) by (rule assms)
    then have "one_step R w w'" using b(1) t(2) by (auto intro: one_step_before one_step_after)
    then show ?thesis using t(2) one_step_evolves by auto
  qed
qed

lemma guarantees_renewRow [guarantee_intros]:
  "guarantees (renew_step s (le_name l) (le_epoch l) (le_holder l)) (renewRow s ctx l)"
  unfolding renewRow_def by (rule guarantees_in_tx) (rule renewTx_steps)

lemma guarantees_releaseRow [guarantee_intros]:
  "guarantees (release_step (le_name l) (le_epoch l) (le_holder l)) (releaseRow s ctx l)"
  unfolding releaseRow_def by (rule guarantees_in_tx) (rule releaseTx_steps)

text \<open>Every step any lease operation makes.\<close>

definition lease_step :: "database \<Rightarrow> database \<Rightarrow> bool" where
  "lease_step d d' \<longleftrightarrow> (\<exists>s name token. acquire_step s name token d d') \<or>
     (\<exists>s name epoch holder. renew_step s name epoch holder d d') \<or> (\<exists>name epoch holder. release_step name epoch holder d d')"

lemma guarantees_idle: "(\<And>w. idle w (snd (run_state m w))) \<Longrightarrow> guarantees R m"
  by (rule guaranteesI_others) (metis idle_def idle_others snd_conv)

lemma guarantees_memory [guarantee_intros]:
  "guarantees R (get_lease h)" "guarantees R (update_lease h f)" "guarantees R (lease_register h)"
  "guarantees R (lease_unregister h)" "guarantees R (alloc_lease l)"
  by (rule guarantees_idle; simp)+

lemma guarantees_select_lease [guarantee_intros]: "guarantees R (pool_QueryRow ctx (select_lease_stmt s name))"
  by (rule guarantees_pool_calls) (auto simp: select_lease_stmt_def)

lemma guarantees_lease_steps [guarantee_intros]:
  "guarantees lease_step (renewRow s ctx l)" "guarantees lease_step (releaseRow s ctx l)"
  by (rule guarantees_mono [OF guarantees_renewRow] guarantees_mono [OF guarantees_releaseRow];
      auto simp: lease_step_def)+

lemma guarantees_lease_parts [guarantee_intros]:
  "guarantees R (conservativeRemaining a b c)" "guarantees R (loop_exit h)" "guarantees R (lose_and_exit h)"
  "guarantees R (observe s ctx l)" "guarantees R (resolveRelease s l)" "guarantees R (renew_check h)"
  unfolding conservativeRemaining_def loop_exit_def lose_and_exit_def observe_def resolveRelease_def renew_check_def
  by (intro guarantee_intros)+

lemma guarantees_renew_apply [guarantee_intros]: "guarantees R (renew_apply h r)"
  unfolding renew_apply_def by (intro guarantee_intros)

lemma guarantees_renew_select [guarantee_intros]: "guarantees R (renew_select h k t)"
  unfolding renew_select_def by (cases k) (simp_all, (intro guarantee_intros)+)


lemma lease_Acquire_step: "guarantees (\<lambda>d d'. \<exists>holder. acquire_step s name holder d d') (lease_Acquire vn s token c name)"
proof (rule guaranteesI)
  fix w :: "'a lease_world_scheme" and r w'
  assume "run_state (lease_Acquire vn s token c name) w = (r, w')" and "txn w = None"
  then show "txn w' = None \<and> (\<exists>cs. evolves cs w w' \<and>
      (\<forall>x \<in> set cs. by_us x \<longrightarrow> (\<exists>holder. acquire_step s name holder (pre x) (post x))))"
  proof (cases rule: lease_Acquire_cases [where n = 0])
    case (Refused e)
    then show ?thesis by (auto intro: one_step_evolves one_step_others)
  next
    case (Ended holder)
    with acquire_ended_commits [OF Ended(3)] show ?thesis
      by (intro conjI our_commits_evolve) auto
  qed
qed

lemma lease_Acquire_guarantees: "guarantees lease_step (lease_Acquire vn s token c name)"
  by (rule guarantees_mono [OF lease_Acquire_step]) (auto simp: lease_step_def)

section \<open>Fencing\<close>

definition lease_epoch :: "string \<Rightarrow> database \<Rightarrow> int" where
  "lease_epoch name d = l_epoch (lease_row_of d name)"

lemma lease_row_of_upd [simp]:
  "lease_row_of (d\<lparr>t_leases := fmupd n r (t_leases d)\<rparr>) name = (if n = name then r else lease_row_of d name)"
  by (simp add: lease_row_of_def)

lemma lease_row_of_Some: "fmlookup (t_leases d) name = Some r \<Longrightarrow> lease_row_of d name = r"
  by (simp add: lease_row_of_def)

lemma step_epochs:
  "acquire_step s n token d d' \<Longrightarrow> lease_epoch name d \<le> lease_epoch name d'"
  "renew_step s n e x d d' \<Longrightarrow> lease_epoch name d \<le> lease_epoch name d'"
  "release_step n e x d d' \<Longrightarrow> lease_epoch name d \<le> lease_epoch name d'"
  by (auto simp: acquire_step_def renew_step_def release_step_def lease_epoch_def Let_def lease_row_of_Some)

lemma lease_step_epoch: "lease_step d d' \<Longrightarrow> lease_epoch name d \<le> lease_epoch name d'"
  unfolding lease_step_def using step_epochs by blast

interpretation fence: protocol lease_step "\<lambda>d. n \<le> lease_epoch name d"
  by unfold_locales (use lease_step_epoch in \<open>blast intro: order_trans\<close>)

text \<open>The other sessions keep to the protocol: they never lower the epoch of a name.\<close>

definition keeps_epoch :: "string \<Rightarrow> event list \<Rightarrow> bool" where
  "keeps_epoch name es \<longleftrightarrow> (\<forall>ev \<in> set es. \<forall>d. lease_epoch name d \<le> lease_epoch name (ev_others ev d))"

lemma keeps_epoch_keeps: "keeps_epoch name es \<Longrightarrow> keeps (\<lambda>d. n \<le> lease_epoch name d) es"
  by (auto simp: keeps_epoch_def keeps_def intro: order_trans)

lemma others_keep_epoch:
  assumes "others_only w w'" and "keeps_epoch name (script w)"
  shows "lease_epoch name (db w) \<le> lease_epoch name (db w')"
proof -
  from assms(1) obtain cs where cs: "evolves cs w w'" "\<forall>c \<in> set cs. \<not> by_us c" by (rule others_onlyE)
  have "lease_epoch name (pre c) \<le> lease_epoch name (post c)" if "c \<in> set cs" for c
    using cs that assms(2) by (fastforce simp: evolves_def keeps_epoch_def)
  then have "\<forall>c \<in> set cs. lease_epoch name (db w) \<le> lease_epoch name (pre c) \<longrightarrow> lease_epoch name (db w) \<le> lease_epoch name (post c)"
    using order_trans by blast
  moreover have "chain (db w) cs (db w')" using cs(1) by (simp add: evolves_def)
  ultimately show ?thesis
    using fence.chain_invariant [of "db w" cs "db w'" "lease_epoch name (db w)" name] by simp
qed

lemma keeps_epoch_later: "leads_to w w1 \<Longrightarrow> keeps_epoch name (script w) \<Longrightarrow> keeps_epoch name (script w1)"
  by (auto simp: leads_to_def evolves_def keeps_epoch_def)

text \<open>The epoch an acquisition gets: above every epoch before the call, and reached by its end.\<close>

lemma lease_Acquire_epoch:
  assumes "run_state (lease_Acquire vn s token c name) w = (Inr h, w')" and "txn w = None" and k: "keeps_epoch name (script w)"
  obtains l where "fmlookup (objects w') h = Some l" "lease_epoch name (db w) < le_epoch l" "le_epoch l \<le> lease_epoch name (db w')"
  using assms(1,2)
proof (cases rule: lease_Acquire_cases [where n = 0])
  case (Ended holder)
  from Ended(3) show thesis
  proof (cases rule: acquire_ended.cases)
    case (Taken w1 ws l)
    have "lease_epoch name (db w) \<le> lease_epoch name (db w1)" using Taken(1) k by (rule others_keep_epoch)
    moreover have "lease_epoch name (apply_writes ws (db w1)) = lease_epoch name (db w1) + 1"
      using Taken(3) by (auto simp: acquire_step_def lease_epoch_def Let_def)
    moreover have "keeps_epoch name (script (commit_ours ws w1))"
      using keeps_epoch_later [OF others_only_leads_to [OF Taken(1)] k] by simp
    with Taken(4) have "lease_epoch name (apply_writes ws (db w1)) \<le> lease_epoch name (db w')"
      using others_keep_epoch [of "commit_ours ws w1" w' name] by simp
    moreover have "le_epoch l = lease_epoch name (apply_writes ws (db w1))" using Taken by (simp add: lease_epoch_def)
    ultimately show thesis using Taken by (intro that [of l]) auto
  next
    case (Reread wm wl epoch w1 t)
    have "lease_epoch name (db w) < epoch"
      using others_keep_epoch [of w wl name] Reread(2) k by (simp add: lease_epoch_def)
    moreover have "\<exists>l. fmlookup (objects w1) h = Some l \<and> le_epoch l = epoch \<and> epoch = lease_epoch name (db w1)"
      using Reread(4)
    proof (cases rule: resolveAcquire_cases)
      case (Ours h' l row)
      then show ?thesis by (auto simp: lease_epoch_def lease_row_of_Some)
    qed simp_all
    ultimately show thesis using Reread(5) by (elim exE) (rule that, auto)
  qed
qed auto

text \<open>
  C5. Fencing: of two acquisitions of a name, by any two stores and whatever happens in
  between, the later one has the strictly larger epoch -- provided the other sessions, like
  this code, never lower an epoch.
\<close>

theorem lease_fencing:
  assumes "run_state (lease_Acquire vn s token c name) w = (Inr h, w1)" and "txn w = None" and "keeps_epoch name (script w)"
    and "lease_epoch name (db w1) \<le> lease_epoch name (db w2)"
    and "run_state (lease_Acquire vn' s' token' c' name) w2 = (Inr h', w3)" and "txn w2 = None" and "keeps_epoch name (script w2)"
  shows "le_epoch (the (fmlookup (objects w1) h)) < le_epoch (the (fmlookup (objects w3) h'))"
proof -
  from assms(1-3) obtain l where "fmlookup (objects w1) h = Some l" "le_epoch l \<le> lease_epoch name (db w1)"
    by (rule lease_Acquire_epoch)
  moreover from assms(5-7) obtain l' where "fmlookup (objects w3) h' = Some l'" "lease_epoch name (db w2) < le_epoch l'"
    by (rule lease_Acquire_epoch)
  ultimately show ?thesis using assms(4) by simp
qed

section \<open>The life of a lease object\<close>

text \<open>What one step may do to an object: its identity stays, nothing closed is reopened.\<close>

definition object_ok :: "lease \<Rightarrow> bool" where
  "object_ok l \<longleftrightarrow> (le_done l \<longrightarrow> le_lost l) \<and> (le_released l \<longrightarrow> le_done l) \<and> (le_releaseComplete l \<longrightarrow> le_released l) \<and>
     (le_pc l = Exited \<longrightarrow> le_lost l)"

definition object_step :: "lease \<Rightarrow> lease \<Rightarrow> bool" where
  "object_step l l' \<longleftrightarrow> le_name l' = le_name l \<and> le_epoch l' = le_epoch l \<and> le_holder l' = le_holder l \<and>
     (le_lost l \<longrightarrow> le_lost l') \<and> (le_done l \<longrightarrow> le_done l') \<and> (le_released l \<longrightarrow> le_released l') \<and>
     (object_ok l \<longrightarrow> object_ok l')"

text \<open>The whole memory: a lease that is not lost is registered, so that \<open>Close\<close> reaches it.\<close>

definition memory_ok :: "'z lease_world_scheme \<Rightarrow> bool" where
  "memory_ok w \<longleftrightarrow> (\<forall>h l. fmlookup (objects w) h = Some l \<longrightarrow>
     object_ok l \<and> (\<not> le_lost l \<longrightarrow> h |\<in>| registered w) \<and> h < next_ref w)"

text \<open>What an operation on the lease \<open>h\<close> does to the memory.\<close>

definition acts_on :: "nat \<Rightarrow> 'z lease_world_scheme \<Rightarrow> 'z lease_world_scheme \<Rightarrow> bool" where
  "acts_on h w w' \<longleftrightarrow> (\<exists>l l'. fmlookup (objects w) h = Some l \<and> objects w' = fmupd h l' (objects w) \<and> object_step l l' \<and>
     next_ref w' = next_ref w \<and> store_canceled w' = store_canceled w \<and>
     (registered w' = registered w \<or> registered w' = registered w - {|h|} \<and> (object_ok l \<longrightarrow> le_lost l')))"

definition memory :: "'z lease_world_scheme \<Rightarrow> (nat, lease) fmap \<times> nat fset \<times> bool \<times> nat" where
  "memory w = (objects w, registered w, store_canceled w, next_ref w)"

definition touches_no_memory :: "('z lease_world_scheme, 'a) state \<Rightarrow> bool" where
  "touches_no_memory m \<longleftrightarrow> (\<forall>w. memory (snd (run_state m w)) = memory w)"

named_theorems memory_intros

lemma memory_bind [memory_intros]:
  assumes m: "touches_no_memory m" and f: "\<And>x. touches_no_memory (f x)"
  shows "touches_no_memory (State_Monad.bind m f)"
  unfolding touches_no_memory_def
proof
  fix w
  obtain x w1 where 1: "run_state m w = (x, w1)" by (meson surj_pair)
  have "memory w1 = memory w" using m 1 unfolding touches_no_memory_def by (metis snd_conv)
  moreover have "memory (snd (run_state (f x) w1)) = memory w1" using f unfolding touches_no_memory_def by blast
  ultimately show "memory (snd (run_state (m \<bind> f) w)) = memory w" using 1 by simp
qed

lemma memory_case [memory_intros]:
  "(b \<Longrightarrow> touches_no_memory m) \<Longrightarrow> (\<not> b \<Longrightarrow> touches_no_memory m') \<Longrightarrow> touches_no_memory (if b then m else m')"
  "(\<And>e. touches_no_memory (f e)) \<Longrightarrow> (\<And>v. touches_no_memory (g v)) \<Longrightarrow> touches_no_memory (case x of Inl e \<Rightarrow> f e | Inr v \<Rightarrow> g v)"
  "touches_no_memory m \<Longrightarrow> (\<And>v. touches_no_memory (k v)) \<Longrightarrow> touches_no_memory (case y of None \<Rightarrow> m | Some v \<Rightarrow> k v)"
  "(\<And>a b. touches_no_memory (q a b)) \<Longrightarrow> touches_no_memory (case p of (a, b) \<Rightarrow> q a b)"
  by (auto split: sum.split option.split prod.split)

lemma memory_fields [simp]:
  "memory (w\<lparr>db := d\<rparr>) = memory w" "memory (w\<lparr>script := es\<rparr>) = memory w" "memory (w\<lparr>txn := t\<rparr>) = memory w"
  "memory (w\<lparr>hist := hs\<rparr>) = memory w" "memory (w\<lparr>sent := xs\<rparr>) = memory w"
  by (simp_all add: memory_def)

lemma memory_world [simp]:
  "memory (advance w) = memory w" "memory (commit_ours ws w) = memory w" "memory (log_sent ctx st w) = memory w"
  by (simp_all add: advance_def commit_ours_def log_sent_def Let_def)

lemma world_memory [simp]:
  "objects (advance w) = objects w" "objects (commit_ours ws w) = objects w" "objects (log_sent ctx st w) = objects w"
  "next_ref (advance w) = next_ref w" "next_ref (commit_ours ws w) = next_ref w" "next_ref (log_sent ctx st w) = next_ref w"
  "registered (advance w) = registered w" "registered (commit_ours ws w) = registered w" "registered (log_sent ctx st w) = registered w"
  by (simp_all add: advance_def commit_ours_def log_sent_def Let_def)

lemma memory_primitive [memory_intros]:
  "touches_no_memory (State_Monad.return x)" "touches_no_memory time_Now" "touches_no_memory (ctx_Err ctx)"
  "touches_no_memory (BeginTx ctx lvl)" "touches_no_memory (tx_run ctx st)" "touches_no_memory (tx_Commit ctx)"
  "touches_no_memory Rollback" "touches_no_memory (pool_run ctx st)"
  by (auto simp: touches_no_memory_def BeginTx_def tx_run_def tx_Commit_def pool_run_def Let_def
      split: fault.splits option.splits prod.splits sum.splits)

lemma memory_io [memory_intros]:
  "touches_no_memory (WithTimeout ctx d)" "touches_no_memory (Bound ctx0 op d)"
  "touches_no_memory (pool_QueryRow ctx st)" "touches_no_memory (tx_QueryRow ctx st)" "touches_no_memory (tx_Exec ctx st)"
  "touches_no_memory (SetLocalTimeouts ctx st1 lt)" "touches_no_memory (conservativeRemaining a b c)"
  unfolding WithTimeout_def Bound_def pool_QueryRow_def tx_QueryRow_def tx_Exec_def SetLocalTimeouts_def
    conservativeRemaining_def
  by (intro memory_intros)+

lemma memory_rows [memory_intros]:
  "touches_no_memory (renewRow s ctx l)" "touches_no_memory (releaseRow s ctx l)" "touches_no_memory (observe s ctx l)"
  "touches_no_memory (resolveRelease s l)" "touches_no_memory (fail_acquire ctx)"
  unfolding renewRow_def renewTx_def releaseRow_def releaseTx_def observe_def resolveRelease_def fail_acquire_def leaseFailure_def
  by (intro memory_intros)+

lemma memory_run:
  assumes "touches_no_memory m" and "run_state m w = (r, w')"
  shows "objects w' = objects w" "registered w' = registered w" "store_canceled w' = store_canceled w" "next_ref w' = next_ref w"
  using assms unfolding touches_no_memory_def memory_def by (metis prod.inject snd_conv)+

lemma memory_run_ops [simp]:
  "run_state (get_lease h) w = (the (fmlookup (objects w) h), w)"
  "fmlookup (objects w) h = Some l \<Longrightarrow> run_state (update_lease h f) w = ((), w\<lparr>objects := fmupd h (f l) (objects w)\<rparr>)"
  "run_state (lease_unregister h) w = ((), w\<lparr>registered := registered w - {|h|}\<rparr>)"
  by (simp_all add: get_lease_def update_lease_def lease_unregister_def)

lemma object_step_refl [simp, intro]: "object_step l l"
  by (simp add: object_step_def)

lemma object_step_trans: "object_step l l1 \<Longrightarrow> object_step l1 l2 \<Longrightarrow> object_step l l2"
  by (auto simp: object_step_def)

lemma acts_on_same:
  assumes "fmlookup (objects w) h = Some l" and "memory w' = memory w"
  shows "acts_on h w w'"
proof -
  have "fmupd h l (objects w) = objects w" using assms(1) by (intro fmap_ext) auto
  with assms show ?thesis unfolding acts_on_def memory_def by (intro exI [of _ l]) auto
qed

lemma acts_on_trans:
  assumes "acts_on h w w1" and "acts_on h w1 w2"
  shows "acts_on h w w2"
proof -
  from assms(1) obtain l l1 where 1: "fmlookup (objects w) h = Some l" "objects w1 = fmupd h l1 (objects w)" "object_step l l1"
      "next_ref w1 = next_ref w" "store_canceled w1 = store_canceled w"
      "registered w1 = registered w \<or> registered w1 = registered w - {|h|} \<and> (object_ok l \<longrightarrow> le_lost l1)"
    unfolding acts_on_def by blast
  from assms(2) 1(2) obtain l2 where 2: "objects w2 = fmupd h l2 (objects w1)" "object_step l1 l2"
      "next_ref w2 = next_ref w1" "store_canceled w2 = store_canceled w1"
      "registered w2 = registered w1 \<or> registered w2 = registered w1 - {|h|} \<and> (object_ok l1 \<longrightarrow> le_lost l2)"
    unfolding acts_on_def by auto
  have a: "objects w2 = fmupd h l2 (objects w)" using 1(2) 2(1) by simp
  have b: "object_step l l2" using 1(3) 2(2) by (rule object_step_trans)
  have c: "registered w2 = registered w \<or> registered w2 = registered w - {|h|} \<and> (object_ok l \<longrightarrow> le_lost l2)"
  proof -
    have "(object_ok l \<longrightarrow> object_ok l1) \<and> (le_lost l1 \<longrightarrow> le_lost l2)" using 1(3) 2(2) by (simp add: object_step_def)
    moreover have "registered w - {|h|} - {|h|} = registered w - {|h|}" by (rule fset_eqI) auto
    ultimately show ?thesis using 1(6) 2(5) by (elim disjE conjE) simp_all
  qed
  have d: "next_ref w2 = next_ref w" "store_canceled w2 = store_canceled w" using 1(4,5) 2(3,4) by simp_all
  from 1(1) a b d c show ?thesis unfolding acts_on_def by blast
qed

lemma acts_on_update:
  assumes "fmlookup (objects w) h = Some l" and "object_step l (f l)"
  shows "acts_on h w (snd (run_state (update_lease h f) w))"
  using assms by (auto simp: acts_on_def)

lemma acts_on_exit:
  assumes "fmlookup (objects w) h = Some l" and "object_ok l \<longrightarrow> le_lost l"
  shows "acts_on h w (snd (run_state (loop_exit h) w))"
  using assms by (auto simp: acts_on_def loop_exit_def object_step_def object_ok_def)

lemma acts_on_lose:
  assumes "fmlookup (objects w) h = Some l"
  shows "acts_on h w (snd (run_state (lose_and_exit h) w))"
proof -
  let ?w1 = "w\<lparr>objects := fmupd h (markLost l) (objects w)\<rparr>"
  have "acts_on h w ?w1" using acts_on_update [OF assms, of markLost] assms by (simp add: object_step_def object_ok_def markLost_def)
  moreover have "acts_on h ?w1 (snd (run_state (loop_exit h) ?w1))" by (rule acts_on_exit) (auto simp: markLost_def)
  ultimately show ?thesis using assms by (auto simp: lose_and_exit_def intro: acts_on_trans)
qed

lemma acts_on_check:
  assumes "fmlookup (objects w) h = Some l"
  shows "acts_on h w (snd (run_state (renew_check h) w))"
proof (cases "le_released l")
  case True
  with assms acts_on_exit [OF assms] show ?thesis by (simp add: renew_check_def object_ok_def)
next
  case False
  let ?w1 = "w\<lparr>script := tl (script w)\<rparr>"
  have 1: "acts_on h w ?w1" using assms by (rule acts_on_same) simp
  have l: "fmlookup (objects ?w1) h = Some l" using assms by simp
  show ?thesis
  proof (cases "le_safeUntil l - ev_clock (next_event w) \<le> 0")
    case True
    with False assms acts_on_trans [OF 1 acts_on_lose [OF l]] show ?thesis by (simp add: renew_check_def)
  next
    case nonpos: False
    have "acts_on h ?w1 (snd (run_state (update_lease h (\<lambda>l'. l'\<lparr>le_pc := Waiting (le_safeUntil l)\<rparr>)) ?w1))"
      by (rule acts_on_update [OF l]) (auto simp: object_step_def object_ok_def)
    with False nonpos assms 1 show ?thesis by (auto simp: renew_check_def intro: acts_on_trans)
  qed
qed

lemma acts_on_select:
  assumes "fmlookup (objects w) h = Some l" and "k = DoneClosed \<longrightarrow> le_done l"
  shows "acts_on h w (snd (run_state (renew_select h k t) w))"
proof (cases k)
  case DoneClosed
  then show ?thesis using acts_on_exit [OF assms(1)] assms(2) by (simp add: renew_select_def object_ok_def)
next
  case RenewTimer
  then show ?thesis
    using acts_on_update [OF assms(1), of "\<lambda>l. l\<lparr>le_pc := Renewing t\<rparr>"] by (simp add: renew_select_def object_step_def object_ok_def)
qed (use acts_on_lose [OF assms(1)] in \<open>simp_all add: renew_select_def\<close>)

lemma acts_on_apply:
  assumes "fmlookup (objects w) h = Some l"
  shows "acts_on h w (snd (run_state (renew_apply h r) w))"
proof (cases "\<exists>remaining. r = Inr remaining \<and> 0 < remaining")
  case True
  then obtain remaining where r: "r = Inr remaining" "0 < remaining" by blast
  let ?w1 = "w\<lparr>script := tl (script w)\<rparr>"
  let ?f = "\<lambda>l. l\<lparr>le_safeUntil := ev_clock (next_event w) + remaining, le_pc := LoopTop\<rparr>"
  have 1: "acts_on h w ?w1" using assms by (rule acts_on_same) simp
  have l: "fmlookup (objects ?w1) h = Some l" using assms by simp
  have "acts_on h ?w1 (snd (run_state (update_lease h ?f) ?w1))"
    by (rule acts_on_update [OF l]) (auto simp: object_step_def object_ok_def)
  with acts_on_trans [OF 1 this] r show ?thesis by (simp add: renew_apply_def)
next
  case False
  then show ?thesis using acts_on_lose [OF assms] by (cases r) (auto simp: renew_apply_def)
qed

lemma acts_on_attempt:
  assumes l: "fmlookup (objects w) h = Some l"
  shows "acts_on h w (snd (run_state (renew_attempt s h t) w))"
proof -
  let ?ctx = "WithDeadline Background t"
  obtain r w1 where r: "run_state (renewRow s ?ctx l) w = (r, w1)" by (meson surj_pair)
  note m1 = memory_run [OF memory_rows(1) r]
  have a1: "acts_on h w w1" using l by (rule acts_on_same) (simp add: memory_def m1)
  have l1: "fmlookup (objects w1) h = Some l" using l m1 by simp
  show ?thesis
  proof (cases r)
    case (Inr remaining)
    with r l acts_on_trans [OF a1 acts_on_apply [OF l1, of "Inr remaining"]] show ?thesis by (simp add: renew_attempt_def)
  next
    case (Inl e)
    obtain o1 w2 where o1: "run_state (observe s ?ctx l) w1 = (o1, w2)" by (meson surj_pair)
    note m2 = memory_run [OF memory_rows(3) o1]
    have "acts_on h w1 w2" using l1 by (rule acts_on_same) (simp add: memory_def m2)
    moreover have "acts_on h w2 (snd (run_state (renew_apply h o1) w2))"
      by (rule acts_on_apply [of _ _ l]) (use l1 m2 in simp)
    ultimately show ?thesis using r l Inl o1 a1 by (auto simp: renew_attempt_def intro: acts_on_trans)
  qed
qed

lemma acts_on_complete:
  assumes "fmlookup (objects w) h = Some l" and "le_released l"
  shows "acts_on h w (snd (run_state (update_lease h (\<lambda>l. l\<lparr>le_releaseComplete := True\<rparr>)) w))"
  by (rule acts_on_update [OF assms(1)]) (use assms(2) in \<open>auto simp: object_step_def object_ok_def\<close>)

text \<open>The first block of \<open>Release\<close>, and the rest of it.\<close>

lemma acts_on_release_start:
  assumes "fmlookup (objects w) h = Some l"
  obtains w1 l1 where "run_state (if le_released l then State_Monad.return () else do {
        update_lease h (\<lambda>l. l\<lparr>le_released := True\<rparr>);
        update_lease h lease_stop;
        update_lease h markLost;
        lease_unregister h }) w = ((), w1)" "acts_on h w w1" "fmlookup (objects w1) h = Some l1" "le_released l1" "idle w w1"
proof (cases "le_released l")
  case True
  with assms show thesis by (intro that [of w l]) (auto intro: acts_on_same)
next
  case False
  let ?l1 = "markLost (lease_stop (l\<lparr>le_released := True\<rparr>))"
  let ?w1 = "w\<lparr>objects := fmupd h ?l1 (objects w), registered := registered w - {|h|}\<rparr>"
  have "acts_on h w ?w1"
    unfolding acts_on_def using assms
    by (intro exI [of _ l] exI [of _ ?l1]) (auto simp: object_step_def object_ok_def markLost_def lease_stop_def)
  with False assms show thesis by (intro that [of ?w1 ?l1]) (auto simp: markLost_def lease_stop_def idle_def)
qed

lemma acts_on_Release:
  assumes l: "fmlookup (objects w) h = Some l"
  shows "acts_on h w (snd (run_state (lease_Release s c h) w))"
proof (cases c)
  case None
  then show ?thesis using l by (auto simp: lease_Release_def Bound_run intro: acts_on_same)
next
  case (Some x)
  obtain ctx w0 where b: "run_state (Bound c ''Lease.Release'' (ls_operationTimeout s)) w = (Inr ctx, w0)"
    using Some by (cases "deadline x") (auto simp: Bound_run)
  note m0 = memory_run [OF memory_io(2) b]
  have a0: "acts_on h w w0" using l by (rule acts_on_same) (simp add: memory_def m0)
  have l0: "fmlookup (objects w0) h = Some l" using l m0 by simp
  show ?thesis
  proof (cases "le_releaseComplete l")
    case True
    with b l0 a0 show ?thesis by (simp add: lease_Release_def)
  next
    case False
    obtain w1 l1 where 1: "run_state (if le_released l then State_Monad.return () else do {
        update_lease h (\<lambda>l. l\<lparr>le_released := True\<rparr>); update_lease h lease_stop; update_lease h markLost;
        lease_unregister h }) w0 = ((), w1)" "acts_on h w0 w1" "fmlookup (objects w1) h = Some l1" "le_released l1"
      using l0 by (rule acts_on_release_start)
    have a1: "acts_on h w w1" using a0 1(2) by (rule acts_on_trans)
    obtain r w2 where 2: "run_state (releaseRow s ctx l) w1 = (r, w2)" by (meson surj_pair)
    note m2 = memory_run [OF memory_rows(2) 2]
    have l2: "fmlookup (objects w2) h = Some l1" using 1(3) m2 by simp
    have "acts_on h w1 w2" using 1(3) by (rule acts_on_same) (simp add: memory_def m2)
    with a1 have a2: "acts_on h w w2" by (rule acts_on_trans)
    let ?w3 = "w2\<lparr>script := tl (script w2)\<rparr>"
    have l3: "fmlookup (objects ?w3) h = Some l1" using l2 by simp
    have a3: "acts_on h w ?w3" using a2 acts_on_same [OF l2] by (auto intro: acts_on_trans)
    obtain q w4 where 4: "run_state (resolveRelease s l) ?w3 = (q, w4)" by (meson surj_pair)
    note m4 = memory_run [OF memory_rows(4) 4]
    have l4: "fmlookup (objects w4) h = Some l1" using l3 m4 by simp
    have "acts_on h ?w3 w4" using l3 by (rule acts_on_same) (simp add: memory_def m4)
    with a3 have a4: "acts_on h w w4" by (rule acts_on_trans)
    note done2 = acts_on_trans [OF a2 acts_on_complete [OF l2 1(4)]]
    note done4 = acts_on_trans [OF a4 acts_on_complete [OF l4 1(4)]]
    have run: "snd (run_state (lease_Release s c h) w) = (case r of
        Inr _ \<Rightarrow> snd (run_state (update_lease h (\<lambda>l. l\<lparr>le_releaseComplete := True\<rparr>)) w2)
      | Inl _ \<Rightarrow> (case ev_ctx_err (next_event w2) of Some _ \<Rightarrow> ?w3 | None \<Rightarrow>
          (case q of Inl _ \<Rightarrow> w4 | Inr _ \<Rightarrow> snd (run_state (update_lease h (\<lambda>l. l\<lparr>le_releaseComplete := True\<rparr>)) w4))))"
      using b l0 False 1(1) 2 4 l2 l4
      by (auto simp: lease_Release_def simp del: run_state_if split: sum.splits option.splits)
    show ?thesis unfolding run using done2 done4 a3 a4 by (auto split: sum.splits option.splits)
  qed
qed

text \<open>\<open>Acquire\<close> leaves the memory alone or adds one new object.\<close>

definition allocates :: "'z lease_world_scheme \<Rightarrow> 'z lease_world_scheme \<Rightarrow> bool" where
  "allocates w w' \<longleftrightarrow> memory w' = memory w \<or> (\<exists>l. object_ok l \<and>
     memory w' = (fmupd (next_ref w) l (objects w), finsert (next_ref w) (registered w), store_canceled w, next_ref w + 1))"

definition may_allocate :: "('z lease_world_scheme, 'a) state \<Rightarrow> bool" where
  "may_allocate m \<longleftrightarrow> (\<forall>w. allocates w (snd (run_state m w)))"

lemma allocates_memory: "memory w1 = memory w \<Longrightarrow> allocates w1 w' \<Longrightarrow> allocates w w'"
  by (simp add: allocates_def memory_def)

lemma may_allocate_before:
  assumes m: "touches_no_memory m" and f: "\<And>x. may_allocate (f x)"
  shows "may_allocate (State_Monad.bind m f)"
  unfolding may_allocate_def
proof
  fix w
  obtain x w1 where 1: "run_state m w = (x, w1)" by (meson surj_pair)
  have "memory w1 = memory w" using m 1 unfolding touches_no_memory_def by (metis snd_conv)
  moreover have "allocates w1 (snd (run_state (f x) w1))" using f unfolding may_allocate_def by blast
  ultimately show "allocates w (snd (run_state (m \<bind> f) w))" using 1 by (auto intro: allocates_memory)
qed

lemma may_allocate_after:
  assumes m: "may_allocate m" and f: "\<And>x. touches_no_memory (f x)"
  shows "may_allocate (State_Monad.bind m f)"
  unfolding may_allocate_def
proof
  fix w
  obtain x w1 where 1: "run_state m w = (x, w1)" by (meson surj_pair)
  have "allocates w w1" using m 1 unfolding may_allocate_def by (metis snd_conv)
  moreover have "memory (snd (run_state (f x) w1)) = memory w1" using f unfolding touches_no_memory_def by blast
  ultimately show "allocates w (snd (run_state (m \<bind> f) w))" using 1 by (simp add: allocates_def)
qed

lemma may_allocate_io: "touches_no_memory m \<Longrightarrow> may_allocate m"
  by (simp add: may_allocate_def touches_no_memory_def allocates_def)

lemma may_allocate_newLease: "may_allocate (newLease name epoch holder remaining)"
  unfolding may_allocate_def
proof
  fix w :: "'a lease_world_scheme"
  let ?l = "\<lparr>le_name = name, le_epoch = epoch, le_holder = holder, le_safeUntil = ev_clock (next_event w) + remaining,
       le_released = False, le_releaseComplete = False, le_lost = False, le_done = False, le_pc = LoopTop\<rparr>"
  have "memory (snd (run_state (newLease name epoch holder remaining) w)) =
      (fmupd (next_ref w) ?l (objects w), finsert (next_ref w) (registered w), store_canceled w, next_ref w + 1)"
    by (simp add: newLease_def alloc_lease_def lease_register_def memory_def)
  moreover have "object_ok ?l" by (simp add: object_ok_def)
  ultimately show "allocates w (snd (run_state (newLease name epoch holder remaining) w))"
    unfolding allocates_def by blast
qed

lemma may_allocate_case:
  "(b \<Longrightarrow> may_allocate m) \<Longrightarrow> (\<not> b \<Longrightarrow> may_allocate m') \<Longrightarrow> may_allocate (if b then m else m')"
  "(\<And>e. may_allocate (f e)) \<Longrightarrow> (\<And>v. may_allocate (g v)) \<Longrightarrow> may_allocate (case x of Inl e \<Rightarrow> f e | Inr v \<Rightarrow> g v)"
  "may_allocate m \<Longrightarrow> (\<And>v. may_allocate (k v)) \<Longrightarrow> may_allocate (case y of None \<Rightarrow> m | Some v \<Rightarrow> k v)"
  "(\<And>a b. may_allocate (q a b)) \<Longrightarrow> may_allocate (case p of (a, b) \<Rightarrow> q a b)"
  by (auto split: sum.split option.split prod.split)

lemma may_allocate_new:
  "may_allocate (do { h \<leftarrow> newLease name epoch holder remaining; State_Monad.return (f h) })"
  by (intro may_allocate_after may_allocate_newLease memory_intros)

lemma may_allocate_resolve: "may_allocate (resolveAcquire s name epoch holder)"
  unfolding resolveAcquire_def acquireVerdict_def
  by (rule may_allocate_before memory_intros may_allocate_case may_allocate_new | rule may_allocate_io, rule memory_intros)+

lemma may_allocate_acquireTx: "may_allocate (acquireTx s ctx name holder)"
  unfolding acquireTx_def takeLease_def
  by (rule may_allocate_resolve may_allocate_new may_allocate_case may_allocate_before memory_intros
      | rule may_allocate_io, rule memory_intros)+

lemma may_allocate_in_tx: "may_allocate (do { r \<leftarrow> acquireTx s ctx name holder; Rollback; State_Monad.return r })"
  by (intro may_allocate_after may_allocate_acquireTx memory_intros)

lemma may_allocate_Acquire: "may_allocate (lease_Acquire vn s token c name)"
  unfolding lease_Acquire_def
  by (rule may_allocate_in_tx may_allocate_case may_allocate_before memory_intros
      | rule may_allocate_io, rule memory_intros)+

section \<open>The goroutines of the store, interleaved\<close>

text \<open>
  One step of the process: the goroutine of a lease moves (at the select, a case fires that is
  ready: a timer may fire at any time), or the program calls \<open>Acquire\<close>, \<open>Release\<close> or \<open>Close\<close>.
\<close>

fun ready :: "wake \<Rightarrow> lease \<Rightarrow> lease_world \<Rightarrow> bool" where
  "ready DoneClosed l w = le_done l"
| "ready StoreDone l w = store_canceled w"
| "ready ExpiryTimer l w = True"
| "ready RenewTimer l w = True"

inductive lease_system :: "lease_store \<Rightarrow> lease_world \<Rightarrow> lease_world \<Rightarrow> bool" for s where
  LoopCheck: "fmlookup (objects w) h = Some l \<Longrightarrow> le_pc l = LoopTop \<Longrightarrow>
     lease_system s w (snd (run_state (renew_check h) w))"
| LoopSelect: "fmlookup (objects w) h = Some l \<Longrightarrow> le_pc l = Waiting t \<Longrightarrow> ready k l w \<Longrightarrow>
     lease_system s w (snd (run_state (renew_select h k t) w))"
| LoopRenew: "fmlookup (objects w) h = Some l \<Longrightarrow> le_pc l = Renewing t \<Longrightarrow>
     lease_system s w (snd (run_state (renew_attempt s h t) w))"
| CallRelease: "fmlookup (objects w) h = Some l \<Longrightarrow> lease_system s w (snd (run_state (lease_Release s c h) w))"
| CallAcquire: "lease_system s w (snd (run_state (lease_Acquire vn s token c name) w))"
| CallClose: "lease_system s w (lease_Close w)"

lemma acts_on_keeps:
  assumes "acts_on h w w'" and "memory_ok w"
  shows "memory_ok w' \<and> (\<forall>k l. fmlookup (objects w) k = Some l \<longrightarrow> (\<exists>l'. fmlookup (objects w') k = Some l' \<and> object_step l l'))"
proof -
  from assms(1) obtain l l' where a: "fmlookup (objects w) h = Some l" "objects w' = fmupd h l' (objects w)" "object_step l l'"
      "next_ref w' = next_ref w" "registered w' = registered w \<or> registered w' = registered w - {|h|} \<and> (object_ok l \<longrightarrow> le_lost l')"
    unfolding acts_on_def by blast
  have "object_ok l" "\<not> le_lost l \<longrightarrow> h |\<in>| registered w" "h < next_ref w" using assms(2) a(1) by (auto simp: memory_ok_def)
  then have l': "object_ok l'" "\<not> le_lost l' \<longrightarrow> h |\<in>| registered w'" "h < next_ref w'"
    using a by (auto simp: object_step_def)
  have "memory_ok w'"
    unfolding memory_ok_def
  proof (intro allI impI)
    fix k x
    assume "fmlookup (objects w') k = Some x"
    then show "object_ok x \<and> (\<not> le_lost x \<longrightarrow> k |\<in>| registered w') \<and> k < next_ref w'"
      using l' a(2,4,5) assms(2) by (cases "k = h") (auto simp: memory_ok_def)
  qed
  moreover have "\<exists>x'. fmlookup (objects w') k = Some x' \<and> object_step x x'" if "fmlookup (objects w) k = Some x" for k x
    using that a by (cases "k = h") auto
  ultimately show ?thesis by blast
qed

lemma allocates_keeps:
  assumes "allocates w w'" and "memory_ok w"
  shows "memory_ok w' \<and> (\<forall>k l. fmlookup (objects w) k = Some l \<longrightarrow> (\<exists>l'. fmlookup (objects w') k = Some l' \<and> object_step l l'))"
  using assms(1) unfolding allocates_def
proof
  assume "memory w' = memory w"
  with assms(2) show ?thesis by (auto simp: memory_def memory_ok_def)
next
  assume "\<exists>l. object_ok l \<and>
     memory w' = (fmupd (next_ref w) l (objects w), finsert (next_ref w) (registered w), store_canceled w, next_ref w + 1)"
  then obtain l where l: "object_ok l" "objects w' = fmupd (next_ref w) l (objects w)"
      "registered w' = finsert (next_ref w) (registered w)" "next_ref w' = next_ref w + 1"
    by (auto simp: memory_def)
  have "k \<noteq> next_ref w" if "fmlookup (objects w) k = Some x" for k x
    using assms(2) that by (auto simp: memory_ok_def)
  with assms(2) l show ?thesis by (fastforce simp: memory_ok_def)
qed

lemma Close_keeps:
  assumes "memory_ok w"
  shows "memory_ok (lease_Close w) \<and> (\<forall>k l. fmlookup (objects w) k = Some l \<longrightarrow>
    (\<exists>l'. fmlookup (objects (lease_Close w)) k = Some l' \<and> object_step l l'))"
  using assms by (auto simp: memory_ok_def lease_Close_def object_step_def object_ok_def markLost_def lease_stop_def split: if_splits)

lemma lease_system_keeps:
  assumes "lease_system s w w'" and "memory_ok w"
  shows "memory_ok w' \<and> (\<forall>k l. fmlookup (objects w) k = Some l \<longrightarrow> (\<exists>l'. fmlookup (objects w') k = Some l' \<and> object_step l l'))"
  using assms(1)
proof cases
  case (LoopCheck h l)
  with assms(2) acts_on_keeps acts_on_check show ?thesis by blast
next
  case (LoopSelect h l t k)
  then have "k = DoneClosed \<longrightarrow> le_done l" by (cases k) auto
  with LoopSelect assms(2) acts_on_keeps acts_on_select show ?thesis by blast
next
  case (LoopRenew h l t)
  with assms(2) acts_on_keeps acts_on_attempt show ?thesis by blast
next
  case (CallRelease h l c)
  with assms(2) acts_on_keeps acts_on_Release show ?thesis by blast
next
  case (CallAcquire vn token c name)
  with assms(2) allocates_keeps may_allocate_Acquire show ?thesis unfolding may_allocate_def by blast
next
  case CallClose
  with assms(2) Close_keeps show ?thesis by blast
qed

lemma lease_system_reachable:
  assumes "(lease_system s)\<^sup>*\<^sup>* w w'" and "memory_ok w"
  shows "memory_ok w' \<and> (\<forall>k l. fmlookup (objects w) k = Some l \<longrightarrow> (\<exists>l'. fmlookup (objects w') k = Some l' \<and> object_step l l'))"
  using assms
proof (induction rule: rtranclp_induct)
  case base
  then show ?case by auto
next
  case (step w1 w2)
  from lease_system_keeps [OF step.hyps(2)] step.IH [OF step.prems] show ?case
    by (blast intro: object_step_trans)
qed

text \<open>A process that has just called \<open>New\<close>.\<close>

definition lease_start :: "database \<Rightarrow> event list \<Rightarrow> lease_world" where
  "lease_start d es = \<lparr>db = d, script = es, txn = None, hist = [], sent = [],
     objects = fmempty, registered = {||}, store_canceled = False, next_ref = 0\<rparr>"

lemma lease_start_simps [simp]:
  "objects (lease_start d es) = fmempty" "registered (lease_start d es) = {||}" "next_ref (lease_start d es) = 0"
  "store_canceled (lease_start d es) = False"
  "db (lease_start d es) = d" "script (lease_start d es) = es" "txn (lease_start d es) = None"
  "hist (lease_start d es) = []" "sent (lease_start d es) = []"
  by (simp_all add: lease_start_def)


text \<open>
  Losing a lease is final, whatever happens later; a lease never changes its name, epoch or
  token; and \<open>Close\<close> loses every lease of the store.
\<close>

theorem lease_lost_final:
  assumes "(lease_system s)\<^sup>*\<^sup>* (lease_start d es) w" and "(lease_system s)\<^sup>*\<^sup>* w w'" and "fmlookup (objects w) h = Some l"
  shows "\<exists>l'. fmlookup (objects w') h = Some l' \<and> (Lost l \<longrightarrow> Lost l') \<and> le_name l' = le_name l \<and> Epoch l' = Epoch l \<and>
    le_holder l' = le_holder l \<and> (\<exists>l''. fmlookup (objects (lease_Close w')) h = Some l'' \<and> Lost l'')"
proof -
  have "memory_ok (lease_start d es)" by (simp add: memory_ok_def)
  with lease_system_reachable [OF assms(1)] have w: "memory_ok w" by blast
  from lease_system_reachable [OF assms(2) w] assms(3) obtain l' where
    l': "memory_ok w'" "fmlookup (objects w') h = Some l'" "object_step l l'" by blast
  then have "le_lost l' \<or> h |\<in>| registered w'" by (auto simp: memory_ok_def)
  then have "\<exists>l''. fmlookup (objects (lease_Close w')) h = Some l'' \<and> Lost l''"
    using l'(2) by (auto simp: lease_Close_def Lost_def markLost_def)
  with l' show ?thesis by (auto simp: object_step_def Lost_def Epoch_def)
qed

section \<open>When a released lease is gone\<close>

text \<open>The row no longer names this lease as its holder.\<close>

definition gone :: "lease \<Rightarrow> database \<Rightarrow> bool" where
  "gone l d \<longleftrightarrow> (\<forall>row. fmlookup (t_leases d) (le_name l) = Some row \<longrightarrow>
     l_epoch row \<noteq> le_epoch l \<or> \<not> bytes_Equal (l_holder row) (Some (le_holder l)))"

definition gone_or_expired :: "lease \<Rightarrow> database \<Rightarrow> bool" where
  "gone_or_expired l d \<longleftrightarrow> gone l d \<or> (\<exists>row now. fmlookup (t_leases d) (le_name l) = Some row \<and> \<not> unexpired (l_expires_at row) now)"

lemma release_lease_gone:
  assumes "sql_sem (release_lease_stmt s (le_name l) (le_epoch l) (le_holder l)) now d = (Inr rows, ws)" and "le_holder l \<noteq> []"
  shows "(ws = [] \<and> gone l d) \<or> (ws \<noteq> [] \<and> (\<forall>d'. gone l (apply_writes ws d')))"
  using assms
  by (auto simp: release_lease_stmt_def gone_def bytes_Equal_def split: option.splits if_splits)

lemma releaseRow_gone:
  assumes run: "run_state (releaseRow s ctx l) w = (Inr (), w')" and none: "txn w = None" and tok: "le_holder l \<noteq> []"
  obtains wx where "leads_to w wx" "leads_to wx w'" "gone l (db wx)"
  using run [unfolded releaseRow_def]
proof (cases rule: try_cases)
  case (Ok x wb)
  from Ok(1) none have b: "others_only w wb" "begun ReadCommitted wb" by (cases rule: begin_cases; simp)+
  obtain wt where t: "run_state (releaseTx s ctx l) wb = (Inr (), wt)" "w' = wt\<lparr>txn := None\<rparr>"
    using Ok(2) by (auto split: prod.splits)
  from t(1) [unfolded releaseTx_def] show thesis
  proof (cases rule: try_cases)
    case (Ok y w1)
    from Ok(1) begun_weak [OF b(2)] have 1: "others_only wb w1" "weak [] {} w1"
      by (cases rule: weak_timeouts_cases; simp)+
    from Ok(2) show thesis
    proof (cases rule: try_cases)
      case (Ok z w2)
      from Ok(1) 1(2) lease_answers(5) obtain now rows ws where u: "others_only w1 w2"
        "sql_sem (release_lease_stmt s (le_name l) (le_epoch l) (le_holder l)) now (db w2) = (Inr rows, ws)"
        "weak ws (set (new_locks (release_lease_stmt s (le_name l) (le_epoch l) (le_holder l)) (db w2) ws)) w2"
        by (cases rule: weak_Exec_cases) auto
      have l2: "leads_to w w2" using b(1) 1(1) u(1) by (meson others_only_trans others_only_leads_to)
      from Ok(2) u(3) obtain w3 where c: "others_only w2 w3" "wt = commit_ours ws w3"
        by (cases rule: weak_Commit_cases) auto
      have l3: "leads_to w2 wt" using c by (auto intro: leads_to_trans)
      from release_lease_gone [OF u(2) tok] show thesis
      proof
        assume "ws = [] \<and> gone l (db w2)"
        with l2 l3 t(2) show thesis by (intro that [of w2]) auto
      next
        assume "ws \<noteq> [] \<and> (\<forall>d'. gone l (apply_writes ws d'))"
        with l2 l3 c(2) t(2) show thesis by (intro that [of w']) (auto intro: leads_to_trans)
      qed
    qed simp
  qed simp
qed simp

lemma resolveRelease_gone:
  assumes run: "run_state (resolveRelease s l) w = (Inr (), w')"
  shows "others_only w w' \<and> gone_or_expired l (db w')"
proof -
  let ?w1 = "w\<lparr>script := tl (script w)\<rparr>"
  let ?ctx = "WithDeadline Background (ev_clock (next_event w) + AuthoritativeReadTimeout)"
  obtain q where q: "run_state (pool_run ?ctx (select_lease_stmt s (le_name l))) ?w1 = (q, w')"
    using run by (auto simp: resolveRelease_def pool_QueryRow_def split: prod.splits)
  have oo: "others_only w w'" if "others_only ?w1 w'"
    using others_only_trans [OF others_only_tick [OF others_only_refl] that] by simp
  from q show ?thesis
  proof (cases rule: pool_run_cases)
    case (Failed e)
    have "driver_error e \<or> e \<noteq> ErrNoRows"
      using Failed(2) lease_answers(6) [of s "le_name l"] unfolding answers_def driver_error_def by blast
    then have "e \<noteq> ErrNoRows" by auto
    with run q Failed show ?thesis by (auto simp: resolveRelease_def pool_QueryRow_def)
  next
    case (Done w1 now rows ws)
    then have ws: "w' = w1" by (simp add: select_lease_stmt_def)
    show ?thesis
    proof (cases "fmlookup (t_leases (db w1)) (le_name l)")
      case None
      with Done(1) ws oo show ?thesis by (simp add: gone_or_expired_def gone_def)
    next
      case (Some row)
      have "gone l (db w1) \<or> \<not> unexpired (l_expires_at row) now"
        using run q Done Some
        by (auto simp: resolveRelease_def pool_QueryRow_def select_lease_stmt_def gone_def RedactedError_def split: if_splits)
      with Some Done(1) ws oo show ?thesis by (auto simp: gone_or_expired_def)
    qed
  qed
qed

text \<open>
  When a \<open>Release\<close> that was not already complete reports success, in some committed state
  during the call the row no longer named the lease as its holder or had expired.
\<close>

theorem lease_Release_success:
  assumes run: "run_state (lease_Release s c h) w = (Inr (), w')" and none: "txn w = None"
    and l: "fmlookup (objects w) h = Some l" and "\<not> le_releaseComplete l" and tok: "le_holder l \<noteq> []"
  shows "\<exists>d \<in> set (states w w'). gone_or_expired l d"
proof -
  from run obtain x where x: "c = Some x" by (cases c) (auto simp: lease_Release_def Bound_run)
  obtain ctx w0 where b: "run_state (Bound c ''Lease.Release'' (ls_operationTimeout s)) w = (Inr ctx, w0)"
    using x by (cases "deadline x") (auto simp: Bound_run)
  from b have b0: "others_only w w0" "txn w0 = None" by (cases rule: Bound_cases; use none in auto)+
  have l0: "fmlookup (objects w0) h = Some l" using l memory_run [OF memory_io(2) b] by simp
  obtain w1 l1 where 1: "run_state (if le_released l then State_Monad.return () else do {
        update_lease h (\<lambda>l. l\<lparr>le_released := True\<rparr>); update_lease h lease_stop; update_lease h markLost;
        lease_unregister h }) w0 = ((), w1)" "acts_on h w0 w1" "fmlookup (objects w1) h = Some l1" "le_released l1" "idle w0 w1"
    using l0 by (rule acts_on_release_start)
  have l1: "leads_to w w1" using b0(1) idle_others [OF 1(5)] by (meson others_only_trans others_only_leads_to)
  have none1: "txn w1 = None" using 1(5) b0(2) by (simp add: idle_def)
  obtain r w2 where 2: "run_state (releaseRow s ctx l) w1 = (r, w2)" by (meson surj_pair)
  note m2 = memory_run [OF memory_rows(2) 2]
  obtain cs where "evolves cs w1 w2" using guarantees_releaseRow [of l s ctx] 2 none1 by (rule guaranteesE)
  then have l12: "leads_to w1 w2" by (auto simp: leads_to_def)
  let ?w3 = "w2\<lparr>script := tl (script w2)\<rparr>"
  obtain q w4 where 4: "run_state (resolveRelease s l) ?w3 = (q, w4)" by (meson surj_pair)
  note m4 = memory_run [OF memory_rows(4) 4]
  show ?thesis
  proof (cases r)
    case (Inr u)
    then have "w' = snd (run_state (update_lease h (\<lambda>l. l\<lparr>le_releaseComplete := True\<rparr>)) w2)"
      using run b l0 \<open>\<not> le_releaseComplete l\<close> 1(1,3) 2 m2 by (simp add: lease_Release_def del: run_state_if)
    then have l2: "leads_to w2 w'" using idle_others [OF idle_memory(1)] by blast
    from 2 Inr none1 tok obtain wx where wx: "leads_to w1 wx" "leads_to wx w2" "gone l (db wx)"
      by (auto elim: releaseRow_gone)
    have "db wx \<in> set (states w w')"
      using state_between [of w wx w'] l1 l2 wx(1,2) by (blast intro: leads_to_trans)
    with wx(3) show ?thesis by (auto simp: gone_or_expired_def)
  next
    case (Inl e)
    then have q: "q = Inr ()" and w': "w' = snd (run_state (update_lease h (\<lambda>l. l\<lparr>le_releaseComplete := True\<rparr>)) w4)"
      using run b l0 \<open>\<not> le_releaseComplete l\<close> 1(1,3) 2 m2 4 m4
      by (auto simp: lease_Release_def simp del: run_state_if split: option.splits sum.splits)
    have g: "others_only ?w3 w4" "gone_or_expired l (db w4)" using resolveRelease_gone 4 q by auto
    have "leads_to w w4"
      using l1 l12 g(1) others_only_tick [OF others_only_refl [of w2]] by (meson leads_to_trans others_only_leads_to)
    moreover have "leads_to w4 w'" using w' idle_others [OF idle_memory(1)] by blast
    ultimately show ?thesis using state_between [of w w4 w'] g(2) by blast
  qed
qed

section \<open>The local deadline against the expiry of the row\<close>

lemma BeginTx_script: "run_state (BeginTx ctx lvl) w = (r, w') \<Longrightarrow> script w' = tl (script w)"
  by (auto simp: BeginTx_def Let_def split: fault.splits)

lemma tx_run_script: "run_state (tx_run ctx st) w = (r, w') \<Longrightarrow> script w' = tl (script w)"
  by (auto simp: tx_run_def Let_def split: fault.splits option.splits prod.splits sum.splits if_splits)

lemma tx_run_now:
  assumes "run_state (tx_run ctx st) w = (Inr rows, w')" and "weak [] {} w"
  shows "\<exists>ws t. sql_sem st (ev_dbclock (next_event w)) (db w') = (Inr rows, ws) \<and> txn w' = Some t \<and> tx_writes t = ws"
  using assms
  by (auto simp: tx_run_def weak_def tx_base_def Let_def split: fault.splits prod.splits sum.splits if_splits)

lemma renewTx_result:
  assumes run: "run_state (renewTx s ctx l) w = (Inr remaining, w')" and bg: "begun ReadCommitted w"
    and es: "script w = e1 # e2 # e3 # e4 # e5 # es"
  shows "remaining = Milliseconds (ls_leaseTTL s) * millisecond - (ev_clock e5 - ev_clock e2) \<and> script w' = es \<and>
    (\<exists>row. fmlookup (t_leases (db w')) (le_name l) = Some row \<and>
       l_expires_at row = Some (ev_dbclock e3 + Milliseconds (ls_leaseTTL s) * millisecond))"
proof -
  let ?st = "renew_lease_stmt s (le_name l) (le_epoch l) (le_holder l)"
  from run [unfolded renewTx_def] obtain x wt where t: "run_state (SetLocalTimeouts ctx (ls_statementTimeout s) (ls_lockTimeout s)) w = (Inr x, wt)"
    and rest: "run_state (do {
     proofStarted \<leftarrow> time_Now;
     u \<leftarrow> tx_QueryRow ctx ?st;
     case scanned expiry_scan u of Inl e \<Rightarrow> State_Monad.return (Inl e) | Inr (expiresAt, databaseNow) \<Rightarrow> do {
     c \<leftarrow> tx_Commit ctx;
     case c of Inl e \<Rightarrow> State_Monad.return (Inl e) | Inr _ \<Rightarrow> do {
     remaining \<leftarrow> conservativeRemaining proofStarted expiresAt databaseNow;
     State_Monad.return (Inr remaining) } } }) wt = (Inr remaining, w')"
    by (cases rule: try_cases) auto
  from t begun_weak [OF bg] have wk: "weak [] {} wt" by (cases rule: weak_timeouts_cases) simp_all
  from t have sc: "script wt = e2 # e3 # e4 # e5 # es"
    using tx_run_script es by (fastforce simp: SetLocalTimeouts_def tx_Exec_def split: prod.splits)
  let ?wn = "wt\<lparr>script := tl (script wt)\<rparr>"
  have wkn: "weak [] {} ?wn" using wk by (simp add: weak_def)
  obtain u wu where u: "run_state (tx_run ctx ?st) ?wn = (u, wu)" by (meson surj_pair)
  have su: "script wu = e4 # e5 # es" using tx_run_script [OF u] sc by simp
  from rest u obtain rows where rows: "u = Inr rows"
    by (cases u) (auto simp: tx_QueryRow_def)
  from tx_run_now [OF u [unfolded rows] wkn] obtain ws tx where
    sem: "sql_sem ?st (ev_dbclock e3) (db wu) = (Inr rows, ws)" "txn wu = Some tx" "tx_writes tx = ws"
    using sc by auto
  from rest u rows have "rows \<noteq> []" by (auto simp: tx_QueryRow_def)
  with renew_lease_sem [OF sem(1)] sem(1) obtain row where
    row: "ws = [WLease (le_name l) (Some (row\<lparr>l_expires_at := Some (ev_dbclock e3 + Milliseconds (ls_leaseTTL s) * millisecond),
        l_revision := l_revision row + 1\<rparr>))]"
      "rows = [[CTime (ev_dbclock e3 + Milliseconds (ls_leaseTTL s) * millisecond), CTime (ev_dbclock e3)]]"
    by (auto simp: renew_lease_stmt_def Let_def split: if_splits option.splits)
  obtain c wc where c: "run_state (tx_Commit ctx) wu = (c, wc)" by (meson surj_pair)
  from rest u rows row(2) c have res: "\<exists>y. c = Inr y"
      "remaining = Milliseconds (ls_leaseTTL s) * millisecond - (ev_clock (next_event wc) - ev_clock e2)"
      "w' = wc\<lparr>script := tl (script wc)\<rparr>"
    using sc by (cases c; auto simp: tx_QueryRow_def)+
  from c res(1) sem(2,3) have "script wc = e5 # es" "db wc = apply_writes ws (db (advance wu))"
    using su by (auto simp: tx_Commit_def Let_def split: fault.splits)
  with res row(1) show ?thesis by auto
qed

text \<open>
  C40. The deadline a renewal gives the lease, exactly.  With \<open>t0\<close> the clock before the update,
  \<open>t1\<close> the clock in \<open>conservativeRemaining\<close>, \<open>t2\<close> the clock in \<open>time.Now().Add\<close> and \<open>now\<close> the
  database clock of the update, the lease is considered held until the row's expiry plus
  \<open>(t2 - t1) - (now - t0)\<close>.  So it is at or before the expiry just when \<open>t2 - t1 \<le> now - t0\<close>: a
  pause between the two clock readings moves it past the expiry.
\<close>

theorem lease_deadline_exact:
  assumes "run_state (renewRow s ctx l) w = (Inr remaining, w1)" and "txn w = None"
    and "script w = e0 # e1 # e2 # e3 # e4 # e5 # e6 # es"
    and "fmlookup (objects w1) h = Some l" and "0 < remaining"
  shows "\<exists>row expires. fmlookup (t_leases (db w1)) (le_name l) = Some row \<and> l_expires_at row = Some expires \<and>
    le_safeUntil (the (fmlookup (objects (snd (run_state (renew_apply h (Inr remaining)) w1))) h)) =
      expires + ((ev_clock e6 - ev_clock e5) - (ev_dbclock e3 - ev_clock e2))"
  using assms(1) [unfolded renewRow_def]
proof (cases rule: try_cases)
  case (Ok x wb)
  from Ok(1) assms(2) have bg: "begun ReadCommitted wb" by (cases rule: begin_cases) simp_all
  have es: "script wb = e1 # e2 # e3 # e4 # e5 # e6 # es" using BeginTx_script [OF Ok(1)] assms(3) by simp
  obtain wt where t: "run_state (renewTx s ctx l) wb = (Inr remaining, wt)" "w1 = wt\<lparr>txn := None\<rparr>"
    using Ok(2) by (auto split: prod.splits)
  from renewTx_result [OF t(1) bg es] t(2) assms(4,5) show ?thesis
    by (auto simp: renew_apply_def)
qed simp

section \<open>Deadlines on the statements\<close>

lemma sends_memory [sends_intros]:
  "sends P (get_lease h)" "sends P (update_lease h f)" "sends P (lease_register h)" "sends P (lease_unregister h)"
  "sends P (alloc_lease l)"
  by (auto simp: sends_def get_lease_def update_lease_def lease_register_def lease_unregister_def alloc_lease_def split: option.split)

lemma sends_lease_parts [sends_intros]:
  "sends P (conservativeRemaining a b c)" "sends P (newLease name epoch holder rem)" "sends P (fail_acquire ctx)"
  "sends P (loop_exit h)" "sends P (lose_and_exit h)" "sends P (renew_apply h r)"
  unfolding conservativeRemaining_def newLease_def fail_acquire_def leaseFailure_def loop_exit_def lose_and_exit_def renew_apply_def
  by (intro sends_intros)+

lemma sends_lease_rows [sends_intros]:
  assumes "deadline ctx \<noteq> None"
  shows "sends bounded_send (renewRow s ctx l)" "sends bounded_send (releaseRow s ctx l)" "sends bounded_send (observe s ctx l)"
    "sends bounded_send (resolveRelease s l)" "sends bounded_send (resolveAcquire s name epoch holder)"
  unfolding renewRow_def renewTx_def releaseRow_def releaseTx_def observe_def resolveRelease_def resolveAcquire_def acquireVerdict_def
  using assms by (intro sends_intros; simp)+

text \<open>
  Every statement a lease operation sends is sent under a context with a deadline: those of
  \<open>Acquire\<close> and \<open>Release\<close> and their rereads, and those of the renewal goroutine, whose contexts
  end at the lease's own deadline.
\<close>

lemma lease_statements_bounded:
  "sends bounded_send (lease_Acquire vn s token c name) \<and> sends bounded_send (lease_Release s c h) \<and>
   sends bounded_send (renew_attempt s h t)"
  unfolding lease_Acquire_def acquireTx_def takeLease_def lease_Release_def renew_attempt_def
  by (intro conjI; (rule sends_operation)?; (intro sends_intros; simp))

section \<open>The properties on concrete runs\<close>

definition demo_leaser :: lease_store where
  "demo_leaser = lease_New ''s'' ''p_'' (15 * second) (5 * second) []"

definition demo_acquire :: "database \<Rightarrow> event list \<Rightarrow> nat result \<times> lease_world" where
  "demo_acquire d es = run_state (lease_Acquire (\<lambda>_. None) demo_leaser (Some ''tok'') (Some Background) ''l'') (lease_start d es)"

definition demo_leases :: database where
  "demo_leases = empty_database\<lparr>t_leases := fmupd ''l'' \<lparr>l_epoch = 4, l_holder = Some ''x'', l_expires_at = Some second, l_revision = 9\<rparr> fmempty\<rparr>"

text \<open>The same row, expired.\<close>

definition demo_free :: database where
  "demo_free = empty_database\<lparr>t_leases := fmupd ''l'' \<lparr>l_epoch = 4, l_holder = Some ''x'', l_expires_at = Some 0, l_revision = 9\<rparr> fmempty\<rparr>"

lemmas lease_eval = lease_Acquire_def acquireTx_def takeLease_def Bound_run BeginTx_def SetLocalTimeouts_def set_timeouts_stmt_def
  tx_Exec_def tx_QueryRow_def tx_run_def tx_Commit_def tx_base_def new_locks_def lease_writes Let_def
  newLease_def alloc_lease_def lease_register_def scan_int64_def unexpired_def
  max_int64_def advance_def held_locks_def demo_leaser_def lease_New_def Background_def WithDeadline_def
  demo_leases_def demo_free_def empty_database_def lease_start_def fresh_lease_row_def second_def millisecond_def Milliseconds_def

lemma demo_acquire_runs:
  "fst (demo_acquire empty_database []) = Inr 0"
  "t_leases (db (snd (demo_acquire empty_database []))) = fmupd ''l'' \<lparr>l_epoch = 1, l_holder = Some ''tok'', l_expires_at = Some (15 * second), l_revision = 1\<rparr> fmempty"
  "fst (demo_acquire demo_free []) = Inr 0"
  "fst (demo_acquire demo_leases []) = Inl (LeaseHeld ''l'' 4)"
  by (simp_all add: demo_acquire_def lease_eval lease_columns_def lease_scan_def holder_cell_def time_cell_def scan_bytes_def
      scan_time_opt_def scan_time_def del: lease_scan_columns)

lemma demo_acquire_run:
  "run_state (lease_Acquire (\<lambda>_. None) demo_leaser (Some ''tok'') (Some Background) ''l'') (lease_start d es) =
     (fst (demo_acquire d es), snd (demo_acquire d es))"
  by (simp add: demo_acquire_def)



theorem lease_Acquire_held_witness:
  "\<exists>d \<in> set (states (lease_start demo_leases []) (snd (demo_acquire demo_leases []))).
     \<exists>row now. fmlookup (t_leases d) ''l'' = Some row \<and> held_at now row \<and> (4 :: u64) = word_of_int (l_epoch row)"
  using lease_Acquire_held [OF demo_acquire_run [of demo_leases "[]", unfolded demo_acquire_runs]] by simp

text \<open>A second process acquires the name later, when its row is at epoch 4 and expired.\<close>

theorem lease_fencing_witness:
  "le_epoch (the (fmlookup (objects (snd (demo_acquire empty_database []))) 0)) <
   le_epoch (the (fmlookup (objects (snd (demo_acquire demo_free []))) 0))"
proof (rule lease_fencing)
  show "run_state (lease_Acquire (\<lambda>_. None) demo_leaser (Some ''tok'') (Some Background) ''l'') (lease_start empty_database []) =
      (Inr 0, snd (demo_acquire empty_database []))"
    using demo_acquire_run [of empty_database "[]"] by (simp add: demo_acquire_runs)
  show "run_state (lease_Acquire (\<lambda>_. None) demo_leaser (Some ''tok'') (Some Background) ''l'') (lease_start demo_free []) =
      (Inr 0, snd (demo_acquire demo_free []))"
    using demo_acquire_run [of demo_free "[]"] by (simp add: demo_acquire_runs)
  show "lease_epoch ''l'' (db (snd (demo_acquire empty_database []))) \<le> lease_epoch ''l'' (db (lease_start demo_free []))"
    by (simp add: lease_epoch_def lease_row_of_def demo_acquire_runs demo_free_def)
qed (simp_all add: keeps_epoch_def)

lemma demo_reachable: "(lease_system demo_leaser)\<^sup>*\<^sup>* (lease_start empty_database []) (snd (demo_acquire empty_database []))"
  using lease_system.CallAcquire [of demo_leaser "lease_start empty_database []" "\<lambda>_. None" "Some ''tok''" "Some Background" "''l''"]
  by (auto simp: demo_acquire_def)

lemma demo_object:
  "\<exists>l. fmlookup (objects (snd (demo_acquire empty_database []))) 0 = Some l \<and> le_name l = ''l'' \<and> le_holder l = ''tok'' \<and>
     \<not> le_lost l \<and> \<not> le_releaseComplete l"
  by (simp add: demo_acquire_def lease_eval lease_columns_def lease_scan_def holder_cell_def time_cell_def scan_bytes_def
      scan_time_opt_def scan_time_def del: lease_scan_columns)


theorem lease_lost_final_witness:
  "\<exists>l''. fmlookup (objects (lease_Close (snd (demo_acquire empty_database [])))) 0 = Some l'' \<and> Lost l''"
proof -
  from demo_object obtain l where l: "fmlookup (objects (snd (demo_acquire empty_database []))) 0 = Some l" by blast
  from lease_lost_final [OF demo_reachable rtranclp.rtrancl_refl l] show ?thesis by blast
qed

text \<open>A process that holds the lease of the row, and a renewal in which the goroutine is paused for
  a second between the two clock readings.\<close>

definition demo_lease :: lease where
  "demo_lease = \<lparr>le_name = ''l'', le_epoch = 4, le_holder = ''x'', le_safeUntil = second, le_released = False,
     le_releaseComplete = False, le_lost = False, le_done = False, le_pc = Renewing second\<rparr>"

definition demo_holder :: "event list \<Rightarrow> lease_world" where
  "demo_holder es = (lease_start demo_leases es)\<lparr>objects := fmupd 0 demo_lease fmempty\<rparr>"

definition demo_pause :: "event list" where
  "demo_pause = [quiet, quiet, quiet, quiet, quiet, quiet, quiet\<lparr>ev_clock := second\<rparr>]"

definition demo_renew :: "duration result \<times> lease_world" where
  "demo_renew = run_state (renewRow demo_leaser (WithDeadline Background second) demo_lease) (demo_holder demo_pause)"

lemma demo_renew_run: "fst demo_renew = Inr (15 * second)"
  by (simp add: demo_renew_def renewRow_def renewTx_def lease_eval demo_holder_def demo_lease_def demo_pause_def conservativeRemaining_def)

theorem lease_deadline_exact_witness:
  "\<exists>row expires. fmlookup (t_leases (db (snd demo_renew))) ''l'' = Some row \<and> l_expires_at row = Some expires \<and>
     expires < le_safeUntil (the (fmlookup (objects (snd (run_state (renew_apply 0 (Inr (15 * second))) (snd demo_renew)))) 0))"
proof -
  have run: "run_state (renewRow demo_leaser (WithDeadline Background second) demo_lease) (demo_holder demo_pause) =
      (Inr (15 * second), snd demo_renew)"
    using demo_renew_run by (metis demo_renew_def prod.collapse)
  have "objects (snd demo_renew) = objects (demo_holder demo_pause)"
    using memory_run(1) [OF memory_rows(1) run] .
  then have obj: "fmlookup (objects (snd demo_renew)) 0 = Some demo_lease" by (simp add: demo_holder_def)
  have es: "script (demo_holder demo_pause) = quiet # quiet # quiet # quiet # quiet # quiet # (quiet\<lparr>ev_clock := second\<rparr>) # []"
    by (simp add: demo_holder_def demo_pause_def)
  have "txn (demo_holder demo_pause) = None" by (simp add: demo_holder_def)
  from lease_deadline_exact [OF run this es obj] show ?thesis
    by (auto simp: demo_lease_def second_def millisecond_def)
qed

definition demo_release :: "unit result \<times> lease_world" where
  "demo_release = run_state (lease_Release demo_leaser (Some Background) 0) (demo_holder [])"

theorem lease_Release_success_witness:
  "\<exists>d \<in> set (states (demo_holder []) (snd demo_release)). gone_or_expired demo_lease d"
proof (rule lease_Release_success)
  have "fst demo_release = Inr ()"
    by (simp add: demo_release_def lease_Release_def releaseRow_def releaseTx_def get_lease_def update_lease_def
        lease_unregister_def lease_eval demo_holder_def demo_lease_def)
  then show "run_state (lease_Release demo_leaser (Some Background) 0) (demo_holder []) = (Inr (), snd demo_release)"
    by (metis demo_release_def prod.collapse)
qed (simp_all add: demo_holder_def demo_lease_def)

end
