(* ===== verification/NetIP.thy ===== *)
theory NetIP
  imports Strconv
begin

text \<open>
  The parts of Go's \<open>strings\<close> and \<open>net\<close> packages that \<open>options.go\<close> calls: whether
  \<open>strings.TrimSpace\<close> leaves nothing, \<open>strings.EqualFold\<close> against a lower-case ASCII word,
  \<open>strings.Trim\<close> with a cut set, \<open>net.ParseIP\<close> and \<open>IP.IsLoopback\<close>, on byte strings.
\<close>

section \<open>Strings\<close>

text \<open>
  The UTF-8 encodings of the runes \<open>unicode.IsSpace\<close> accepts: one of them at the head of the
  string is cut off, an invalid encoding is not a space.
\<close>

fun trim_space_left :: "nat list \<Rightarrow> nat list" where
  "trim_space_left [] = []"
| "trim_space_left (a # s) =
     (if a \<in> {9, 10, 11, 12, 13, 32} then trim_space_left s
      else case s of
        [] \<Rightarrow> a # s
      | b # t \<Rightarrow>
          if a = 0xC2 \<and> (b = 0x85 \<or> b = 0xA0) then trim_space_left t
          else (case t of
            [] \<Rightarrow> a # s
          | c # u \<Rightarrow>
              if (a = 0xE1 \<and> b = 0x9A \<and> c = 0x80) \<or>
                 (a = 0xE2 \<and> b = 0x80 \<and> (0x80 \<le> c \<and> c \<le> 0x8A \<or> c = 0xA8 \<or> c = 0xA9 \<or> c = 0xAF)) \<or>
                 (a = 0xE2 \<and> b = 0x81 \<and> c = 0x9F) \<or> (a = 0xE3 \<and> b = 0x80 \<and> c = 0x80)
              then trim_space_left u else a # s))"

text \<open>\<open>strings.TrimSpace(s) == ""\<close>: nothing is left once the leading spaces are gone.\<close>

definition TrimSpace_empty :: "string \<Rightarrow> bool" where
  "TrimSpace_empty s \<longleftrightarrow> trim_space_left (map of_char s) = []"

text \<open>
  \<open>strings.EqualFold(s, t)\<close> for a lower-case ASCII \<open>t\<close> without \<open>k\<close>: each letter matches its two
  ASCII cases, and \<open>s\<close> also the long s (U+017F, bytes C5 BF), the only other rune in the fold
  orbits of such letters.
\<close>

fun EqualFold :: "string \<Rightarrow> string \<Rightarrow> bool" where
  "EqualFold [] t = (t = [])"
| "EqualFold (c # s) t = (case t of
     [] \<Rightarrow> False
   | x # t' \<Rightarrow>
       if c = x \<or> (CHR ''a'' \<le> x \<and> x \<le> CHR ''z'' \<and> (of_char c :: nat) + 32 = of_char x) then EqualFold s t'
       else (case s of [] \<Rightarrow> False
         | c' # s' \<Rightarrow> x = CHR ''s'' \<and> c = CHR 0xC5 \<and> c' = CHR 0xBF \<and> EqualFold s' t'))"

text \<open>\<open>strings.Trim(s, cutset)\<close> for an ASCII cut set.\<close>

definition Trim :: "string \<Rightarrow> string \<Rightarrow> string" where
  "Trim s cutset = rev (dropWhile (\<lambda>c. c \<in> set cutset) (rev (dropWhile (\<lambda>c. c \<in> set cutset) s)))"

section \<open>IP addresses\<close>

text \<open>
  \<open>parseIPv4Fields\<close>: \<open>edge\<close> says that the previous byte was a dot or that there is none,
  \<open>octets\<close> are the octets read so far.
\<close>

fun ipv4_fields :: "bool \<Rightarrow> nat \<Rightarrow> nat \<Rightarrow> nat list \<Rightarrow> string \<Rightarrow> nat list option" where
  "ipv4_fields edge val digLen octets [] = (if length octets < 3 then None else Some (octets @ [val]))"
| "ipv4_fields edge val digLen octets (c # s) =
     (case digit_value c of
        Some v \<Rightarrow>
          if digLen = 1 \<and> val = 0 then None
          else if val * 10 + v > 255 then None
          else ipv4_fields False (val * 10 + v) (digLen + 1) octets s
      | None \<Rightarrow>
          if c = CHR ''.''
          then if edge \<or> s = [] then None
               else if length octets = 3 then None
               else ipv4_fields True 0 0 (octets @ [val]) s
          else None)"

definition parseIPv4Fields :: "string \<Rightarrow> nat list option" where
  "parseIPv4Fields s = ipv4_fields True 0 0 [] s"

definition hex_value :: "char \<Rightarrow> nat option" where
  "hex_value c =
     (if CHR ''0'' \<le> c \<and> c \<le> CHR ''9'' then Some (of_char c - 48)
      else if CHR ''a'' \<le> c \<and> c \<le> CHR ''f'' then Some (of_char c - 87)
      else if CHR ''A'' \<le> c \<and> c \<le> CHR ''F'' then Some (of_char c - 55)
      else None)"

text \<open>The hex number of one group: the digits read, its value, and what follows.\<close>

fun hex_group :: "nat \<Rightarrow> nat \<Rightarrow> string \<Rightarrow> (nat \<times> nat \<times> string) option" where
  "hex_group off acc [] = Some (off, acc, [])"
| "hex_group off acc (c # s) =
     (case hex_value c of
        None \<Rightarrow> Some (off, acc, c # s)
      | Some v \<Rightarrow>
          if off > 3 then None
          else if acc * 16 + v > 65535 then None
          else hex_group (off + 1) (acc * 16 + v) s)"

text \<open>
  The loop of \<open>parseIPv6\<close>: \<open>ip\<close> are the bytes written so far (the code's \<open>i\<close> is their number),
  \<open>ellipsis\<close> the position of a \<open>::\<close> seen, \<open>None\<close> for -1.
\<close>

function ipv6_loop :: "nat list \<Rightarrow> nat option \<Rightarrow> string \<Rightarrow> (nat list \<times> nat option \<times> string) option" where
  "ipv6_loop ip ellipsis s =
     (if 16 \<le> length ip then Some (ip, ellipsis, s)
      else case hex_group 0 0 s of
        None \<Rightarrow> None
      | Some (off, acc, rest) \<Rightarrow>
          if off = 0 then None
          else if rest \<noteq> [] \<and> hd rest = CHR ''.''
          then if ellipsis = None \<and> length ip \<noteq> 12 then None
               else if length ip + 4 > 16 then None
               else map_option (\<lambda>octets. (ip @ octets, ellipsis, [])) (parseIPv4Fields s)
          else
           (let ip' = ip @ [acc div 256, acc mod 256] in
            case rest of
              [] \<Rightarrow> Some (ip', ellipsis, [])
            | c # t \<Rightarrow>
                if c \<noteq> CHR '':'' \<or> t = [] then None
                else if hd t = CHR '':''
                then if ellipsis \<noteq> None then None
                     else if tl t = [] then Some (ip', Some (length ip'), [])
                     else ipv6_loop ip' (Some (length ip')) (tl t)
                else ipv6_loop ip' ellipsis t))"
  by pat_completeness auto

termination
  by (relation "measure (\<lambda>(ip, _, _). 16 - length ip)") auto

declare ipv6_loop.simps [simp del]

definition ipv6_expand :: "nat list \<times> nat option \<times> string \<Rightarrow> nat list option" where
  "ipv6_expand r = (case r of (ip, ellipsis, s) \<Rightarrow>
     if s \<noteq> [] then None
     else if length ip < 16
     then map_option (\<lambda>e. take e ip @ replicate (16 - length ip) 0 @ drop e ip) ellipsis
     else if ellipsis \<noteq> None then None else Some ip)"

text \<open>\<open>parseIPv6\<close>, given that \<open>net.ParseIP\<close> refuses every address with a zone.\<close>

definition parseIPv6 :: "string \<Rightarrow> nat list option" where
  "parseIPv6 s =
     (if CHR ''%'' \<in> set s then None
      else if take 2 s = ''::''
      then if drop 2 s = [] then Some (replicate 16 0)
           else Option.bind (ipv6_loop [] (Some 0) (drop 2 s)) ipv6_expand
      else Option.bind (ipv6_loop [] None s) ipv6_expand)"

text \<open>\<open>net.ParseIP\<close>: the 16 bytes of the address, an IPv4 one in its IPv4-mapped form.\<close>

definition v4InV6 :: "nat list \<Rightarrow> nat list" where
  "v4InV6 octets = replicate 10 0 @ [255, 255] @ octets"

definition ParseIP :: "string \<Rightarrow> nat list option" where
  "ParseIP s = (case filter (\<lambda>c. c \<in> set ''.:%'') s of
     [] \<Rightarrow> None
   | c # _ \<Rightarrow>
       if c = CHR ''.'' then map_option v4InV6 (parseIPv4Fields s)
       else if c = CHR '':'' then parseIPv6 s
       else None)"

text \<open>\<open>IP.IsLoopback\<close>: 127.0.0.0/8 for an address with an IPv4 form, \<open>::1\<close> otherwise.\<close>

definition IsLoopback :: "nat list \<Rightarrow> bool" where
  "IsLoopback ip =
     (if take 12 ip = replicate 10 0 @ [255, 255] then ip ! 12 = 127
      else ip = replicate 15 0 @ [1])"

section \<open>Dotted quads\<close>

definition dotted :: "nat \<Rightarrow> nat \<Rightarrow> nat \<Rightarrow> nat \<Rightarrow> string" where
  "dotted a b c d = format_nat a @ ''.'' @ format_nat b @ ''.'' @ format_nat c @ ''.'' @ format_nat d"

lemma digit_value_dot [simp]: "digit_value (CHR ''.'') = None"
  by (simp add: digit_value_def)

lemma format_octet:
  assumes "a < 256"
  shows "format_nat a =
    (if a < 10 then [digit_char a]
     else if a < 100 then [digit_char (a div 10), digit_char (a mod 10)]
     else [digit_char (a div 100), digit_char (a div 10 mod 10), digit_char (a mod 10)])"
proof -
  have "a div 10 div 10 = a div 100" by (simp add: div_mult2_eq [symmetric])
  moreover have "a div 10 < 10 \<longleftrightarrow> a < 100" by auto
  moreover have "a div 100 < 10" using assms by auto
  ultimately show ?thesis
    by (auto simp: format_nat.simps [of a] format_nat.simps [of "a div 10"] format_nat.simps [of "a div 100"])
qed

text \<open>One octet is read whole.\<close>

lemma ipv4_fields_octet:
  assumes "a < 256"
  shows "ipv4_fields edge 0 0 octets (format_nat a @ s) = ipv4_fields False a (length (format_nat a)) octets s"
proof -
  consider "a < 10" | "10 \<le> a" "a < 100" | "100 \<le> a" by linarith
  then show ?thesis
  proof cases
    case 1
    with assms show ?thesis by (simp add: format_octet)
  next
    case 2
    then have "a div 10 < 10" "a div 10 \<noteq> 0" "a div 10 * 10 + a mod 10 = a" by auto
    with assms 2 show ?thesis by (auto simp: format_octet)
  next
    case 3
    then have "a div 100 < 10" "a div 100 \<noteq> 0" using assms by auto
    moreover have "a div 100 * 10 + a div 10 mod 10 = a div 10"
      using div_mult_mod_eq [of "a div 10" 10] by (simp add: div_mult2_eq [symmetric])
    moreover have "a div 10 * 10 + a mod 10 = a" "a div 10 < 256" using assms by auto
    ultimately show ?thesis
      using assms 3 by (simp add: format_octet add.commute)
  qed
qed

lemma ipv4_fields_dot:
  "s \<noteq> [] \<Longrightarrow> length octets < 3 \<Longrightarrow>
     ipv4_fields False v n octets (CHR ''.'' # s) = ipv4_fields True 0 0 (octets @ [v]) s"
  by simp

lemma parse_dotted:
  assumes "a < 256" "b < 256" "c < 256" "d < 256"
  shows "parseIPv4Fields (dotted a b c d) = Some [a, b, c, d]"
  using ipv4_fields_octet [of d _ _ "[]"] assms
  by (simp add: parseIPv4Fields_def dotted_def ipv4_fields_octet del: ipv4_fields.simps(2))
    (simp add: ipv4_fields_octet ipv4_fields_dot del: ipv4_fields.simps(2))

lemma format_nat_chars: "c \<in> set (format_nat n) \<Longrightarrow> (of_char c :: nat) \<in> {48..57}"
proof (induction n rule: format_nat.induct)
  case (1 n)
  show ?case
  proof (cases "n < 10")
    case True
    with 1(2) show ?thesis by (simp add: format_nat.simps [of n] digit_char_def)
  next
    case False
    with 1(2) have "c \<in> set (format_nat (n div 10)) \<or> c = digit_char (n mod 10)"
      by (simp add: format_nat.simps [of n] disj_commute)
    moreover have "(of_char (digit_char (n mod 10)) :: nat) = 48 + n mod 10" by (simp add: digit_char_def)
    ultimately show ?thesis using 1(1) False by auto
  qed
qed

lemma format_nat_no_separator: "c \<in> set (format_nat n) \<Longrightarrow> c \<notin> set ''.:%[]''"
  using format_nat_chars [of c n] by auto

lemma ParseIP_dotted:
  assumes "a < 256" "b < 256" "c < 256" "d < 256"
  shows "ParseIP (dotted a b c d) = Some (v4InV6 [a, b, c, d])"
proof -
  have no: "filter (\<lambda>c. c \<in> set ''.:%'') (format_nat n) = []" for n
    using format_nat_no_separator [of _ n] by (auto simp: filter_empty_conv)
  then have "filter (\<lambda>c. c \<in> set ''.:%'') (dotted a b c d) = ''...''"
    unfolding dotted_def filter_append no by simp
  with assms show ?thesis by (simp add: ParseIP_def parse_dotted)
qed

end
