(* ===== verification/Options.thy ===== *)
theory Options
  imports NetIP Guard
begin

text \<open>
  \<open>options.go\<close>: the caller's \<open>Options\<close>, what \<open>resolve\<close> checks and fills in, and the resolved
  options \<open>Open\<close> works with.  \<open>pgxpool.ParseConfig\<close> is third-party code and a parameter
  (\<open>None\<close> is its error); of its result the record \<open>pool_config\<close> has the fields the code reads or
  writes.  Durations are nanoseconds, \<open>MigrationMode\<close> is the \<open>uint8\<close> it is in Go.
\<close>

section \<open>Types and constants\<close>

type_synonym MigrationMode = "8 word"

definition MigrationValidate :: MigrationMode where "MigrationValidate = 0"

definition MigrationApply :: MigrationMode where "MigrationApply = 1"

definition MigrationDisabled :: MigrationMode where "MigrationDisabled = 2"

definition defaultMaxConns :: int where "defaultMaxConns = 10"

definition defaultSchema :: string where "defaultSchema = ''looprig''"

definition defaultTablePrefix :: string where "defaultTablePrefix = ''looprig_''"

definition defaultStatementTimeout :: duration where "defaultStatementTimeout = 30 * second"

definition defaultLockTimeout :: duration where "defaultLockTimeout = 5 * second"

definition defaultLeaseTTL :: duration where "defaultLeaseTTL = 15 * second"

definition defaultLeaseRenewInterval :: duration where "defaultLeaseRenewInterval = 5 * second"

definition maxPostgresIdentifierBytes :: nat where "maxPostgresIdentifierBytes = 63"

definition maxTableSuffixBytes :: nat where "maxTableSuffixBytes = 23"

definition maxTablePrefixBytes :: nat where
  "maxTablePrefixBytes = maxPostgresIdentifierBytes - maxTableSuffixBytes"

record options =
  opt_DSN :: string
  opt_MinConns :: int
  opt_MaxConns :: int
  opt_Schema :: string
  opt_TablePrefix :: string
  opt_StatementTimeout :: duration
  opt_LockTimeout :: duration
  opt_LeaseTTL :: duration
  opt_LeaseRenewInterval :: duration
  opt_Migrations :: MigrationMode
  opt_DefaultOperationTimeout :: duration
  opt_AllowInsecureLocalhostOnly :: bool

datatype query_exec_mode =
    QueryExecModeCacheStatement
  | QueryExecModeCacheDescribe
  | QueryExecModeDescribeExec
  | QueryExecModeExec
  | QueryExecModeSimpleProtocol

text \<open>A \<open>*tls.Config\<close> is its \<open>InsecureSkipVerify\<close>, \<open>None\<close> a nil one.\<close>

record pool_config =
  pc_TLSConfig :: "bool option"
  pc_Host :: string
  pc_MinConns :: int
  pc_MaxConns :: int
  pc_RuntimeParams :: "(string, string) fmap"
  pc_DefaultQueryExecMode :: query_exec_mode

record resolved_options =
  ro_poolConfig :: pool_config
  ro_minConns :: int
  ro_maxConns :: int
  ro_schema :: string
  ro_tablePrefix :: string
  ro_statementTimeout :: duration
  ro_lockTimeout :: duration
  ro_leaseTTL :: duration
  ro_leaseRenewInterval :: duration
  ro_migrations :: MigrationMode
  ro_operationTimeout :: duration

section \<open>Checks\<close>

definition invalidOption :: "string \<Rightarrow> string \<Rightarrow> err" where
  "invalidOption field reason = OptionsError field reason"

definition validIdentifier :: "string \<Rightarrow> nat \<Rightarrow> bool" where
  "validIdentifier value maxBytes =
     (value \<noteq> [] \<and> length value \<le> maxBytes \<and> CHR ''a'' \<le> hd value \<and> hd value \<le> CHR ''z'' \<and>
      list_all (\<lambda>c. (CHR ''a'' \<le> c \<and> c \<le> CHR ''z'') \<or> (CHR ''0'' \<le> c \<and> c \<le> CHR ''9'') \<or> c = CHR ''_'') (tl value))"

definition resolveTimeout :: "string \<Rightarrow> duration \<Rightarrow> duration \<Rightarrow> duration result" where
  "resolveTimeout field requested fallback =
     (if requested < 0 then Inl (invalidOption field ''must be positive or zero for the default'')
      else if requested = 0 then Inr fallback
      else if requested < millisecond then Inl (invalidOption field ''must be at least one millisecond'')
      else Inr requested)"

definition isLoopbackHost :: "string \<Rightarrow> bool" where
  "isLoopbackHost host =
     (if EqualFold host ''localhost'' then True
      else case ParseIP (Trim host ''[]'') of None \<Rightarrow> False | Some ip \<Rightarrow> IsLoopback ip)"

definition validateTLS :: "pool_config \<Rightarrow> bool \<Rightarrow> unit result" where
  "validateTLS config allowInsecureLocal =
     (if pc_TLSConfig config = Some False then Inr ()
      else if allowInsecureLocal \<and> isLoopbackHost (pc_Host config) \<and> pc_TLSConfig config = None then Inr ()
      else Inl (invalidOption ''DSN''
        ''must require verified TLS; plaintext is allowed only for an explicitly enabled loopback test database''))"

text \<open>\<open>if value == "" { value = fallback }\<close>\<close>

definition or_default :: "string \<Rightarrow> string \<Rightarrow> string" where
  "or_default value fallback = (if value = [] then fallback else value)"

definition prefix_reason :: string where
  "prefix_reason = ''must be a lowercase identifier prefix of at most '' @ Itoa (int maxTablePrefixBytes) @
     '' bytes, leaving room for the longest table suffix within PostgreSQL's 63-byte identifier limit''"

text \<open>The timeouts, in the order of the code.\<close>

definition resolve_timeouts :: "options \<Rightarrow> (duration \<times> duration \<times> duration \<times> duration \<times> duration) result" where
  "resolve_timeouts opts =
     (case resolveTimeout ''StatementTimeout'' (opt_StatementTimeout opts) defaultStatementTimeout of
        Inl e \<Rightarrow> Inl e | Inr st \<Rightarrow>
      (case resolveTimeout ''LockTimeout'' (opt_LockTimeout opts) defaultLockTimeout of
        Inl e \<Rightarrow> Inl e | Inr lt \<Rightarrow>
      if lt > st then Inl (invalidOption ''LockTimeout'' ''must not exceed StatementTimeout'')
      else (case resolveTimeout ''LeaseTTL'' (opt_LeaseTTL opts) defaultLeaseTTL of
        Inl e \<Rightarrow> Inl e | Inr ttl \<Rightarrow>
      (case resolveTimeout ''LeaseRenewInterval'' (opt_LeaseRenewInterval opts) defaultLeaseRenewInterval of
        Inl e \<Rightarrow> Inl e | Inr renew \<Rightarrow>
      if renew \<ge> ttl then Inl (invalidOption ''LeaseRenewInterval'' ''must be shorter than LeaseTTL'')
      else (case resolveTimeout ''DefaultOperationTimeout'' (opt_DefaultOperationTimeout opts) DefaultOperationTimeout of
        Inl e \<Rightarrow> Inl e | Inr ot \<Rightarrow> Inr (st, lt, ttl, renew, ot))))))"

text \<open>What \<open>resolve\<close> writes into the parsed pool configuration.\<close>

definition adjust_pool :: "options \<Rightarrow> int \<Rightarrow> pool_config \<Rightarrow> pool_config" where
  "adjust_pool opts limit config = config\<lparr>pc_MinConns := opt_MinConns opts, pc_MaxConns := limit,
     pc_RuntimeParams := fmdrop ''lock_timeout'' (fmdrop ''statement_timeout'' (pc_RuntimeParams config)),
     pc_DefaultQueryExecMode := QueryExecModeExec\<rparr>"

definition resolve :: "(string \<Rightarrow> pool_config option) \<Rightarrow> options \<Rightarrow> resolved_options result" where
  "resolve ParseConfig opts =
     (if TrimSpace_empty (opt_DSN opts) then Inl (invalidOption ''DSN'' ''must be set'')
      else case ParseConfig (opt_DSN opts) of
        None \<Rightarrow> Inl (invalidOption ''DSN'' ''invalid PostgreSQL connection string'')
      | Some config \<Rightarrow>
     (case validateTLS config (opt_AllowInsecureLocalhostOnly opts) of Inl e \<Rightarrow> Inl e | Inr _ \<Rightarrow>
     if opt_MaxConns opts < 0 then Inl (invalidOption ''MaxConns'' ''must be positive or zero for the default'')
     else
      (let limit = (if opt_MaxConns opts = 0 then defaultMaxConns else opt_MaxConns opts) in
       if opt_MinConns opts < 0 then Inl (invalidOption ''MinConns'' ''must not be negative'')
       else if opt_MinConns opts > limit then Inl (invalidOption ''MinConns'' ''must not exceed MaxConns'')
       else
        (let sch = or_default (opt_Schema opts) defaultSchema in
         if \<not> validIdentifier sch maxPostgresIdentifierBytes
         then Inl (invalidOption ''Schema'' ''must be a lowercase PostgreSQL identifier of at most 63 bytes'')
         else
          (let prefix = or_default (opt_TablePrefix opts) defaultTablePrefix in
           if \<not> validIdentifier prefix maxTablePrefixBytes
           then Inl (invalidOption ''TablePrefix'' prefix_reason)
           else
           (case resolve_timeouts opts of Inl e \<Rightarrow> Inl e | Inr (st, lt, ttl, renew, ot) \<Rightarrow>
            if opt_Migrations opts > MigrationDisabled then Inl (invalidOption ''Migrations'' ''has an unknown mode'')
            else Inr \<lparr>ro_poolConfig = adjust_pool opts limit config, ro_minConns = opt_MinConns opts,
                   ro_maxConns = limit, ro_schema = sch, ro_tablePrefix = prefix,
                   ro_statementTimeout = st, ro_lockTimeout = lt, ro_leaseTTL = ttl, ro_leaseRenewInterval = renew,
                   ro_migrations = opt_Migrations opts, ro_operationTimeout = ot\<rparr>))))))"

section \<open>What is accepted\<close>

text \<open>The value an unset duration stands for.\<close>

definition effective :: "duration \<Rightarrow> duration \<Rightarrow> duration" where
  "effective requested fallback = (if requested = 0 then fallback else requested)"

text \<open>A connection is encrypted to a verified server, or goes to this host because the caller allowed it.\<close>

definition protected :: "bool \<Rightarrow> pool_config \<Rightarrow> bool" where
  "protected allowInsecureLocal config \<longleftrightarrow> pc_TLSConfig config = Some False \<or>
     (allowInsecureLocal \<and> isLoopbackHost (pc_Host config) \<and> pc_TLSConfig config = None)"

text \<open>The documented limits, on the values after the defaults are filled in.\<close>

definition acceptable :: "(string \<Rightarrow> pool_config option) \<Rightarrow> options \<Rightarrow> bool" where
  "acceptable ParseConfig opts \<longleftrightarrow>
     \<not> TrimSpace_empty (opt_DSN opts) \<and>
     (case ParseConfig (opt_DSN opts) of None \<Rightarrow> False
      | Some config \<Rightarrow> protected (opt_AllowInsecureLocalhostOnly opts) config) \<and>
     0 \<le> opt_MinConns opts \<and> 0 \<le> opt_MaxConns opts \<and>
     opt_MinConns opts \<le> effective (opt_MaxConns opts) defaultMaxConns \<and>
     validIdentifier (or_default (opt_Schema opts) defaultSchema) maxPostgresIdentifierBytes \<and>
     validIdentifier (or_default (opt_TablePrefix opts) defaultTablePrefix) maxTablePrefixBytes \<and>
     list_all (\<lambda>d. d = 0 \<or> millisecond \<le> d)
       [opt_StatementTimeout opts, opt_LockTimeout opts, opt_LeaseTTL opts, opt_LeaseRenewInterval opts,
        opt_DefaultOperationTimeout opts] \<and>
     effective (opt_LockTimeout opts) defaultLockTimeout \<le> effective (opt_StatementTimeout opts) defaultStatementTimeout \<and>
     effective (opt_LeaseRenewInterval opts) defaultLeaseRenewInterval < effective (opt_LeaseTTL opts) defaultLeaseTTL \<and>
     opt_Migrations opts \<in> {MigrationValidate, MigrationApply, MigrationDisabled}"

text \<open>Every error \<open>resolve\<close> can return; none depends on the connection string.\<close>

definition option_errors :: "err list" where
  "option_errors =
     map (OptionsError ''DSN'') [''must be set'', ''invalid PostgreSQL connection string'',
       ''must require verified TLS; plaintext is allowed only for an explicitly enabled loopback test database''] @
     [OptionsError ''MaxConns'' ''must be positive or zero for the default'',
      OptionsError ''MinConns'' ''must not be negative'', OptionsError ''MinConns'' ''must not exceed MaxConns'',
      OptionsError ''Schema'' ''must be a lowercase PostgreSQL identifier of at most 63 bytes'',
      OptionsError ''TablePrefix'' prefix_reason,
      OptionsError ''LockTimeout'' ''must not exceed StatementTimeout'',
      OptionsError ''LeaseRenewInterval'' ''must be shorter than LeaseTTL'',
      OptionsError ''Migrations'' ''has an unknown mode''] @
     concat (map (\<lambda>field. [OptionsError field ''must be positive or zero for the default'',
         OptionsError field ''must be at least one millisecond''])
       [''StatementTimeout'', ''LockTimeout'', ''LeaseTTL'', ''LeaseRenewInterval'', ''DefaultOperationTimeout''])"

lemma second_millisecond [simp]: "millisecond \<le> n * second \<longleftrightarrow> 1 \<le> n"
  by (auto simp: second_def millisecond_def)

lemmas option_defaults = defaultStatementTimeout_def defaultLockTimeout_def defaultLeaseTTL_def
  defaultLeaseRenewInterval_def DefaultOperationTimeout_def

lemma resolveTimeout_cases:
  "resolveTimeout field requested fallback =
     (if requested = 0 \<or> millisecond \<le> requested then Inr (effective requested fallback)
      else if requested < 0 then Inl (OptionsError field ''must be positive or zero for the default'')
      else Inl (OptionsError field ''must be at least one millisecond''))"
  by (auto simp: resolveTimeout_def effective_def invalidOption_def millisecond_def)

text \<open>A chain of checks succeeds if all do, and fails with the error of one of them.\<close>

lemma checked_Inr:
  "(case a of Inl e \<Rightarrow> Inl e | Inr x \<Rightarrow> f x) = Inr y \<longleftrightarrow> (\<exists>x. a = Inr x \<and> f x = Inr y)"
  "(if c then Inl e else m) = Inr y \<longleftrightarrow> \<not> c \<and> m = Inr y"
  by (auto split: sum.split)

lemma checked_Inl:
  "(case a of Inl e \<Rightarrow> Inl e | Inr x \<Rightarrow> f x) = Inl e' \<longleftrightarrow> a = Inl e' \<or> (\<exists>x. a = Inr x \<and> f x = Inl e')"
  "(if c then Inl e else m) = Inl e' \<longleftrightarrow> (c \<and> e = e') \<or> (\<not> c \<and> m = Inl e')"
  by (auto split: sum.split)

lemma resolveTimeout_Inr:
  "resolveTimeout field requested fallback = Inr d \<longleftrightarrow>
     (requested = 0 \<or> millisecond \<le> requested) \<and> d = effective requested fallback"
  by (auto simp: resolveTimeout_cases)

lemma resolve_timeouts_Inr:
  "resolve_timeouts opts = Inr (st, lt, ttl, renew, ot) \<longleftrightarrow>
     list_all (\<lambda>d. d = 0 \<or> millisecond \<le> d)
       [opt_StatementTimeout opts, opt_LockTimeout opts, opt_LeaseTTL opts, opt_LeaseRenewInterval opts,
        opt_DefaultOperationTimeout opts] \<and>
     st = effective (opt_StatementTimeout opts) defaultStatementTimeout \<and>
     lt = effective (opt_LockTimeout opts) defaultLockTimeout \<and>
     ttl = effective (opt_LeaseTTL opts) defaultLeaseTTL \<and>
     renew = effective (opt_LeaseRenewInterval opts) defaultLeaseRenewInterval \<and>
     ot = effective (opt_DefaultOperationTimeout opts) DefaultOperationTimeout \<and> lt \<le> st \<and> renew < ttl"
  by (simp add: resolve_timeouts_def checked_Inr resolveTimeout_Inr) (simp add: not_less not_le, blast)

lemma option_errors_DSN [simp]:
  "invalidOption ''DSN'' ''must be set'' \<in> set option_errors"
  "invalidOption ''DSN'' ''invalid PostgreSQL connection string'' \<in> set option_errors"
  "invalidOption ''DSN''
     ''must require verified TLS; plaintext is allowed only for an explicitly enabled loopback test database''
     \<in> set option_errors"
  by (simp_all add: option_errors_def invalidOption_def)

lemma option_errors_limits [simp]:
  "invalidOption ''MaxConns'' ''must be positive or zero for the default'' \<in> set option_errors"
  "invalidOption ''MinConns'' ''must not be negative'' \<in> set option_errors"
  "invalidOption ''MinConns'' ''must not exceed MaxConns'' \<in> set option_errors"
  "invalidOption ''Schema'' ''must be a lowercase PostgreSQL identifier of at most 63 bytes'' \<in> set option_errors"
  "invalidOption ''TablePrefix'' prefix_reason \<in> set option_errors"
  "invalidOption ''LockTimeout'' ''must not exceed StatementTimeout'' \<in> set option_errors"
  "invalidOption ''LeaseRenewInterval'' ''must be shorter than LeaseTTL'' \<in> set option_errors"
  "invalidOption ''Migrations'' ''has an unknown mode'' \<in> set option_errors"
  by (simp_all add: option_errors_def invalidOption_def)

definition timeout_fields :: "string list" where
  "timeout_fields = [''StatementTimeout'', ''LockTimeout'', ''LeaseTTL'', ''LeaseRenewInterval'', ''DefaultOperationTimeout'']"

lemma timeout_field [simp]:
  "''StatementTimeout'' \<in> set timeout_fields" "''LockTimeout'' \<in> set timeout_fields"
  "''LeaseTTL'' \<in> set timeout_fields" "''LeaseRenewInterval'' \<in> set timeout_fields"
  "''DefaultOperationTimeout'' \<in> set timeout_fields"
  by (simp_all add: timeout_fields_def)

lemma resolveTimeout_Inl:
  assumes "resolveTimeout field requested fallback = Inl e" and "field \<in> set timeout_fields"
  shows "e \<in> set option_errors"
proof -
  have "e = OptionsError field ''must be positive or zero for the default'' \<or>
      e = OptionsError field ''must be at least one millisecond''"
    using assms(1) by (simp add: resolveTimeout_cases split: if_splits)
  with assms(2) show ?thesis unfolding option_errors_def timeout_fields_def by (elim disjE) force+
qed

lemma resolve_timeouts_Inl:
  assumes "resolve_timeouts opts = Inl e"
  shows "e \<in> set option_errors"
proof -
  note errs = resolveTimeout_Inl [OF _ timeout_field(1)] resolveTimeout_Inl [OF _ timeout_field(2)]
    resolveTimeout_Inl [OF _ timeout_field(3)] resolveTimeout_Inl [OF _ timeout_field(4)]
    resolveTimeout_Inl [OF _ timeout_field(5)]
  from assms show ?thesis
    unfolding resolve_timeouts_def checked_Inl by (elim disjE exE conjE) (auto dest: errs simp: sum.distinct)
qed

lemma validateTLS_Inr: "validateTLS config allow = Inr () \<longleftrightarrow> protected allow config"
  by (auto simp: validateTLS_def protected_def)

lemma validateTLS_Inl: "validateTLS config allow = Inl e \<Longrightarrow> e \<in> set option_errors"
  by (auto simp: validateTLS_def option_errors_def invalidOption_def split: if_splits)

lemma known_mode: "\<not> m > MigrationDisabled \<longleftrightarrow> m \<in> {MigrationValidate, MigrationApply, MigrationDisabled}"
proof -
  have "m \<le> 2 \<longleftrightarrow> m = 0 \<or> m = 1 \<or> m = 2"
    by (simp add: word_le_nat_alt word_unat_eq_iff) linarith
  then show ?thesis
    by (auto simp: MigrationValidate_def MigrationApply_def MigrationDisabled_def not_less)
qed

lemma resolve_Inl:
  assumes "resolve p opts = Inl e"
  shows "e \<in> set option_errors"
proof (cases "p (opt_DSN opts)")
  case None
  with assms show ?thesis by (auto simp: resolve_def checked_Inl)
next
  case (Some c)
  with assms show ?thesis
    unfolding resolve_def Let_def
    by (simp only: option.case checked_Inl) (auto dest: validateTLS_Inl resolve_timeouts_Inl simp: checked_Inl split: prod.splits)
qed

text \<open>\<open>resolve\<close> in one piece.\<close>

lemma resolve_acceptable:
  assumes "acceptable p opts"
  shows "resolve p opts = Inr
    \<lparr>ro_poolConfig = adjust_pool opts (effective (opt_MaxConns opts) defaultMaxConns) (the (p (opt_DSN opts))),
     ro_minConns = opt_MinConns opts, ro_maxConns = effective (opt_MaxConns opts) defaultMaxConns,
     ro_schema = or_default (opt_Schema opts) defaultSchema,
     ro_tablePrefix = or_default (opt_TablePrefix opts) defaultTablePrefix,
     ro_statementTimeout = effective (opt_StatementTimeout opts) defaultStatementTimeout,
     ro_lockTimeout = effective (opt_LockTimeout opts) defaultLockTimeout,
     ro_leaseTTL = effective (opt_LeaseTTL opts) defaultLeaseTTL,
     ro_leaseRenewInterval = effective (opt_LeaseRenewInterval opts) defaultLeaseRenewInterval,
     ro_migrations = opt_Migrations opts,
     ro_operationTimeout = effective (opt_DefaultOperationTimeout opts) DefaultOperationTimeout\<rparr>"
proof -
  from assms obtain c where c: "p (opt_DSN opts) = Some c" "validateTLS c (opt_AllowInsecureLocalhostOnly opts) = Inr ()"
    unfolding acceptable_def validateTLS_Inr by (cases "p (opt_DSN opts)") auto
  have t: "resolve_timeouts opts = Inr (effective (opt_StatementTimeout opts) defaultStatementTimeout,
      effective (opt_LockTimeout opts) defaultLockTimeout, effective (opt_LeaseTTL opts) defaultLeaseTTL,
      effective (opt_LeaseRenewInterval opts) defaultLeaseRenewInterval,
      effective (opt_DefaultOperationTimeout opts) DefaultOperationTimeout)"
    using assms unfolding acceptable_def resolve_timeouts_Inr by blast
  have m: "\<not> opt_Migrations opts > MigrationDisabled"
    using assms unfolding acceptable_def known_mode by blast
  show ?thesis
    using assms m unfolding acceptable_def by (simp add: resolve_def Let_def c t effective_def)
qed

lemma resolve_refuses:
  assumes "resolve p opts = Inr r"
  shows "acceptable p opts"
proof -
  obtain c where c: "p (opt_DSN opts) = Some c" using assms
    by (cases "p (opt_DSN opts)") (auto simp: resolve_def split: if_splits)
  obtain st lt ttl renew ot where t: "resolve_timeouts opts = Inr (st, lt, ttl, renew, ot)"
    using assms c by (cases "resolve_timeouts opts") (auto simp: resolve_def Let_def checked_Inr)
  have v: "validateTLS c (opt_AllowInsecureLocalhostOnly opts) = Inr ()"
    using assms c by (cases "validateTLS c (opt_AllowInsecureLocalhostOnly opts)") (auto simp: resolve_def split: if_splits)
  have rest: "\<not> TrimSpace_empty (opt_DSN opts) \<and> 0 \<le> opt_MinConns opts \<and> 0 \<le> opt_MaxConns opts \<and>
      opt_MinConns opts \<le> effective (opt_MaxConns opts) defaultMaxConns \<and>
      validIdentifier (or_default (opt_Schema opts) defaultSchema) maxPostgresIdentifierBytes \<and>
      validIdentifier (or_default (opt_TablePrefix opts) defaultTablePrefix) maxTablePrefixBytes \<and>
      \<not> opt_Migrations opts > MigrationDisabled"
    using assms by (simp add: resolve_def Let_def c t v effective_def split: if_splits)
  with c v t [unfolded resolve_timeouts_Inr] show ?thesis
    unfolding acceptable_def validateTLS_Inr known_mode by simp
qed

section \<open>Properties\<close>

lemma resolve_limits:
  assumes "resolve p opts = Inr r"
  shows "protected (opt_AllowInsecureLocalhostOnly opts) (ro_poolConfig r)"
    and "0 \<le> ro_minConns r \<and> ro_minConns r \<le> ro_maxConns r \<and> 0 < ro_maxConns r"
    and "pc_MinConns (ro_poolConfig r) = ro_minConns r \<and> pc_MaxConns (ro_poolConfig r) = ro_maxConns r"
    and "fmlookup (pc_RuntimeParams (ro_poolConfig r)) ''statement_timeout'' = None \<and>
      fmlookup (pc_RuntimeParams (ro_poolConfig r)) ''lock_timeout'' = None \<and>
      pc_DefaultQueryExecMode (ro_poolConfig r) = QueryExecModeExec"
    and "millisecond \<le> ro_lockTimeout r \<and> ro_lockTimeout r \<le> ro_statementTimeout r"
    and "millisecond \<le> ro_leaseRenewInterval r \<and> ro_leaseRenewInterval r < ro_leaseTTL r"
    and "millisecond \<le> ro_operationTimeout r"
    and "ro_migrations r \<in> {MigrationValidate, MigrationApply, MigrationDisabled}"
proof -
  have acc: "acceptable p opts" using assms by (rule resolve_refuses)
  note r = assms [unfolded resolve_acceptable [OF acc], simplified, symmetric]
  obtain c where c: "p (opt_DSN opts) = Some c" "protected (opt_AllowInsecureLocalhostOnly opts) c"
    using acc by (auto simp: acceptable_def split: option.splits)
  then show "protected (opt_AllowInsecureLocalhostOnly opts) (ro_poolConfig r)"
    by (simp add: r adjust_pool_def protected_def)
  show "pc_MinConns (ro_poolConfig r) = ro_minConns r \<and> pc_MaxConns (ro_poolConfig r) = ro_maxConns r"
    by (simp add: r adjust_pool_def)
  show "fmlookup (pc_RuntimeParams (ro_poolConfig r)) ''statement_timeout'' = None \<and>
      fmlookup (pc_RuntimeParams (ro_poolConfig r)) ''lock_timeout'' = None \<and>
      pc_DefaultQueryExecMode (ro_poolConfig r) = QueryExecModeExec"
    by (simp add: r adjust_pool_def)
qed (use resolve_refuses [OF assms] assms [unfolded resolve_acceptable [OF resolve_refuses [OF assms]], simplified, symmetric]
    in \<open>auto simp: acceptable_def effective_def option_defaults defaultMaxConns_def\<close>)



lemma EqualFold_localhost_head: "EqualFold s ''localhost'' \<Longrightarrow> hd s \<in> set ''lL''"
proof (cases s)
  case (Cons c t)
  assume "EqualFold s ''localhost''"
  then have "c = CHR ''l'' \<or> (of_char c :: nat) = of_char (CHR ''L'')"
    by (auto simp: Cons split: if_splits list.splits)
  then have "c = CHR ''l'' \<or> c = CHR ''L''" by (metis of_char_eq_iff)
  then show ?thesis by (auto simp: Cons)
qed simp

lemma format_nat_letters: "c \<in> set (format_nat n) \<Longrightarrow> c \<notin> set ''lL''"
  using format_nat_chars [of c n] by auto

lemma Trim_bracketed:
  assumes "s \<noteq> []" and "\<And>x. x \<in> set s \<Longrightarrow> x \<notin> set ''[]''"
  shows "Trim s ''[]'' = s \<and> Trim (''['' @ s @ '']'') ''[]'' = s"
proof -
  have stop: "dropWhile (\<lambda>c. c \<in> set ''[]'') (t @ u) = t @ u" if "t \<noteq> []" "set t \<subseteq> set s" for t u
    using that assms(2) [of "hd t"] by (cases t) auto
  from stop [of s "[]"] stop [of s "'']''"] stop [of "rev s" "[]"] assms(1) show ?thesis
    by (simp add: Trim_def)
qed

text \<open>
  Of the IPv4 addresses, in the notation with and without brackets, exactly those of the block
  127.0.0.0/8 count as loopback hosts.
\<close>

theorem isLoopbackHost_dotted:
  assumes "a < 256" "b < 256" "c < 256" "d < 256"
  shows "(isLoopbackHost (dotted a b c d) \<longleftrightarrow> a = 127) \<and>
    (isLoopbackHost (''['' @ dotted a b c d @ '']'') \<longleftrightarrow> a = 127)"
proof -
  have chars: "x \<notin> set ''[]''" if "x \<in> set (dotted a b c d)" for x
    using that format_nat_no_separator [of x] by (auto simp: dotted_def)
  have ne: "dotted a b c d \<noteq> []" by (simp add: dotted_def)
  have trim: "Trim (dotted a b c d) ''[]'' = dotted a b c d"
      "Trim (''['' @ dotted a b c d @ '']'') ''[]'' = dotted a b c d"
    using Trim_bracketed [OF ne chars] by auto
  have loop: "IsLoopback (v4InV6 [a, b, c, d]) \<longleftrightarrow> a = 127"
    by (simp add: IsLoopback_def v4InV6_def numeral_eq_Suc)
  have "hd (dotted a b c d) \<notin> set ''lL''"
    using format_nat_letters [of "hd (format_nat a)" a] by (cases "format_nat a") (auto simp: dotted_def)
  then have fold: "\<not> EqualFold (dotted a b c d) ''localhost''"
      "\<not> EqualFold (''['' @ dotted a b c d @ '']'') ''localhost''"
    using EqualFold_localhost_head [of "dotted a b c d"] EqualFold_localhost_head [of "''['' @ dotted a b c d @ '']''"]
    by auto
  have 1: "isLoopbackHost (dotted a b c d) \<longleftrightarrow> a = 127"
    unfolding isLoopbackHost_def trim ParseIP_dotted [OF assms] option.case loop using fold(1) by simp
  have 2: "isLoopbackHost (''['' @ dotted a b c d @ '']'') \<longleftrightarrow> a = 127"
    unfolding isLoopbackHost_def trim ParseIP_dotted [OF assms] option.case loop using fold(2) by presburger
  from 1 2 show ?thesis by blast
qed

section \<open>Instances\<close>

text \<open>A parser that reads a loopback host without TLS out of every string, and the zero options with it.\<close>

definition demo_config :: pool_config where
  "demo_config = \<lparr>pc_TLSConfig = None, pc_Host = ''127.0.0.1'', pc_MinConns = 0, pc_MaxConns = 4,
     pc_RuntimeParams = fmupd ''lock_timeout'' ''0'' fmempty, pc_DefaultQueryExecMode = QueryExecModeCacheStatement\<rparr>"

definition demo_options :: options where
  "demo_options = \<lparr>opt_DSN = ''host=127.0.0.1 sslmode=disable'', opt_MinConns = 2, opt_MaxConns = 0, opt_Schema = [],
     opt_TablePrefix = [], opt_StatementTimeout = 0, opt_LockTimeout = 0, opt_LeaseTTL = 0, opt_LeaseRenewInterval = 0,
     opt_Migrations = MigrationApply, opt_DefaultOperationTimeout = 0, opt_AllowInsecureLocalhostOnly = True\<rparr>"

definition demo_resolved :: resolved_options where
  "demo_resolved = \<lparr>ro_poolConfig = demo_config\<lparr>pc_MinConns := 2, pc_MaxConns := 10, pc_RuntimeParams := fmempty,
       pc_DefaultQueryExecMode := QueryExecModeExec\<rparr>,
     ro_minConns = 2, ro_maxConns = 10, ro_schema = ''looprig'', ro_tablePrefix = ''looprig_'',
     ro_statementTimeout = 30 * second, ro_lockTimeout = 5 * second, ro_leaseTTL = 15 * second,
     ro_leaseRenewInterval = 5 * second, ro_migrations = MigrationApply, ro_operationTimeout = 30 * second\<rparr>"

lemma demo_isLoopbackHost: "isLoopbackHost ''127.0.0.1''"
  by code_simp

lemma demo_TrimSpace: "\<not> TrimSpace_empty ''host=127.0.0.1 sslmode=disable''"
  by code_simp

lemma demo_identifiers: "validIdentifier ''looprig'' 63" "validIdentifier ''looprig_'' 40"
  by code_simp+

lemma demo_acceptable: "acceptable (\<lambda>_. Some demo_config) demo_options"
  by (simp add: acceptable_def demo_options_def demo_TrimSpace protected_def demo_config_def demo_isLoopbackHost
      effective_def or_default_def defaultMaxConns_def defaultSchema_def defaultTablePrefix_def demo_identifiers
      maxPostgresIdentifierBytes_def maxTablePrefixBytes_def maxTableSuffixBytes_def option_defaults second_def millisecond_def)

lemma demo_params:
  "fmdrop ''lock_timeout'' (fmdrop ''statement_timeout'' (fmupd ''lock_timeout'' x fmempty)) = fmempty"
  by (rule fmap_ext) simp

lemma demo_resolve: "resolve (\<lambda>_. Some demo_config) demo_options = Inr demo_resolved"
  unfolding resolve_acceptable [OF demo_acceptable]
  by (simp add: demo_options_def demo_resolved_def demo_config_def adjust_pool_def effective_def or_default_def
      defaultMaxConns_def defaultSchema_def defaultTablePrefix_def option_defaults demo_params)


theorem isLoopbackHost_dotted_witness:
  "isLoopbackHost (dotted 127 0 0 1) \<and> \<not> isLoopbackHost (''['' @ dotted 10 1 2 255 @ '']'')"
  using isLoopbackHost_dotted [of 127 0 0 1] isLoopbackHost_dotted [of 10 1 2 255] by simp

end
