(* ===== verification/Templates.thy ===== *)
theory Templates
  imports Main "HOL-Library.Multiset"
begin

text \<open>
  \<open>strings.ReplaceAll\<close> and what replacing several tokens one after the other does.  A template
  is text without an opening brace and tokens \<open>{{name}}\<close>.  If no value that is put in has an opening
  brace, a later replacement cannot touch it, and the result does not depend on the order.
\<close>

section \<open>Definitions\<close>

text \<open>\<open>strings.ReplaceAll(s, old, new)\<close> for a non-empty \<open>old\<close>.\<close>

fun ReplaceAll :: "string \<Rightarrow> string \<Rightarrow> string \<Rightarrow> string" where
  "ReplaceAll s old new =
     (if s = [] \<or> old = [] then s
      else if take (length old) s = old then new @ ReplaceAll (drop (length old) s) old new
      else hd s # ReplaceAll (tl s) old new)"

declare ReplaceAll.simps [simp del]

text \<open>A loop over a Go map of tokens and values; the order of the map is the order of the list.\<close>

definition substitute :: "(string \<times> string) list \<Rightarrow> string \<Rightarrow> string" where
  "substitute ordered statement = fold (\<lambda>(token, identifier) s. ReplaceAll s token identifier) ordered statement"

datatype segment = Lit string | Hole string

definition token :: "string \<Rightarrow> string" where
  "token n = ''{{'' @ n @ ''}}''"

primrec seg_text :: "segment \<Rightarrow> string" where
  "seg_text (Lit s) = s"
| "seg_text (Hole n) = token n"

definition template :: "segment list \<Rightarrow> string" where
  "template segs = concat (map seg_text segs)"

definition token_name :: "string \<Rightarrow> bool" where
  "token_name n = (n \<noteq> [] \<and> CHR ''{'' \<notin> set n \<and> CHR ''}'' \<notin> set n)"

primrec seg_ok :: "segment \<Rightarrow> bool" where
  "seg_ok (Lit s) = (CHR ''{'' \<notin> set s)"
| "seg_ok (Hole n) = token_name n"

primrec fill :: "(string \<Rightarrow> string option) \<Rightarrow> segment \<Rightarrow> segment" where
  "fill f (Lit s) = Lit s"
| "fill f (Hole n) = (case f n of None \<Rightarrow> Hole n | Some v \<Rightarrow> Lit v)"

text \<open>The segments of a text: literal text up to a double brace, then a name up to the closing one.\<close>

fun segments :: "bool \<Rightarrow> string \<Rightarrow> string \<Rightarrow> segment list" where
  "segments hole acc [] = [Lit (rev acc)]"
| "segments hole acc (c # s) =
     (if hole then (if c = CHR ''}'' then Hole (rev acc) # segments False [] (tl s) else segments True (c # acc) s)
      else if c = CHR ''{'' then Lit (rev acc) # segments True [] (tl s) else segments False (c # acc) s)"

definition segments_of :: "string \<Rightarrow> segment list" where
  "segments_of s = segments False [] s"

definition newline :: char where "newline = CHR 0x0A"

definition unlines :: "string list \<Rightarrow> string" where
  "unlines ls = concat (map (\<lambda>l. l @ [newline]) ls)"

definition line_segments :: "string list \<Rightarrow> segment list" where
  "line_segments ls = concat (map (\<lambda>l. segments_of l @ [Lit [newline]]) ls)"

lemma template_lines:
  assumes "list_all (\<lambda>l. template (segments_of l) = l \<and> list_all seg_ok (segments_of l)) ls"
  shows "template (line_segments ls) = unlines ls \<and> list_all seg_ok (line_segments ls)"
  using assms by (induction ls) (auto simp: template_def line_segments_def unlines_def newline_def)

section \<open>One replacement\<close>

lemma ReplaceAll_Nil [simp]: "ReplaceAll [] old new = []"
  by (simp add: ReplaceAll.simps)

lemma token_not_Nil [simp]: "token n \<noteq> []"
  by (simp add: token_def)

lemma ReplaceAll_match [simp]: "old \<noteq> [] \<Longrightarrow> ReplaceAll (old @ t) old new = new @ ReplaceAll t old new"
  by (simp add: ReplaceAll.simps [of "old @ t"])

lemma ReplaceAll_skip:
  "take (length old) (c # t) \<noteq> old \<Longrightarrow> ReplaceAll (c # t) old new = c # ReplaceAll t old new"
  by (auto simp: ReplaceAll.simps [of "c # t"])

lemma ReplaceAll_literal:
  "CHR ''{'' \<notin> set s \<Longrightarrow> ReplaceAll (s @ t) (token n) new = s @ ReplaceAll t (token n) new"
  by (induction s) (auto simp: ReplaceAll_skip token_def)

lemma token_head_unique:
  assumes "take (length (token n)) (token m @ t) = token n" and "token_name m" and "token_name n"
  shows "m = n"
proof -
  let ?f = "\<lambda>s. takeWhile (\<lambda>c. c \<noteq> CHR ''}'') (drop 2 s)"
  from assms(1) have "token m @ t = token n @ drop (length (token n)) (token m @ t)"
    by (metis append_take_drop_id)
  then have "?f (token m @ t) = ?f (token n @ drop (length (token n)) (token m @ t))"
    by (rule arg_cong)
  moreover have "?f (token k @ u) = k" if "token_name k" for k u
    using that by (auto simp: token_def token_name_def takeWhile_append2 takeWhile_tail)
  ultimately show ?thesis using assms(2,3) by metis
qed

lemma ReplaceAll_other:
  assumes "m \<noteq> n" and "token_name m" and "token_name n"
  shows "ReplaceAll (token m @ t) (token n) new = token m @ ReplaceAll t (token n) new"
proof -
  obtain c m' where m: "m = c # m'" "c \<noteq> CHR ''{''" "CHR ''{'' \<notin> set m'"
    using assms(2) by (cases m) (auto simp: token_name_def)
  let ?rest = "m @ ''}}'' @ t"
  have "take (length (token n)) (CHR ''{'' # CHR ''{'' # ?rest) \<noteq> token n"
    using token_head_unique [of n m t] assms by (auto simp: token_def)
  then have "ReplaceAll (token m @ t) (token n) new = CHR ''{'' # ReplaceAll (CHR ''{'' # ?rest) (token n) new"
    by (simp add: ReplaceAll_skip token_def)
  also have "ReplaceAll (CHR ''{'' # ?rest) (token n) new = CHR ''{'' # ReplaceAll ?rest (token n) new"
    using m by (intro ReplaceAll_skip) (auto simp: token_def)
  also have "ReplaceAll ?rest (token n) new = m @ ''}}'' @ ReplaceAll t (token n) new"
    using ReplaceAll_literal [of "m @ ''}}''" t n new] assms(2) by (simp add: token_name_def)
  finally show ?thesis by (simp add: token_def)
qed

lemma ReplaceAll_template:
  assumes "list_all seg_ok segs" and "token_name n"
  shows "ReplaceAll (template segs) (token n) v = template (map (fill [n \<mapsto> v]) segs)"
  using assms
proof (induction segs)
  case (Cons x segs)
  then show ?case
    by (cases x) (auto simp: template_def ReplaceAll_literal ReplaceAll_other)
qed (simp add: template_def)

section \<open>All replacements\<close>

lemma fill_ok: "seg_ok x \<Longrightarrow> CHR ''{'' \<notin> set v \<Longrightarrow> seg_ok (fill [n \<mapsto> v] x)"
  by (cases x) auto

lemma fill_fill: "fill f (fill [n \<mapsto> v] x) = fill (f(n \<mapsto> v)) x"
  by (cases x) auto

lemma substitute_template:
  assumes "list_all seg_ok segs" and "list_all (\<lambda>(n, v). token_name n \<and> CHR ''{'' \<notin> set v) xs"
  shows "substitute (map (\<lambda>(n, v). (token n, v)) xs) (template segs) = template (map (fill (map_of xs)) segs)"
  using assms
proof (induction xs arbitrary: segs)
  case Nil
  have "map (fill Map.empty) segs = segs" by (intro map_idI) (metis fill.simps option.case(1) segment.exhaust)
  then show ?case by (simp add: substitute_def)
next
  case (Cons x xs)
  obtain n v where x: "x = (n, v)" by (cases x)
  with Cons.prems have ok: "list_all seg_ok (map (fill [n \<mapsto> v]) segs)"
    by (auto simp: list_all_iff intro: fill_ok)
  from Cons.prems have "substitute (map (\<lambda>(n, v). (token n, v)) (x # xs)) (template segs) =
      substitute (map (\<lambda>(n, v). (token n, v)) xs) (template (map (fill [n \<mapsto> v]) segs))"
    by (simp add: substitute_def x ReplaceAll_template)
  moreover have "map_of (x # xs) = (map_of xs)(n \<mapsto> v)" by (auto simp: x)
  ultimately show ?case using Cons.IH [OF ok] Cons.prems by (simp only: map_map comp_def fill_fill list.pred_inject)
qed

text \<open>The order of the map does not matter.\<close>

lemma substitute_order:
  assumes "list_all seg_ok segs" and "list_all (\<lambda>(n, v). token_name n \<and> CHR ''{'' \<notin> set v) xs"
    and "distinct (map fst xs)" and "mset ordered = mset (map (\<lambda>(n, v). (token n, v)) xs)"
  shows "substitute ordered (template segs) = template (map (fill (map_of xs)) segs)"
proof -
  let ?tok = "\<lambda>(n, v :: string). (token n, v)" and ?untok = "\<lambda>(t, v :: string). (take (length t - 4) (drop 2 t), v)"
  let ?ys = "map ?untok ordered"
  have inv: "?untok (?tok x) = x" for x by (cases x) (simp add: token_def)
  have "mset ?ys = image_mset ?untok (mset (map ?tok xs))" by (simp add: assms(4))
  also have "\<dots> = mset (map (\<lambda>x. ?untok (?tok x)) xs)" by (simp add: image_mset.compositionality comp_def)
  finally have m: "mset ?ys = mset xs" by (simp only: inv map_ident)
  have "?tok (?untok y) = y" if "y \<in> set ordered" for y
  proof -
    from that assms(4) have "y \<in> ?tok ` set xs" by (metis set_mset_mset set_map)
    with inv show ?thesis by fastforce
  qed
  then have o: "ordered = map ?tok ?ys" by (simp add: map_idI)
  obtain ys where ys: "ordered = map ?tok ys" "mset ys = mset xs" using m o by blast
  from ys(2) have "set ys = set xs" by (metis set_mset_mset)
  moreover have "distinct (map fst ys)" using ys(2) assms(3) by (metis mset_eq_imp_distinct_iff mset_map)
  ultimately have "map_of ys = map_of xs" using assms(3) by (simp add: map_of_inject_set)
  with ys substitute_template [of segs ys] assms(1,2) \<open>set ys = set xs\<close> show ?thesis
    by (simp add: list_all_iff)
qed

end
