(* ===== verification/Migrations.thy ===== *)
theory Migrations
  imports Options Transaction Templates "HOL-Library.Sublist"
begin

text \<open>
  \<open>migrations.go\<close> and the embedded SQL files: the templates, the substitution of identifiers for
  tokens, and \<open>migrate\<close>, which brings the schema to the current version in one transaction.

  The statements that change the schema are kept in \<open>t_ddl\<close>, in the order they were committed; running one
  that is already there is an error (its relations exist).  The transaction-scoped advisory lock
  that serialises migration owners is the lock of that list.
\<close>

section \<open>The embedded files\<close>

definition lines_0001_ledger_kv :: "string list" where
  "lines_0001_ledger_kv = [
     ''CREATE TABLE {{schema}}.{{ledger_scopes}} ('',
     ''    name text PRIMARY KEY,'',
     ''    tip bigint NOT NULL CHECK (tip >= 0)'',
     '');'',
     [],
     ''CREATE TABLE {{schema}}.{{ledger_records}} ('',
     ''    name text NOT NULL REFERENCES {{schema}}.{{ledger_scopes}}(name) ON DELETE CASCADE,'',
     ''    seq bigint NOT NULL CHECK (seq > 0),'',
     ''    payload bytea NOT NULL,'',
     ''    PRIMARY KEY (name, seq)'',
     '');'',
     [],
     ''CREATE TABLE {{schema}}.{{kv}} ('',
     ''    key text PRIMARY KEY,'',
     ''    revision bigint NOT NULL CHECK (revision > 0),'',
     ''    value bytea NOT NULL'',
     '');'']"

definition lines_0002_leases :: "string list" where
  "lines_0002_leases = [
     ''CREATE TABLE {{schema}}.{{leases}} ('',
     ''    name text PRIMARY KEY,'',
     ''    epoch bigint NOT NULL CHECK (epoch >= 0),'',
     ''    holder bytea,'',
     ''    expires_at timestamptz,'',
     ''    revision bigint NOT NULL CHECK (revision >= 0),'',
     ''    CHECK ((holder IS NULL) = (expires_at IS NULL))'',
     '');'']"

definition lines_0003_ordered_index :: "string list" where
  "lines_0003_ordered_index = [
     ''CREATE TABLE {{schema}}.{{ordered_scopes}} ('',
     ''    namespace text COLLATE '' @ [CHR 0x22] @ ''C'' @ [CHR 0x22] @ '' NOT NULL,'',
     ''    ordering_scope text COLLATE '' @ [CHR 0x22] @ ''C'' @ [CHR 0x22] @ '' NOT NULL,'',
     ''    next_order numeric(20, 0) NOT NULL CHECK (next_order >= 0 AND next_order <= 18446744073709551615),'',
     ''    PRIMARY KEY (namespace, ordering_scope)'',
     '');'',
     [],
     ''CREATE TABLE {{schema}}.{{ordered_records}} ('',
     ''    namespace text COLLATE '' @ [CHR 0x22] @ ''C'' @ [CHR 0x22] @ '' NOT NULL,'',
     ''    ordering_scope text COLLATE '' @ [CHR 0x22] @ ''C'' @ [CHR 0x22] @ '' NOT NULL,'',
     ''    stable_key bytea NOT NULL,'',
     ''    ranking_scope text COLLATE '' @ [CHR 0x22] @ ''C'' @ [CHR 0x22] @ '' NOT NULL,'',
     ''    revision numeric(20, 0) NOT NULL CHECK (revision > 0 AND revision <= 18446744073709551615),'',
     ''    order_id numeric(20, 0) NOT NULL CHECK (order_id > 0 AND order_id <= 18446744073709551615),'',
     ''    value bytea NOT NULL CHECK (octet_length(value) <= 1048576),'',
     ''    value_is_nil boolean NOT NULL,'',
     ''    ranked boolean NOT NULL,'',
     ''    rank_value bigint NOT NULL,'',
     ''    due_state smallint NOT NULL,'',
     ''    due_at bigint NOT NULL,'',
     ''    deleted boolean NOT NULL DEFAULT false,'',
     ''    PRIMARY KEY (namespace, ordering_scope, stable_key),'',
     ''    CHECK ((due_state = 0 AND due_at = 0) OR due_state = 1),'',
     ''    CHECK (NOT deleted OR (NOT ranked AND due_state = 0 AND due_at = 0))'',
     '');'',
     [],
     ''CREATE INDEX {{ordered_order_idx}}'',
     ''    ON {{schema}}.{{ordered_records}} (namespace, ordering_scope, order_id, stable_key);'',
     [],
     ''CREATE INDEX {{ordered_rank_idx}}'',
     ''    ON {{schema}}.{{ordered_records}} (namespace, ranking_scope, rank_value DESC, stable_key DESC, ordering_scope DESC)'',
     ''    WHERE ranked AND NOT deleted;'',
     [],
     ''-- ListDue has no scope filter in Storage v0.6.0. The complete key after the'',
     ''-- namespace and canonical due-state discriminator is its released total order.'',
     ''CREATE INDEX {{ordered_due_idx}}'',
     ''    ON {{schema}}.{{ordered_records}} (namespace, due_state, due_at, stable_key, ordering_scope)'',
     ''    WHERE due_state = 1 AND NOT deleted;'']"

definition currentSchemaVersion :: int where "currentSchemaVersion = 3"

definition migration_lines :: "string list list" where
  "migration_lines = [lines_0001_ledger_kv, lines_0002_leases, lines_0003_ordered_index]"

definition migrationFiles :: "(string \<times> string) list" where
  "migrationFiles =
     zip [''migrations/0001_ledger_kv.sql'', ''migrations/0002_leases.sql'', ''migrations/0003_ordered_index.sql'']
       (map unlines migration_lines)"

section \<open>Go's string functions\<close>

definition TrimPrefix :: "string \<Rightarrow> string \<Rightarrow> string" where
  "TrimPrefix s p = (if take (length p) s = p then drop (length p) s else s)"

text \<open>The names \<open>migrations/[0-9][0-9][0-9][0-9]_*.sql\<close> matches.\<close>

definition migration_pattern :: "string \<Rightarrow> bool" where
  "migration_pattern path =
     (let name = drop (length ''migrations/'') path in
      prefix ''migrations/'' path \<and> list_all (\<lambda>c. digit_value c \<noteq> None) (take 4 name) \<and> take 1 (drop 4 name) = ''_'' \<and>
      suffix ''.sql'' (drop 5 name) \<and> CHR ''/'' \<notin> set name)"

definition Glob_migrations :: "string list" where
  "Glob_migrations = filter migration_pattern (map fst migrationFiles)"

section \<open>Substitution\<close>

definition replacements :: "string \<Rightarrow> string \<Rightarrow> (string \<times> string) list" where
  "replacements sch tp =
     (''{{schema}}'', QuoteIdentifier sch) #
     map (\<lambda>suffix. (''{{'' @ suffix @ ''}}'', QuoteIdentifier (tp @ suffix)))
       [''ledger_scopes'', ''ledger_records'', ''kv'', ''leases'', ''ordered_scopes'', ''ordered_records'',
        ''ordered_order_idx'', ''ordered_rank_idx'', ''ordered_due_idx'']"

section \<open>Statements\<close>

definition advisory_lock_stmt :: "string \<Rightarrow> statement" where
  "advisory_lock_stmt sch =
     locking_statement ''SELECT pg_advisory_xact_lock(hashtextextended($1, 0))'' [CText sch] DdlLog (\<lambda>_ _. Inr [])"

text \<open>\<open>CREATE ... IF NOT EXISTS\<close> and a migration, whose relations must not exist yet.\<close>

definition create_if_absent_stmt :: "string \<Rightarrow> statement" where
  "create_if_absent_stmt q =
     write_statement q [] [DdlLog] (\<lambda>_ d. (Inr [], if q \<in> set (t_ddl d) then [] else [WDdl q]))"

definition migration_stmt :: "string \<Rightarrow> statement" where
  "migration_stmt q =
     write_statement q [] [DdlLog]
       (\<lambda>_ d. if q \<in> set (t_ddl d) then (Inl (PgError ''42P07''), []) else (Inr [], [WDdl q]))"

definition create_schema_text :: "string \<Rightarrow> string" where
  "create_schema_text sch = ''CREATE SCHEMA IF NOT EXISTS '' @ QuoteIdentifier sch"

definition versionTable :: "string \<Rightarrow> string \<Rightarrow> string" where
  "versionTable sch tp = Qualified sch (tp @ ''schema_migrations'')"

definition create_versions_text :: "string \<Rightarrow> string \<Rightarrow> string" where
  "create_versions_text sch tp = ''CREATE TABLE IF NOT EXISTS '' @ versionTable sch tp @
     '' (version bigint PRIMARY KEY, applied_at timestamptz NOT NULL DEFAULT now())''"

definition max_version :: "int fset \<Rightarrow> int" where
  "max_version S = (case rev (sorted_list_of_fset S) of [] \<Rightarrow> 0 | v # _ \<Rightarrow> v)"

definition select_version_stmt :: "string \<Rightarrow> string \<Rightarrow> statement" where
  "select_version_stmt sch tp =
     read_statement (''SELECT COALESCE(MAX(version), 0) FROM '' @ versionTable sch tp) []
       (\<lambda>_ d. Inr [[CInt (max_version (t_schema_migrations d))]])"

definition insert_version_stmt :: "string \<Rightarrow> string \<Rightarrow> int \<Rightarrow> statement" where
  "insert_version_stmt sch tp n =
     write_statement (''INSERT INTO '' @ versionTable sch tp @ '' (version) VALUES ($1)'') [CInt n] [VersionRow n]
       (\<lambda>_ d. if n |\<in>| t_schema_migrations d then (Inl unique_violation, []) else (Inr [], [WVersion n]))"

definition scan_one_int64 :: "row \<Rightarrow> int result" where
  "scan_one_int64 r = (case r of [n] \<Rightarrow> scan_int64 n | _ \<Rightarrow> Inl DriverError)"

section \<open>The migration runner\<close>

definition migrationFailure :: "go_context \<Rightarrow> ('z world_scheme, 'a result) state" where
  "migrationFailure ctx = do {
     c \<leftarrow> ctx_Err ctx;
     State_Monad.return (Inl (case c of Some e \<Rightarrow> CtxError e | None \<Rightarrow> RedactedError ''schema migration'')) }"

definition commitMigration :: "go_context \<Rightarrow> ('z world_scheme, unit result) state" where
  "commitMigration ctx = do {
     r \<leftarrow> tx_Commit ctx;
     case r of Inl _ \<Rightarrow> migrationFailure ctx | Inr _ \<Rightarrow> State_Monad.return (Inr ()) }"

text \<open>
  The loop over the files.  Go's iteration order over the map of replacements is the parameter
  \<open>order\<close>: for the n-th migration the list in the order the runtime happens to take.
\<close>

type_synonym map_order = "int \<Rightarrow> (string \<times> string) list \<Rightarrow> (string \<times> string) list"

primrec apply_entries ::
  "map_order \<Rightarrow> go_context \<Rightarrow> string \<Rightarrow> string \<Rightarrow> string list \<Rightarrow> int \<Rightarrow> ('z world_scheme, int result) state" where
  "apply_entries order ctx sch tp [] version = State_Monad.return (Inr version)"
| "apply_entries order ctx sch tp (path # entries) version =
     (case Atoi (take 4 (TrimPrefix path ''migrations/'')) of
        None \<Rightarrow> apply_entries order ctx sch tp entries version
      | Some n \<Rightarrow>
          if n \<le> version then apply_entries order ctx sch tp entries version
          else if n \<noteq> version + 1
          then State_Monad.return (Inl (PlainError ''pgstore: embedded migrations are not monotonic''))
          else (case map_of migrationFiles path of
             None \<Rightarrow> State_Monad.return (Inl (PlainError ''pgstore: embedded migration unavailable''))
           | Some sql \<Rightarrow> do {
               e \<leftarrow> tx_Exec ctx (migration_stmt (substitute (order n (replacements sch tp)) sql));
               case e of Inl _ \<Rightarrow> migrationFailure ctx | Inr _ \<Rightarrow> do {
               i \<leftarrow> tx_Exec ctx (insert_version_stmt sch tp n);
               case i of Inl _ \<Rightarrow> migrationFailure ctx
               | Inr _ \<Rightarrow> apply_entries order ctx sch tp entries n } }))"

definition newer_error :: err where
  "newer_error = PlainError ''pgstore: database schema is newer than this pgstore build''"

definition version_error :: "int \<Rightarrow> err" where
  "version_error version =
     PlainError (''pgstore: database schema version '' @ Itoa version @ '', want '' @ Itoa currentSchemaVersion)"

text \<open>From the version read to the commit.\<close>

definition migrate_from ::
  "map_order \<Rightarrow> go_context \<Rightarrow> string \<Rightarrow> string \<Rightarrow> MigrationMode \<Rightarrow> int \<Rightarrow> ('z world_scheme, unit result) state" where
  "migrate_from order ctx sch tp mode version =
     (if version > currentSchemaVersion then State_Monad.return (Inl newer_error)
      else if mode = MigrationValidate
      then if version \<noteq> currentSchemaVersion then State_Monad.return (Inl (version_error version))
           else commitMigration ctx
      else do {
        r \<leftarrow> apply_entries order ctx sch tp (sort Glob_migrations) version;
        case r of Inl e \<Rightarrow> State_Monad.return (Inl e)
        | Inr reached \<Rightarrow>
            if reached \<noteq> currentSchemaVersion
            then State_Monad.return (Inl (PlainError ''pgstore: embedded migrations did not reach current version''))
            else commitMigration ctx })"

definition migrateTx ::
  "map_order \<Rightarrow> go_context \<Rightarrow> string \<Rightarrow> string \<Rightarrow> MigrationMode \<Rightarrow> duration \<Rightarrow> duration \<Rightarrow> ('z world_scheme, unit result) state" where
  "migrateTx order ctx sch tp mode st lt = do {
     t \<leftarrow> SetLocalTimeouts ctx st lt;
     case t of Inl _ \<Rightarrow> migrationFailure ctx | Inr _ \<Rightarrow> do {
     l \<leftarrow> tx_Exec ctx (advisory_lock_stmt sch);
     case l of Inl _ \<Rightarrow> migrationFailure ctx | Inr _ \<Rightarrow> do {
     s \<leftarrow> tx_Exec ctx (create_if_absent_stmt (create_schema_text sch));
     case s of Inl _ \<Rightarrow> migrationFailure ctx | Inr _ \<Rightarrow> do {
     v \<leftarrow> tx_Exec ctx (create_if_absent_stmt (create_versions_text sch tp));
     case v of Inl _ \<Rightarrow> migrationFailure ctx | Inr _ \<Rightarrow> do {
     q \<leftarrow> tx_QueryRow ctx (select_version_stmt sch tp);
     case scanned scan_one_int64 q of Inl _ \<Rightarrow> migrationFailure ctx
     | Inr version \<Rightarrow> migrate_from order ctx sch tp mode version } } } } }"

definition migrate ::
  "map_order \<Rightarrow> go_context \<Rightarrow> string \<Rightarrow> string \<Rightarrow> MigrationMode \<Rightarrow> duration \<Rightarrow> duration \<Rightarrow> ('z world_scheme, unit result) state" where
  "migrate order ctx sch tp mode st lt =
     (if mode = MigrationDisabled then State_Monad.return (Inr ())
      else do {
        b \<leftarrow> BeginTx ctx ReadCommitted;
        case b of Inl _ \<Rightarrow> migrationFailure ctx | Inr _ \<Rightarrow> do {
          r \<leftarrow> migrateTx order ctx sch tp mode st lt;
          Rollback;
          State_Monad.return r } })"

end
