(* ===== verification/MigrationProperties.thy ===== *)
theory MigrationProperties
  imports Migrations
begin

text \<open>
  What \<open>migrate\<close> guarantees.  The identifiers are put into the templates whatever order Go takes
  the map in; the migration commits at most once, from a version the database was at to the
  current one, all of it or nothing; in validate mode it commits nothing; and its errors are
  definite unless the acknowledgement of the commit was lost.
\<close>

section \<open>The rendered migrations\<close>

definition identifiers :: "string \<Rightarrow> string \<Rightarrow> (string \<times> string) list" where
  "identifiers sch tp =
     (''schema'', QuoteIdentifier sch) #
     map (\<lambda>suffix. (suffix, QuoteIdentifier (tp @ suffix)))
       [''ledger_scopes'', ''ledger_records'', ''kv'', ''leases'', ''ordered_scopes'', ''ordered_records'',
        ''ordered_order_idx'', ''ordered_rank_idx'', ''ordered_due_idx'']"

definition rendered :: "string \<Rightarrow> string \<Rightarrow> nat \<Rightarrow> string" where
  "rendered sch tp i = template (map (fill (map_of (identifiers sch tp))) (line_segments (migration_lines ! i)))"

text \<open>Whatever order the runtime takes the map in, it takes every entry once.\<close>

definition some_order :: "map_order \<Rightarrow> bool" where
  "some_order order \<longleftrightarrow> (\<forall>n xs. mset (order n xs) = mset xs)"

definition brace_free :: "string \<Rightarrow> bool" where
  "brace_free s \<longleftrightarrow> CHR ''{'' \<notin> set s"

lemma sql_templates:
  "list_all (\<lambda>l. template (segments_of l) = l \<and> list_all seg_ok (segments_of l)) lines_0001_ledger_kv"
  "list_all (\<lambda>l. template (segments_of l) = l \<and> list_all seg_ok (segments_of l)) lines_0002_leases"
  "list_all (\<lambda>l. template (segments_of l) = l \<and> list_all seg_ok (segments_of l)) lines_0003_ordered_index"
  by code_simp+

lemma migration_template:
  assumes "i < 3"
  shows "template (line_segments (migration_lines ! i)) = snd (migrationFiles ! i) \<and>
    list_all seg_ok (line_segments (migration_lines ! i))"
proof -
  from assms consider "i = 0" | "i = 1" | "i = 2" by linarith
  then show ?thesis
    using sql_templates [THEN template_lines] by cases (simp_all add: migrationFiles_def migration_lines_def)
qed

lemma replacements_tokens: "replacements sch tp = map (\<lambda>(n, v). (token n, v)) (identifiers sch tp)"
  by (simp add: replacements_def identifiers_def token_def)

lemma identifiers_distinct: "distinct (map fst (identifiers sch tp))"
  by (simp add: identifiers_def)

lemma double_quotes_brace: "CHR ''{'' \<notin> set (double_quotes s) \<longleftrightarrow> CHR ''{'' \<notin> set s"
  by (induction s) auto

lemma identifiers_ok:
  "brace_free sch \<Longrightarrow> brace_free tp \<Longrightarrow>
     list_all (\<lambda>(n, v). token_name n \<and> CHR ''{'' \<notin> set v) (identifiers sch tp)"
  by (simp add: identifiers_def token_name_def brace_free_def QuoteIdentifier_def double_quotes_brace)

lemma substitute_rendered:
  assumes "i < 3" and "some_order order" and "brace_free sch" and "brace_free tp"
  shows "substitute (order n (replacements sch tp)) (snd (migrationFiles ! i)) = rendered sch tp i"
proof -
  have "mset (order n (replacements sch tp)) = mset (map (\<lambda>(n, v). (token n, v)) (identifiers sch tp))"
    using assms(2) by (simp add: some_order_def replacements_tokens)
  from substitute_order [OF _ identifiers_ok [OF assms(3,4)] identifiers_distinct this] migration_template [OF assms(1)]
  have "substitute (order n (replacements sch tp)) (template (line_segments (migration_lines ! i))) =
      template (map (fill (map_of (identifiers sch tp))) (line_segments (migration_lines ! i)))"
    by blast
  then show ?thesis unfolding rendered_def using migration_template [OF assms(1)] by simp
qed

section \<open>The files\<close>

lemma sorted_entries: "sort Glob_migrations = map fst migrationFiles"
  by code_simp

lemma entry_number:
  assumes "i < 3"
  shows "Atoi (take 4 (TrimPrefix (fst (migrationFiles ! i)) ''migrations/'')) = Some (int i + 1)"
    and "map_of migrationFiles (fst (migrationFiles ! i)) = Some (snd (migrationFiles ! i))"
proof -
  from assms have i: "i = 0 \<or> i = 1 \<or> i = 2" by linarith
  have "Atoi (take 4 (TrimPrefix ''migrations/0001_ledger_kv.sql'' ''migrations/'')) = Some 1"
      "Atoi (take 4 (TrimPrefix ''migrations/0002_leases.sql'' ''migrations/'')) = Some 2"
      "Atoi (take 4 (TrimPrefix ''migrations/0003_ordered_index.sql'' ''migrations/'')) = Some 3"
    by code_simp+
  with i show "Atoi (take 4 (TrimPrefix (fst (migrationFiles ! i)) ''migrations/'')) = Some (int i + 1)"
    by (elim disjE) (simp_all add: migrationFiles_def migration_lines_def)
  from i show "map_of migrationFiles (fst (migrationFiles ! i)) = Some (snd (migrationFiles ! i))"
    by (elim disjE) (simp_all add: migrationFiles_def migration_lines_def)
qed

lemma entry_Cons: "i < 3 \<Longrightarrow> drop i (map fst migrationFiles) = fst (migrationFiles ! i) # drop (Suc i) (map fst migrationFiles)"
  by (simp add: migrationFiles_def migration_lines_def Cons_nth_drop_Suc [symmetric] nth_Cons')

text \<open>One round of the loop.\<close>

lemma apply_entries_step:
  assumes "i < 3"
  shows "apply_entries order ctx sch tp (drop i (map fst migrationFiles)) version =
    (if int i + 1 \<le> version then apply_entries order ctx sch tp (drop (Suc i) (map fst migrationFiles)) version
     else if int i + 1 \<noteq> version + 1
     then State_Monad.return (Inl (PlainError ''pgstore: embedded migrations are not monotonic''))
     else do {
       e \<leftarrow> tx_Exec ctx (migration_stmt (substitute (order (int i + 1) (replacements sch tp)) (snd (migrationFiles ! i))));
       case e of Inl _ \<Rightarrow> migrationFailure ctx | Inr _ \<Rightarrow> do {
       v \<leftarrow> tx_Exec ctx (insert_version_stmt sch tp (int i + 1));
       case v of Inl _ \<Rightarrow> migrationFailure ctx
       | Inr _ \<Rightarrow> apply_entries order ctx sch tp (drop (Suc i) (map fst migrationFiles)) (int i + 1) } })"
  unfolding entry_Cons [OF assms] using entry_number [OF assms] by simp

section \<open>Versions of the schema\<close>

text \<open>
  The database at version \<open>k\<close>: the version table holds 1 to \<open>k\<close>, and the schema was made by the
  first \<open>k\<close> migrations -- of which this build knows three, a newer one has made the rest.  A \<open>fresh\<close>
  database has not seen any.
\<close>

definition base_ddl :: "string \<Rightarrow> string \<Rightarrow> string list" where
  "base_ddl sch tp = [create_schema_text sch, create_versions_text sch tp]"

definition versions :: "nat \<Rightarrow> int fset" where
  "versions k = fset_of_list (map (\<lambda>i. int i + 1) [0..<k])"

definition migrated :: "string \<Rightarrow> string \<Rightarrow> nat \<Rightarrow> database \<Rightarrow> bool" where
  "migrated sch tp k d \<longleftrightarrow> t_schema_migrations d = versions k \<and>
     (\<exists>newer. t_ddl d = base_ddl sch tp @ map (rendered sch tp) [0..<min k 3] @ newer \<and> length newer = k - 3)"

definition fresh :: "database \<Rightarrow> bool" where
  "fresh d \<longleftrightarrow> t_schema_migrations d = {||} \<and> t_ddl d = []"

definition schema_ok :: "string \<Rightarrow> string \<Rightarrow> database \<Rightarrow> bool" where
  "schema_ok sch tp d \<longleftrightarrow> fresh d \<or> (\<exists>k. migrated sch tp k d)"

text \<open>The tables of the four stores are untouched.\<close>

definition same_data :: "database \<Rightarrow> database \<Rightarrow> bool" where
  "same_data d d' \<longleftrightarrow> t_kv d' = t_kv d \<and> t_ledger_scopes d' = t_ledger_scopes d \<and>
     t_ledger_records d' = t_ledger_records d \<and> t_leases d' = t_leases d \<and>
     t_ordered_scopes d' = t_ordered_scopes d \<and> t_ordered_records d' = t_ordered_records d"

text \<open>One migration: from an earlier version, or none, to the current one.\<close>

definition upgrade :: "string \<Rightarrow> string \<Rightarrow> database \<Rightarrow> database \<Rightarrow> bool" where
  "upgrade sch tp d d' \<longleftrightarrow> (fresh d \<or> (\<exists>k < 3. migrated sch tp k d)) \<and> migrated sch tp 3 d' \<and> same_data d d'"

lemma versions_Suc: "versions (Suc k) = finsert (int k + 1) (versions k)"
  by (auto simp: versions_def)

lemma versions_mem: "v |\<in>| versions k \<longleftrightarrow> 1 \<le> v \<and> v \<le> int k"
proof (induction k)
  case (Suc k)
  then show ?case by (auto simp: versions_Suc)
qed (simp add: versions_def)

lemma max_version_versions: "max_version (versions k) = int k"
proof -
  have "sorted_list_of_fset (versions k) = map (\<lambda>i. int i + 1) [0..<k]"
    unfolding versions_def sorted_list_of_fset.rep_eq fset_of_list.rep_eq
    by (rule sorted_distinct_set_unique) (auto simp: sorted_map distinct_map inj_on_def sorted_wrt_upt [THEN sorted_wrt_mono_rel [rotated]])
  then show ?thesis by (cases k) (simp_all add: max_version_def)
qed

lemma migrated_length: "migrated sch tp k d \<Longrightarrow> length (t_ddl d) = k + 2"
  by (auto simp: migrated_def base_ddl_def)

lemma fresh_not_migrated: "fresh d \<Longrightarrow> \<not> migrated sch tp k d"
  using migrated_length [of sch tp k d] by (auto simp: fresh_def)

text \<open>The list of schema changes determines the version.\<close>

lemma same_version:
  assumes "schema_ok sch tp d'" and "t_ddl d' = t_ddl d"
  shows "migrated sch tp k d \<Longrightarrow> migrated sch tp k d'" and "fresh d \<Longrightarrow> fresh d'"
proof -
  assume k: "migrated sch tp k d"
  have "\<not> fresh d'" using migrated_length [OF k] assms(2) by (auto simp: fresh_def)
  then obtain k' where k': "migrated sch tp k' d'" using assms(1) by (auto simp: schema_ok_def)
  with migrated_length [OF k] migrated_length [OF k'] assms(2) show "migrated sch tp k d'" by simp
next
  assume "fresh d"
  then show "fresh d'"
    using assms migrated_length [of sch tp _ d'] by (auto simp: schema_ok_def fresh_def)
qed

lemma same_data_trans: "same_data d d' \<Longrightarrow> same_data d' d'' \<Longrightarrow> same_data d d''"
  by (simp add: same_data_def)

section \<open>The transaction\<close>

text \<open>
  While the transaction is open: its writes, once applied to any database with the schema
  changes it found, give version \<open>k\<close> and leave the stores' tables alone.
\<close>

definition brings :: "string \<Rightarrow> string \<Rightarrow> string list \<Rightarrow> nat \<Rightarrow> row_write list \<Rightarrow> bool" where
  "brings sch tp L k ws \<longleftrightarrow> (\<forall>d. schema_ok sch tp d \<and> t_ddl d = L \<longrightarrow>
     migrated sch tp k (apply_writes ws d) \<and> same_data d (apply_writes ws d))"

text \<open>The transaction holds the lock, and every session keeps the schema in order.\<close>

definition migrating :: "string \<Rightarrow> string \<Rightarrow> string list \<Rightarrow> row_write list \<Rightarrow> 'z world_scheme \<Rightarrow> bool" where
  "migrating sch tp L ws w \<longleftrightarrow> (\<exists>ks. weak ws ks w \<and> DdlLog \<in> ks) \<and> t_ddl (db w) = L \<and>
     schema_ok sch tp (db w) \<and> keeps (schema_ok sch tp) (script w)"

interpretation upgrades: protocol "upgrade sch tp" "schema_ok sch tp" for sch tp
  by unfold_locales (auto simp: upgrade_def schema_ok_def)

lemma others_keep_schema:
  assumes "others_only w w'" and "schema_ok sch tp (db w)" and "keeps (schema_ok sch tp) (script w)"
  shows "schema_ok sch tp (db w') \<and> keeps (schema_ok sch tp) (script w')"
proof -
  from assms(1) obtain cs where cs: "evolves cs w w'" "\<forall>c \<in> set cs. \<not> by_us c" by (rule others_onlyE)
  have "schema_ok sch tp (post c)" if "c \<in> set cs" "schema_ok sch tp (pre c)" for c
    using cs that assms(3) unfolding evolves_def keeps_def by (fastforce simp: quiet_def)
  with cs(1) assms(2) have "schema_ok sch tp (db w')"
    using upgrades.chain_invariant [of "db w" cs "db w'" sch tp] by (auto simp: evolves_def)
  with cs(1) assms(3) show ?thesis by (auto simp: evolves_def keeps_def)
qed

lemma migration_answers [simp]:
  "answers (advisory_lock_stmt sch)" "answers (create_if_absent_stmt q)" "answers (migration_stmt q)"
  "answers (select_version_stmt sch tp)" "answers (insert_version_stmt sch tp n)"
  by (auto simp: answers_def advisory_lock_stmt_def create_if_absent_stmt_def migration_stmt_def
      select_version_stmt_def insert_version_stmt_def unique_violation_def)

lemma migrating_Exec_cases:
  assumes run: "run_state (tx_Exec ctx s) w = (r, w')" and m: "migrating sch tp L ws w" and "answers s"
  obtains (Failed) e where "r = Inl e" "others_only w w'"
  | (Done) now rows ws' where "r = Inr ()" "others_only w w'" "t_ddl (db w') = L" "schema_ok sch tp (db w')"
      "sql_sem s now (apply_writes ws (db w')) = (Inr rows, ws')" "migrating sch tp L (ws @ ws') w'"
proof -
  from m obtain ks where ks: "weak ws ks w" "DdlLog \<in> ks" by (auto simp: migrating_def)
  from run ks(1) \<open>answers s\<close> show thesis
  proof (cases rule: weak_Exec_cases)
    case (Failed e)
    then show thesis by (intro that(1)) auto
  next
    case (Done now rows ws')
    have "t_ddl (db w') = L" using Done(3) ks(2) m by (auto simp: migrating_def)
    moreover have "schema_ok sch tp (db w')" "keeps (schema_ok sch tp) (script w')"
      using others_keep_schema [OF Done(2)] m by (auto simp: migrating_def)
    ultimately have "migrating sch tp L (ws @ ws') w'" using Done(5) ks(2) by (auto simp: migrating_def)
    with Done \<open>t_ddl (db w') = L\<close> \<open>schema_ok sch tp (db w')\<close> show thesis by (intro that(2)) auto
  qed
qed

lemma migrating_Query_cases:
  assumes run: "run_state (tx_QueryRow ctx s) w = (r, w')" and m: "migrating sch tp L ws w" and "answers s"
  obtains (Failed) e where "r = Inl e" "others_only w w'"
  | (Done) now rows ws' where "r = first_row (Inr rows)" "others_only w w'" "t_ddl (db w') = L" "schema_ok sch tp (db w')"
      "sql_sem s now (apply_writes ws (db w')) = (Inr rows, ws')" "migrating sch tp L (ws @ ws') w'"
proof -
  from m obtain ks where ks: "weak ws ks w" "DdlLog \<in> ks" by (auto simp: migrating_def)
  from run ks(1) \<open>answers s\<close> show thesis
  proof (cases rule: weak_QueryRow_cases)
    case (Failed e)
    then show thesis by (intro that(1)) auto
  next
    case (Done now rows ws')
    have "t_ddl (db w') = L" using Done(3) ks(2) m by (auto simp: migrating_def)
    moreover have "schema_ok sch tp (db w')" "keeps (schema_ok sch tp) (script w')"
      using others_keep_schema [OF Done(2)] m by (auto simp: migrating_def)
    ultimately have "migrating sch tp L (ws @ ws') w'" using Done(5) ks(2) by (auto simp: migrating_def)
    with Done \<open>t_ddl (db w') = L\<close> \<open>schema_ok sch tp (db w')\<close> show thesis by (intro that(2)) auto
  qed
qed

text \<open>The errors of \<open>migrationFailure\<close>, which waits for nothing but \<open>ctx.Err()\<close>.\<close>

definition migration_error :: "err \<Rightarrow> bool" where
  "migration_error e \<longleftrightarrow> (\<exists>c. e = CtxError c) \<or> e = Redacted ''schema migration''"

lemma migrationFailure_run:
  assumes "run_state (migrationFailure ctx) w = (r, w')"
  obtains e where "r = Inl e" "migration_error e" "others_only w w'" "txn w' = txn w"
  using assms by (auto simp: migrationFailure_def ctx_Err_def migration_error_def RedactedError_def split: option.splits)

section \<open>The loop\<close>

text \<open>One migration and its version row.\<close>

lemma brings_next:
  assumes "brings sch tp L k ws" and "k < 3"
  shows "brings sch tp L (Suc k) (ws @ [WDdl (rendered sch tp k)] @ [WVersion (int k + 1)])"
  unfolding brings_def
proof (intro allI impI)
  fix d
  assume d: "schema_ok sch tp d \<and> t_ddl d = L"
  let ?d = "apply_writes ws d"
  from assms(1) d have "migrated sch tp k ?d" "same_data d ?d" by (auto simp: brings_def)
  with assms(2) show "migrated sch tp (Suc k) (apply_writes (ws @ [WDdl (rendered sch tp k)] @ [WVersion (int k + 1)]) d) \<and>
      same_data d (apply_writes (ws @ [WDdl (rendered sch tp k)] @ [WVersion (int k + 1)]) d)"
    by (auto simp: migrated_def same_data_def versions_Suc min_def)
qed

lemma migration_sem:
  "sql_sem (migration_stmt q) now d = (Inr rows, ws) \<Longrightarrow> ws = [WDdl q]"
  "sql_sem (insert_version_stmt sch tp n) now d = (Inr rows, ws) \<Longrightarrow> ws = [WVersion n]"
  by (auto simp: migration_stmt_def insert_version_stmt_def split: if_splits)

lemma apply_entries_cases:
  assumes order: "some_order order" "brace_free sch" "brace_free tp"
    and "i \<le> k" "k \<le> 3" "migrating sch tp L ws w" "brings sch tp L k ws"
    and "run_state (apply_entries order ctx sch tp (drop i (map fst migrationFiles)) (int k)) w = (r, w')"
  shows "(\<exists>e. r = Inl e \<and> migration_error e \<and> others_only w w') \<or>
    (\<exists>ws'. r = Inr 3 \<and> others_only w w' \<and> migrating sch tp L ws' w' \<and> brings sch tp L 3 ws' \<and> (k = 3 \<longrightarrow> ws' = ws))"
  using assms(4-)
proof (induction "3 - i" arbitrary: i k ws w)
  case 0
  then have "k = 3" "drop i (map fst migrationFiles) = []" by (auto simp: migrationFiles_def migration_lines_def)
  with 0 show ?case by auto
next
  case (Suc n)
  then have i: "i < 3" by simp
  note run = Suc.prems(5) [unfolded apply_entries_step [OF i]]
  show ?case
  proof (cases "i < k")
    case True
    with run have "run_state (apply_entries order ctx sch tp (drop (Suc i) (map fst migrationFiles)) (int k)) w = (r, w')"
      by simp
    with Suc.hyps(1) [of "Suc i" k ws w] Suc.hyps(2) Suc.prems True show ?thesis by simp
  next
    case False
    with Suc.prems have k: "k = i" by simp
    obtain e we where e: "run_state (tx_Exec ctx (migration_stmt (rendered sch tp i))) w = (e, we)" by (meson surj_pair)
    from e Suc.prems(3) migration_answers(3) show ?thesis
    proof (cases rule: migrating_Exec_cases)
      case (Failed x)
      with run e k substitute_rendered [OF i order] have "run_state (migrationFailure ctx) we = (r, w')" by simp
      with Failed(2) show ?thesis by (elim migrationFailure_run) (auto intro: others_only_trans)
    next
      case (Done now rows wse)
      then have wse: "wse = [WDdl (rendered sch tp i)]" by (auto dest: migration_sem)
      obtain v wv where v: "run_state (tx_Exec ctx (insert_version_stmt sch tp (int i + 1))) we = (v, wv)" by (meson surj_pair)
      from v Done(6) migration_answers(5) show ?thesis
      proof (cases rule: migrating_Exec_cases)
        case (Failed x)
        with run e v k Done(1) substitute_rendered [OF i order] have "run_state (migrationFailure ctx) wv = (r, w')" by simp
        with Failed(2) Done(2) show ?thesis by (elim migrationFailure_run) (auto intro: others_only_trans)
      next
        case v': (Done now' rows' wsv)
        then have wsv: "wsv = [WVersion (int i + 1)]" by (auto dest: migration_sem)
        let ?ws = "ws @ [WDdl (rendered sch tp i)] @ [WVersion (int i + 1)]"
        have "migrating sch tp L ?ws wv" using v'(6) by (simp add: wse wsv)
        moreover have "brings sch tp L (Suc i) ?ws" using brings_next [of sch tp L k ws] Suc.prems(4) k i by simp
        moreover have "run_state (apply_entries order ctx sch tp (drop (Suc i) (map fst migrationFiles)) (int (Suc i))) wv = (r, w')"
          using run e v k Done(1) v'(1) substitute_rendered [OF i order] by (simp add: add.commute)
        ultimately have "(\<exists>e. r = Inl e \<and> migration_error e \<and> others_only wv w') \<or>
            (\<exists>ws'. r = Inr 3 \<and> others_only wv w' \<and> migrating sch tp L ws' w' \<and> brings sch tp L 3 ws' \<and> (Suc i = 3 \<longrightarrow> ws' = ?ws))"
          using Suc.hyps(1) [of "Suc i" "Suc i" ?ws wv] Suc.hyps(2) i by simp
        moreover have "others_only w wv" using Done(2) v'(2) by (rule others_only_trans)
        ultimately show ?thesis using k i others_only_trans [of w wv w'] by blast
      qed
    qed
  qed
qed

section \<open>The outcome of a migration\<close>

text \<open>
  How a migration from the world \<open>w\<close> can end in \<open>w'\<close>: with a justified error and nothing committed; with
  success and nothing committed, the schema being current; or with one commit, the upgrade.
\<close>

definition justified :: "string \<Rightarrow> string \<Rightarrow> MigrationMode \<Rightarrow> err \<Rightarrow> database list \<Rightarrow> bool" where
  "justified sch tp mode e ds \<longleftrightarrow> migration_error e \<or>
     (e = newer_error \<and> (\<exists>k > 3. \<exists>d \<in> set ds. migrated sch tp k d)) \<or>
     (\<exists>k < 3. e = version_error (int k) \<and> mode = MigrationValidate \<and>
        (\<exists>d \<in> set ds. migrated sch tp k d \<or> (k = 0 \<and> fresh d)))"

definition migrate_outcome ::
  "string \<Rightarrow> string \<Rightarrow> MigrationMode \<Rightarrow> unit result \<Rightarrow> 'z world_scheme \<Rightarrow> 'z world_scheme \<Rightarrow> bool" where
  "migrate_outcome sch tp mode r w w' \<longleftrightarrow>
     (\<exists>e. r = Inl e \<and> others_only w w' \<and> justified sch tp mode e (states w w')) \<or>
     (r = Inr () \<and> others_only w w' \<and> (\<exists>d \<in> set (states w w'). migrated sch tp 3 d)) \<or>
     (mode \<noteq> MigrationValidate \<and> committed (upgrade sch tp) w w' \<and>
      (r = Inr () \<or> (\<exists>e. r = Inl e \<and> migration_error e \<and> \<not> reliable (script w))))"

lemma justified_mono: "justified sch tp mode e ds \<Longrightarrow> set ds \<subseteq> set ds' \<Longrightarrow> justified sch tp mode e ds'"
  unfolding justified_def by blast

lemma outcome_before:
  assumes "others_only w w1" and "migrate_outcome sch tp mode r w1 w'"
  shows "migrate_outcome sch tp mode r w w'"
proof -
  have later: "leads_to w1 w' \<Longrightarrow> set (states w1 w') \<subseteq> set (states w w')"
    using states_later [OF assms(1)] .
  have rel: "reliable (script w) \<Longrightarrow> reliable (script w1)"
    using assms(1) by (auto simp: others_only_def evolves_def reliable_def)
  from assms(2) consider (Error) e where "r = Inl e" "others_only w1 w'" "justified sch tp mode e (states w1 w')"
    | (Current) "r = Inr ()" "others_only w1 w'" "\<exists>d \<in> set (states w1 w'). migrated sch tp 3 d"
    | (Committed) "mode \<noteq> MigrationValidate" "committed (upgrade sch tp) w1 w'"
        "r = Inr () \<or> (\<exists>e. r = Inl e \<and> migration_error e \<and> \<not> reliable (script w1))"
    unfolding migrate_outcome_def by blast
  then show ?thesis
  proof cases
    case Error
    with later show ?thesis unfolding migrate_outcome_def
      using others_only_trans [OF assms(1)] justified_mono [of sch tp mode e "states w1 w'"] by blast
  next
    case Current
    with later show ?thesis unfolding migrate_outcome_def using others_only_trans [OF assms(1)] by blast
  next
    case Committed
    with rel show ?thesis unfolding migrate_outcome_def using committed_before [OF assms(1)] by blast
  qed
qed

lemma outcome_failure:
  assumes "others_only w w1" and "run_state (migrationFailure ctx) w1 = (r, w')"
  shows "migrate_outcome sch tp mode r w w'"
  using assms(2)
  by (rule migrationFailure_run) (use assms(1) in \<open>auto simp: migrate_outcome_def justified_def intro: others_only_trans\<close>)

lemma outcome_txn [simp]: "migrate_outcome sch tp mode r w (w'\<lparr>txn := t\<rparr>) = migrate_outcome sch tp mode r w w'"
  by (simp add: migrate_outcome_def)

text \<open>The commit, when the writes lead to the current version.\<close>

lemma commitMigration_outcome:
  assumes run: "run_state (commitMigration ctx) w = (r, w')"
    and m: "migrating sch tp L ws w" and b: "brings sch tp L 3 ws"
    and start: "ws = [] \<or> (mode \<noteq> MigrationValidate \<and>
      (\<forall>d. schema_ok sch tp d \<and> t_ddl d = L \<longrightarrow> fresh d \<or> (\<exists>k < 3. migrated sch tp k d)))"
  shows "migrate_outcome sch tp mode r w w'"
proof -
  from m obtain ks where ks: "weak ws ks w" "DdlLog \<in> ks" by (auto simp: migrating_def)
  obtain c wc where c: "run_state (tx_Commit ctx) w = (c, wc)" by (meson surj_pair)
  from c ks(1) show ?thesis
  proof (cases rule: weak_Commit_cases)
    case (Failed x)
    with run c have "run_state (migrationFailure ctx) wc = (r, w')" by (simp add: commitMigration_def)
    with Failed(2) show ?thesis by (rule outcome_failure)
  next
    case (Committed w1)
    have ok: "schema_ok sch tp (db w1)" "t_ddl (db w1) = L"
      using others_keep_schema [OF Committed(1)] Committed(4) ks(2) m by (auto simp: migrating_def)
    with b have post: "migrated sch tp 3 (apply_writes ws (db w1))" "same_data (db w1) (apply_writes ws (db w1))"
      by (auto simp: brings_def)
    have r: "(r = Inr () \<and> w' = wc) \<or>
        (\<exists>e. r = Inl e \<and> migration_error e \<and> others_only wc w' \<and> \<not> reliable (script w))"
      using run c Committed(5) reliable_next [of w]
      by (auto simp: commitMigration_def elim!: migrationFailure_run)
    show ?thesis
    proof (cases "ws = []")
      case True
      then have "others_only w wc" "db wc = db w1" using Committed(1,2) by auto
      with r post True show ?thesis
        using final_state [of wc w] unfolding migrate_outcome_def justified_def by (auto intro: others_only_trans)
    next
      case False
      with start ok post have "upgrade sch tp (db w1) (apply_writes ws (db w1))" by (auto simp: upgrade_def)
      with False Committed(1,2) have "committed (upgrade sch tp) w wc" by (auto intro: committed_direct)
      with r False start show ?thesis unfolding migrate_outcome_def by (auto intro: committed_after)
    qed
  qed
qed

text \<open>The version found and the writes made so far, when the loop starts.\<close>

definition found :: "string \<Rightarrow> string \<Rightarrow> string list \<Rightarrow> nat \<Rightarrow> row_write list \<Rightarrow> bool" where
  "found sch tp L k ws \<longleftrightarrow> brings sch tp L k ws \<and> ((L = [] \<and> k = 0) \<or> ws = [])"

lemma found_start:
  assumes "found sch tp L k ws" and "schema_ok sch tp d" and "t_ddl d = L"
  shows "migrated sch tp k d \<or> (k = 0 \<and> fresh d)"
proof -
  from assms(1) consider "L = []" "k = 0" | "ws = []" "brings sch tp L k []" by (auto simp: found_def)
  then show ?thesis
  proof cases
    case 1
    with assms(2,3) migrated_length [of sch tp _ d] show ?thesis by (auto simp: schema_ok_def)
  next
    case 2
    with assms(2,3) show ?thesis by (auto simp: brings_def)
  qed
qed

lemma migrate_from_outcome:
  assumes order: "some_order order" "brace_free sch" "brace_free tp"
    and run: "run_state (migrate_from order ctx sch tp mode (int k)) w = (r, w')"
    and m: "migrating sch tp L ws w" and f: "found sch tp L k ws"
  shows "migrate_outcome sch tp mode r w w'"
proof -
  have here: "migrated sch tp k (db w) \<or> (k = 0 \<and> fresh (db w))"
    using found_start [OF f] m by (auto simp: migrating_def)
  have b: "brings sch tp L k ws" using f by (simp add: found_def)
  consider (Newer) "k > 3" | (Old) "k < 3" "mode = MigrationValidate" | (Current) "k = 3" "mode = MigrationValidate"
    | (Apply) "k \<le> 3" "mode \<noteq> MigrationValidate" by linarith
  then show ?thesis
  proof cases
    case Newer
    with run have "r = Inl newer_error" "w' = w" by (auto simp: migrate_from_def currentSchemaVersion_def)
    with here Newer show ?thesis using final_state [of w w] by (auto simp: migrate_outcome_def justified_def)
  next
    case Old
    with run have "r = Inl (version_error (int k))" "w' = w" by (auto simp: migrate_from_def currentSchemaVersion_def)
    with here Old show ?thesis using final_state [of w w] unfolding migrate_outcome_def justified_def by blast
  next
    case Current
    with f run have "ws = []" "run_state (commitMigration ctx) w = (r, w')"
      by (auto simp: migrate_from_def currentSchemaVersion_def found_def)
    with m b Current show ?thesis by (intro commitMigration_outcome) auto
  next
    case Apply
    obtain a wa where a: "run_state (apply_entries order ctx sch tp (drop 0 (map fst migrationFiles)) (int k)) w = (a, wa)"
      by (meson surj_pair)
    from apply_entries_cases [OF order _ Apply(1) m b a]
    consider e where "a = Inl e" "migration_error e" "others_only w wa"
      | ws' where "a = Inr 3" "others_only w wa" "migrating sch tp L ws' wa" "brings sch tp L 3 ws'" "k = 3 \<longrightarrow> ws' = ws"
      by auto
    then show ?thesis
    proof cases
      case 1
      with run Apply a have "r = Inl e" "w' = wa" by (auto simp: migrate_from_def currentSchemaVersion_def sorted_entries)
      with 1 show ?thesis by (auto simp: migrate_outcome_def justified_def)
    next
      case 2
      with run Apply a have c: "run_state (commitMigration ctx) wa = (r, w')"
        by (auto simp: migrate_from_def currentSchemaVersion_def sorted_entries)
      have "ws' = [] \<or> (mode \<noteq> MigrationValidate \<and>
          (\<forall>d. schema_ok sch tp d \<and> t_ddl d = L \<longrightarrow> fresh d \<or> (\<exists>k < 3. migrated sch tp k d)))"
        using found_start [OF f] Apply 2(5) f unfolding found_def by (metis le_neq_implies_less zero_neq_numeral)
      from outcome_before [OF 2(2) commitMigration_outcome [OF c 2(3,4) this]] show ?thesis .
    qed
  qed
qed

lemma create_if_absent_sem:
  "sql_sem (create_if_absent_stmt q) now d = (Inr rows, ws) \<Longrightarrow> ws = (if q \<in> set (t_ddl d) then [] else [WDdl q])"
  by (auto simp: create_if_absent_stmt_def)

lemma create_texts_differ: "create_versions_text sch tp \<noteq> create_schema_text sch"
  by (simp add: create_versions_text_def create_schema_text_def)

lemma found_base:
  assumes "schema_ok sch tp d1" "schema_ok sch tp d2" "t_ddl d1 = L" "t_ddl d2 = L"
    and "ws1 = (if create_schema_text sch \<in> set (t_ddl d1) then [] else [WDdl (create_schema_text sch)])"
    and "ws2 = (if create_versions_text sch tp \<in> set (t_ddl (apply_writes ws1 d2)) then []
      else [WDdl (create_versions_text sch tp)])"
  shows "\<exists>k. found sch tp L k (ws1 @ ws2)"
proof -
  from assms(1) consider "fresh d1" | k where "migrated sch tp k d1" by (auto simp: schema_ok_def)
  then show ?thesis
  proof cases
    case 1
    then have "L = []" using assms(3) by (simp add: fresh_def)
    then have ws: "ws1 @ ws2 = [WDdl (create_schema_text sch), WDdl (create_versions_text sch tp)]"
      using assms(3-6) create_texts_differ [of sch tp] by simp
    have "fresh d" if "schema_ok sch tp d" "t_ddl d = []" for d
      using same_version(2) [OF that(1), of d1] that(2) 1 by (simp add: fresh_def)
    then have "brings sch tp L 0 (ws1 @ ws2)"
      unfolding brings_def ws by (auto simp: \<open>L = []\<close> migrated_def base_ddl_def versions_def same_data_def fresh_def)
    with \<open>L = []\<close> show ?thesis by (auto simp: found_def)
  next
    case 2
    then have "create_schema_text sch \<in> set L" "create_versions_text sch tp \<in> set L"
      using assms(3) by (auto simp: migrated_def base_ddl_def)
    then have "ws1 @ ws2 = []" using assms(3-6) by simp
    moreover have "brings sch tp L k []"
      unfolding brings_def using same_version(1) [of sch tp _ d1 k] 2 assms(3) by (auto simp: same_data_def)
    ultimately show ?thesis by (auto simp: found_def)
  qed
qed

lemma read_version:
  assumes "found sch tp L k ws" "schema_ok sch tp d" "t_ddl d = L"
    and "sql_sem (select_version_stmt sch tp) now (apply_writes ws d) = (Inr rows, ws')"
  shows "ws' = []" and "scanned scan_one_int64 (first_row (Inr rows)) = (if int k \<le> max_int64 then Inr (int k) else Inl DriverError)"
proof -
  have "migrated sch tp k (apply_writes ws d)" using assms(1-3) by (auto simp: found_def brings_def)
  then have "max_version (t_schema_migrations (apply_writes ws d)) = int k"
    by (simp add: migrated_def max_version_versions)
  with assms(4) show "ws' = []"
      and "scanned scan_one_int64 (first_row (Inr rows)) = (if int k \<le> max_int64 then Inr (int k) else Inl DriverError)"
    by (auto simp: select_version_stmt_def first_row_def scanned_def scan_one_int64_def scan_int64_def max_int64_def)
qed

text \<open>The statements after the lock.\<close>

definition migrate_locked ::
  "map_order \<Rightarrow> go_context \<Rightarrow> string \<Rightarrow> string \<Rightarrow> MigrationMode \<Rightarrow> ('z world_scheme, unit result) state" where
  "migrate_locked order ctx sch tp mode = do {
     s \<leftarrow> tx_Exec ctx (create_if_absent_stmt (create_schema_text sch));
     case s of Inl _ \<Rightarrow> migrationFailure ctx | Inr _ \<Rightarrow> do {
     v \<leftarrow> tx_Exec ctx (create_if_absent_stmt (create_versions_text sch tp));
     case v of Inl _ \<Rightarrow> migrationFailure ctx | Inr _ \<Rightarrow> do {
     q \<leftarrow> tx_QueryRow ctx (select_version_stmt sch tp);
     case scanned scan_one_int64 q of Inl _ \<Rightarrow> migrationFailure ctx
     | Inr version \<Rightarrow> migrate_from order ctx sch tp mode version } } }"

lemma migrate_locked_outcome:
  assumes order: "some_order order" "brace_free sch" "brace_free tp"
    and run: "run_state (migrate_locked order ctx sch tp mode) w = (r, w')" and m: "migrating sch tp L [] w"
  shows "migrate_outcome sch tp mode r w w'"
proof -
  obtain a wa where a: "run_state (tx_Exec ctx (create_if_absent_stmt (create_schema_text sch))) w = (a, wa)" by (meson surj_pair)
  from a m migration_answers(2) show ?thesis
  proof (cases rule: migrating_Exec_cases)
    case (Failed e)
    with run a show ?thesis by (auto simp: migrate_locked_def intro: outcome_failure)
  next
    case A: (Done nowa rowsa ws1)
    obtain b wb where b: "run_state (tx_Exec ctx (create_if_absent_stmt (create_versions_text sch tp))) wa = (b, wb)"
      by (meson surj_pair)
    from b A(6) migration_answers(2) show ?thesis
    proof (cases rule: migrating_Exec_cases)
      case (Failed e)
      with run a b A(1,2) show ?thesis by (auto simp: migrate_locked_def intro: outcome_failure others_only_trans)
    next
      case B: (Done nowb rowsb ws2)
      obtain k where k: "found sch tp L k (ws1 @ ws2)"
        using found_base [OF A(4) B(4) A(3) B(3)] create_if_absent_sem [OF A(5)] create_if_absent_sem [OF B(5)] by auto
      have wb: "others_only w wb" using A(2) B(2) by (rule others_only_trans)
      obtain q wq where q: "run_state (tx_QueryRow ctx (select_version_stmt sch tp)) wb = (q, wq)" by (meson surj_pair)
      from B(6) have mb: "migrating sch tp L (ws1 @ ws2) wb" by simp
      from q mb migration_answers(4) show ?thesis
      proof (cases rule: migrating_Query_cases)
        case (Failed e)
        with run a b q A(1) B(1) wb show ?thesis
          by (auto simp: migrate_locked_def scanned_def intro: outcome_failure others_only_trans)
      next
        case Q: (Done nowq rowsq wsq)
        note v = read_version [OF k Q(4) Q(3) Q(5)]
        have wq: "others_only w wq" using wb Q(2) by (rule others_only_trans)
        show ?thesis
        proof (cases "int k \<le> max_int64")
          case True
          with run a b q A(1) B(1) Q(1) v have "run_state (migrate_from order ctx sch tp mode (int k)) wq = (r, w')"
            by (simp add: migrate_locked_def)
          moreover have "migrating sch tp L (ws1 @ ws2) wq" using Q(6) v(1) by simp
          ultimately show ?thesis using outcome_before [OF wq] migrate_from_outcome [OF order] k by blast
        next
          case False
          with run a b q A(1) B(1) Q(1) v have "run_state (migrationFailure ctx) wq = (r, w')"
            by (simp add: migrate_locked_def)
          with wq show ?thesis by (rule outcome_failure)
        qed
      qed
    qed
  qed
qed

lemma migrate_outcome_holds:
  assumes order: "some_order order" "brace_free sch" "brace_free tp" and "mode \<noteq> MigrationDisabled"
    and run: "run_state (migrate order ctx sch tp mode st lt) w = (r, w')" and "txn w = None"
    and ok: "schema_ok sch tp (db w)" "keeps (schema_ok sch tp) (script w)"
  shows "migrate_outcome sch tp mode r w w' \<and> txn w' = None"
proof -
  obtain b wb where b: "run_state (BeginTx ctx ReadCommitted) w = (b, wb)" by (meson surj_pair)
  from b \<open>txn w = None\<close> show ?thesis
  proof (cases rule: begin_cases)
    case (Failed e)
    with run b \<open>mode \<noteq> MigrationDisabled\<close> have f: "run_state (migrationFailure ctx) wb = (r, w')"
      by (simp add: migrate_def)
    with Failed(4) have "txn w' = None" by (auto elim: migrationFailure_run)
    with outcome_failure [OF Failed(3) f] show ?thesis by blast
  next
    case Begun
    obtain x wx where x: "run_state (migrateTx order ctx sch tp mode st lt) wb = (x, wx)" by (meson surj_pair)
    with run b Begun(1) \<open>mode \<noteq> MigrationDisabled\<close> have rw: "r = x" "w' = wx\<lparr>txn := None\<rparr>"
      by (auto simp: migrate_def Rollback_def)
    obtain t wt where t: "run_state (SetLocalTimeouts ctx st lt) wb = (t, wt)" by (meson surj_pair)
    from t begun_weak [OF Begun(3)] have "migrate_outcome sch tp mode x w wx"
    proof (cases rule: weak_timeouts_cases)
      case (Failed e)
      with x t Begun(2) show ?thesis by (auto simp: migrateTx_def intro: outcome_failure others_only_trans)
    next
      case T: Done
      obtain l wl where l: "run_state (tx_Exec ctx (advisory_lock_stmt sch)) wt = (l, wl)" by (meson surj_pair)
      have wt: "others_only w wt" using Begun(2) T(2) by (rule others_only_trans)
      from l T(4) migration_answers(1) show ?thesis
      proof (cases rule: weak_Exec_cases)
        case (Failed e)
        with x t l T(1) wt show ?thesis by (auto simp: migrateTx_def intro: outcome_failure others_only_trans)
      next
        case (Done now rows ws)
        have wl: "others_only w wl" using wt Done(2) by (rule others_only_trans)
        have "ws = []" "weak [] {DdlLog} wl" using Done(4,5) by (auto simp: advisory_lock_stmt_def new_locks_def)
        then have "migrating sch tp (t_ddl (db wl)) [] wl"
          using others_keep_schema [OF wl] ok unfolding migrating_def by blast
        moreover have "run_state (migrate_locked order ctx sch tp mode) wl = (x, wx)"
          using x t l T(1) Done(1) by (simp add: migrateTx_def migrate_locked_def)
        ultimately show ?thesis using outcome_before [OF wl] migrate_locked_outcome [OF order] by blast
      qed
    qed
    with rw show ?thesis by simp
  qed
qed

section \<open>The relations a migration creates\<close>

definition render_line :: "string \<Rightarrow> string \<Rightarrow> string \<Rightarrow> string" where
  "render_line sch tp l = template (map (fill (map_of (identifiers sch tp))) (segments_of l))"

lemma rendered_lines: "rendered sch tp i = concat (map (\<lambda>l. render_line sch tp l @ [newline]) (migration_lines ! i))"
proof -
  have "template (map (fill f) (line_segments ls)) =
      concat (map (\<lambda>l. template (map (fill f) (segments_of l)) @ [newline]) ls)" for f ls
    by (induction ls) (simp_all add: line_segments_def template_def)
  then show ?thesis by (simp add: rendered_def render_line_def)
qed

lemma sublist_concat: "x \<in> set xs \<Longrightarrow> sublist x (concat xs)"
  by (metis concat.simps(2) concat_append split_list sublist_appendI)

lemma rendered_line_sublist:
  assumes "l \<in> set (migration_lines ! i)"
  shows "sublist (render_line sch tp l) (rendered sch tp i)"
proof -
  have "sublist (render_line sch tp l @ [newline]) (rendered sch tp i)"
    unfolding rendered_lines using assms by (intro sublist_concat) auto
  moreover have "sublist (render_line sch tp l) (render_line sch tp l @ [newline])" by simp
  ultimately show ?thesis by (rule sublist_order.order.trans [rotated])
qed

definition create_line :: "string \<Rightarrow> string" where
  "create_line name = ''CREATE TABLE {{schema}}.'' @ token name @ '' (''"

lemma segments_hole:
  "CHR ''}'' \<notin> set n \<Longrightarrow> segments True acc (n @ ''}}'' @ s) = Hole (rev acc @ n) # segments False [] s"
  by (induction n arbitrary: acc) auto

lemma segments_create_line:
  "token_name n \<Longrightarrow> segments_of (create_line n) = [Lit ''CREATE TABLE '', Hole ''schema'', Lit ''.'', Hole n, Lit '' ('']"
  using segments_hole [of n "[]" "'' (''"] by (simp add: segments_of_def create_line_def token_def token_name_def)

text \<open>The line that creates the table of a given suffix, with the identifiers put in.\<close>

lemma render_create_line:
  assumes "n \<in> set (map fst (identifiers sch tp))" and "n \<noteq> ''schema''"
  shows "render_line sch tp (create_line n) = ''CREATE TABLE '' @ Qualified sch (tp @ n) @ '' (''"
proof -
  have "token_name n" using assms by (auto simp: identifiers_def token_name_def)
  moreover have "map_of (identifiers sch tp) ''schema'' = Some (QuoteIdentifier sch)" by (simp add: identifiers_def)
  moreover have "map_of (identifiers sch tp) n = Some (QuoteIdentifier (tp @ n))"
    using assms by (auto simp: identifiers_def)
  ultimately show ?thesis
    by (simp add: render_line_def segments_create_line template_def Qualified_def)
qed

definition first_table :: "nat \<Rightarrow> string" where
  "first_table i = [''ledger_scopes'', ''leases'', ''ordered_scopes''] ! i"

lemma rendered_head:
  assumes "i < 3"
  shows "\<exists>rest. rendered sch tp i = ''CREATE TABLE '' @ Qualified sch (tp @ first_table i) @ '' ('' @ rest"
proof -
  from assms have i: "i = 0 \<or> i = 1 \<or> i = 2" by linarith
  then have "hd (migration_lines ! i) = create_line (first_table i)" "migration_lines ! i \<noteq> []"
    by (auto simp: migration_lines_def lines_0001_ledger_kv_def lines_0002_leases_def lines_0003_ordered_index_def
        create_line_def token_def first_table_def)
  moreover have "render_line sch tp (create_line (first_table i)) =
      ''CREATE TABLE '' @ Qualified sch (tp @ first_table i) @ '' (''"
    using i by (intro render_create_line) (auto simp: identifiers_def first_table_def)
  ultimately show ?thesis
    by (cases "migration_lines ! i") (simp_all add: rendered_lines)
qed

lemma Qualified_inject:
  assumes "Qualified s t @ CHR '' '' # x = Qualified s u @ CHR '' '' # y"
  shows "t = u"
proof -
  from assms have "QuoteIdentifier t @ CHR '' '' # x = QuoteIdentifier u @ CHR '' '' # y" by (simp add: Qualified_def)
  then have "read_identifier (QuoteIdentifier t @ CHR '' '' # x) = read_identifier (QuoteIdentifier u @ CHR '' '' # y)"
    by (rule arg_cong)
  then show ?thesis
    using read_identifier_QuoteIdentifier [of "CHR '' '' # x" t] read_identifier_QuoteIdentifier [of "CHR '' '' # y" u] by simp
qed

lemma rendered_distinct:
  assumes "i < 3" "j < 3" "rendered sch tp i = rendered sch tp j"
  shows "i = j"
proof -
  obtain x y where "rendered sch tp i = ''CREATE TABLE '' @ Qualified sch (tp @ first_table i) @ '' ('' @ x"
      "rendered sch tp j = ''CREATE TABLE '' @ Qualified sch (tp @ first_table j) @ '' ('' @ y"
    using rendered_head assms(1,2) by blast
  with assms(3) have "first_table i = first_table j"
    using Qualified_inject [of sch "tp @ first_table i" "CHR ''('' # x" "tp @ first_table j" "CHR ''('' # y"] by simp
  moreover from assms(1,2) have "(i = 0 \<or> i = 1 \<or> i = 2) \<and> (j = 0 \<or> j = 1 \<or> j = 2)" by linarith
  ultimately show ?thesis by (auto simp: first_table_def)
qed

lemma rendered_new:
  assumes "migrated sch tp k d" and "k < 3"
  shows "rendered sch tp k \<notin> set (t_ddl d)"
proof -
  obtain x where x: "rendered sch tp k = ''CREATE TABLE '' @ Qualified sch (tp @ first_table k) @ '' ('' @ x"
    using rendered_head assms(2) by blast
  have "rendered sch tp k \<notin> set (base_ddl sch tp)"
    by (simp add: x base_ddl_def create_schema_text_def create_versions_text_def versionTable_def Qualified_def QuoteIdentifier_def)
  moreover have "t_ddl d = base_ddl sch tp @ map (rendered sch tp) [0..<k]" using assms by (auto simp: migrated_def)
  moreover have "rendered sch tp j \<noteq> rendered sch tp k" if "j < k" for j
    using rendered_distinct [of j k sch tp] that assms(2) by linarith
  ultimately show ?thesis by (metis (no_types, lifting) Un_iff atLeastLessThan_iff imageE set_append set_map set_upt)
qed

section \<open>When nothing interferes\<close>

lemma apply_entries_calm:
  assumes order: "some_order order" "brace_free sch" "brace_free tp"
    and "i \<le> k" "k \<le> 3" "calm ws d w" "migrated sch tp k (apply_writes ws d)"
  shows "\<exists>ws' w'. run_state (apply_entries order ctx sch tp (drop i (map fst migrationFiles)) (int k)) w = (Inr 3, w') \<and>
    calm ws' d w' \<and> migrated sch tp 3 (apply_writes ws' d) \<and> same_data (apply_writes ws d) (apply_writes ws' d)"
  using assms(4-)
proof (induction "3 - i" arbitrary: i k ws w)
  case 0
  then have "k = 3" "drop i (map fst migrationFiles) = []" by (auto simp: migrationFiles_def migration_lines_def)
  with 0 show ?case by (auto simp: same_data_def)
next
  case (Suc n)
  then have i: "i < 3" by simp
  note step = apply_entries_step [OF i, of order ctx sch tp "int k"]
  show ?case
  proof (cases "i < k")
    case True
    with Suc.hyps(1) [of "Suc i" k ws w] Suc.hyps(2) Suc.prems show ?thesis unfolding step by simp
  next
    case False
    with Suc.prems have k: "k = i" by simp
    let ?ws = "ws @ [WDdl (rendered sch tp i)]" and ?ws' = "(ws @ [WDdl (rendered sch tp i)]) @ [WVersion (int i + 1)]"
    have "sql_sem (migration_stmt (rendered sch tp i)) 0 (apply_writes ws d) = (Inr [], [WDdl (rendered sch tp i)])"
      using rendered_new [of sch tp i] Suc.prems(4) k i by (simp add: migration_stmt_def)
    with Suc.prems(3) obtain w1 where w1:
      "run_state (tx_Exec ctx (migration_stmt (rendered sch tp i))) w = (Inr (), w1)" "calm ?ws d w1"
      by (rule calm_Exec)
    have "sql_sem (insert_version_stmt sch tp (int i + 1)) 0 (apply_writes ?ws d) = (Inr [], [WVersion (int i + 1)])"
      using Suc.prems(4) k by (simp add: insert_version_stmt_def migrated_def versions_mem)
    with w1(2) obtain w2 where w2:
      "run_state (tx_Exec ctx (insert_version_stmt sch tp (int i + 1))) w1 = (Inr (), w2)" "calm ?ws' d w2"
      by (rule calm_Exec)
    have "migrated sch tp (Suc i) (apply_writes ?ws' d)" "same_data (apply_writes ws d) (apply_writes ?ws' d)"
      using Suc.prems(4) k i by (auto simp: migrated_def versions_Suc same_data_def min_def)
    note next' = this
    have n: "n = 3 - Suc i" using Suc.hyps(2) by simp
    have "Suc i \<le> 3" using i by simp
    from Suc.hyps(1) [OF n order.refl this w2(2) next'(1)] obtain ws3 w3 where
      "run_state (apply_entries order ctx sch tp (drop (Suc i) (map fst migrationFiles)) (int (Suc i))) w2 = (Inr 3, w3)"
      "calm ws3 d w3" "migrated sch tp 3 (apply_writes ws3 d)" "same_data (apply_writes ?ws' d) (apply_writes ws3 d)"
      by blast
    moreover from this(4) next'(2) have "same_data (apply_writes ws d) (apply_writes ws3 d)" by (rule same_data_trans [rotated])
    ultimately have "run_state (apply_entries order ctx sch tp (drop i (map fst migrationFiles)) (int k)) w = (Inr 3, w3)"
        "calm ws3 d w3" "migrated sch tp 3 (apply_writes ws3 d)" "same_data (apply_writes ws d) (apply_writes ws3 d)"
      using w1 w2 k substitute_rendered [OF i order] unfolding step by (simp_all add: add.commute)
    then show ?thesis by blast
  qed
qed

text \<open>What \<open>migrate\<close> does to a database at version \<open>k\<close> (0 for a fresh one) with the current version 3.\<close>

definition migrate_spec :: "MigrationMode \<Rightarrow> nat \<Rightarrow> unit result" where
  "migrate_spec mode k =
     (if mode = MigrationDisabled then Inr ()
      else if k > 3 then Inl newer_error
      else if mode = MigrationValidate \<and> k \<noteq> 3 then Inl (version_error (int k))
      else Inr ())"

lemma migrate_from_calm:
  assumes order: "some_order order" "brace_free sch" "brace_free tp" and "mode \<noteq> MigrationDisabled"
    and c: "calm ws d w" and k: "migrated sch tp k (apply_writes ws d)"
  shows "\<exists>w'. run_state (migrate_from order ctx sch tp mode (int k)) w = (migrate_spec mode k, w') \<and>
    (case migrate_spec mode k of Inl _ \<Rightarrow> db w' = d
     | Inr _ \<Rightarrow> migrated sch tp 3 (db w') \<and> same_data (apply_writes ws d) (db w'))"
proof -
  consider (Newer) "k > 3" | (Old) "k < 3" "mode = MigrationValidate" | (Current) "k = 3" "mode = MigrationValidate"
    | (Apply) "k \<le> 3" "mode \<noteq> MigrationValidate" by linarith
  then show ?thesis
  proof cases
    case Newer
    with c \<open>mode \<noteq> MigrationDisabled\<close> show ?thesis by (auto simp: migrate_from_def currentSchemaVersion_def migrate_spec_def calm_def)
  next
    case Old
    with c \<open>mode \<noteq> MigrationDisabled\<close> show ?thesis by (auto simp: migrate_from_def currentSchemaVersion_def migrate_spec_def calm_def)
  next
    case Current
    from c obtain w' where "run_state (tx_Commit ctx) w = (Inr (), w')" "db w' = apply_writes ws d" by (rule calm_Commit)
    with Current k \<open>mode \<noteq> MigrationDisabled\<close> show ?thesis
      by (simp add: migrate_from_def currentSchemaVersion_def migrate_spec_def commitMigration_def same_data_def)
  next
    case Apply
    from apply_entries_calm [OF order _ Apply(1) c k, of 0 ctx] obtain ws' w1 where w1:
      "run_state (apply_entries order ctx sch tp (map fst migrationFiles) (int k)) w = (Inr 3, w1)"
      "calm ws' d w1" "migrated sch tp 3 (apply_writes ws' d)" "same_data (apply_writes ws d) (apply_writes ws' d)"
      by auto
    from w1(2) obtain w' where "run_state (tx_Commit ctx) w1 = (Inr (), w')" "db w' = apply_writes ws' d" by (rule calm_Commit)
    with w1 Apply \<open>mode \<noteq> MigrationDisabled\<close> show ?thesis
      by (simp add: migrate_from_def currentSchemaVersion_def migrate_spec_def commitMigration_def sorted_entries)
  qed
qed

lemma migrate_calm:
  assumes order: "some_order order" "brace_free sch" "brace_free tp" and "mode \<noteq> MigrationDisabled"
    and "script w = []" and k: "migrated sch tp k (db w) \<or> (k = 0 \<and> fresh (db w))" and "int k \<le> max_int64"
  shows "\<exists>w'. run_state (migrate order ctx sch tp mode st lt) w = (migrate_spec mode k, w') \<and>
    (case migrate_spec mode k of Inl _ \<Rightarrow> db w' = db w
     | Inr _ \<Rightarrow> migrated sch tp 3 (db w') \<and> same_data (db w) (db w'))"
proof -
  let ?d = "db w" and ?s = "create_schema_text sch" and ?v = "create_versions_text sch tp"
  obtain w0 where w0: "run_state (BeginTx ctx ReadCommitted) w = (Inr (), w0)" "calm [] ?d w0"
    using \<open>script w = []\<close> by (rule calm_begin)
  obtain w1 where w1: "run_state (SetLocalTimeouts ctx st lt) w0 = (Inr (), w1)" "calm [] ?d w1"
    using w0(2) by (rule calm_timeouts)
  have "sql_sem (advisory_lock_stmt sch) 0 (apply_writes [] ?d) = (Inr [], [])" by (simp add: advisory_lock_stmt_def)
  with w1(2) obtain w2 where w2: "run_state (tx_Exec ctx (advisory_lock_stmt sch)) w1 = (Inr (), w2)" "calm ([] @ []) ?d w2"
    by (rule calm_Exec)
  define ws1 where "ws1 = (if ?s \<in> set (t_ddl ?d) then [] else [WDdl ?s])"
  have "sql_sem (create_if_absent_stmt ?s) 0 (apply_writes ([] @ []) ?d) = (Inr [], ws1)"
    by (simp add: create_if_absent_stmt_def ws1_def)
  with w2(2) obtain w3 where w3: "run_state (tx_Exec ctx (create_if_absent_stmt ?s)) w2 = (Inr (), w3)" "calm (([] @ []) @ ws1) ?d w3"
    by (rule calm_Exec)
  define ws2 where "ws2 = (if ?v \<in> set (t_ddl (apply_writes ws1 ?d)) then [] else [WDdl ?v])"
  have "sql_sem (create_if_absent_stmt ?v) 0 (apply_writes (([] @ []) @ ws1) ?d) = (Inr [], ws2)"
    by (simp add: create_if_absent_stmt_def ws2_def)
  with w3(2) obtain w4 where w4: "run_state (tx_Exec ctx (create_if_absent_stmt ?v)) w3 = (Inr (), w4)" "calm ((([] @ []) @ ws1) @ ws2) ?d w4"
    by (rule calm_Exec)
  have ok: "schema_ok sch tp ?d" using k by (auto simp: schema_ok_def)
  from found_base [OF ok ok refl refl ws1_def ws2_def] obtain k' where f: "found sch tp (t_ddl ?d) k' (ws1 @ ws2)" by blast
  from found_start [OF f ok refl] k have "k' = k"
    using migrated_length [of sch tp k ?d] migrated_length [of sch tp k' ?d] fresh_not_migrated [of ?d sch tp] by auto
  with f ok have m: "migrated sch tp k (apply_writes (ws1 @ ws2) ?d)" "same_data ?d (apply_writes (ws1 @ ws2) ?d)"
    by (auto simp: found_def brings_def)
  have q: "sql_sem (select_version_stmt sch tp) 0 (apply_writes (ws1 @ ws2) ?d) = (Inr [[CInt (int k)]], [])"
    using m(1) by (simp add: select_version_stmt_def migrated_def max_version_versions)
  from w4(2) have "calm (ws1 @ ws2) ?d w4" by simp
  from calm_QueryRow [OF this q] obtain w5 where w5:
    "run_state (tx_QueryRow ctx (select_version_stmt sch tp)) w4 = (first_row (Inr [[CInt (int k)]]), w5)"
    "calm (ws1 @ ws2) ?d w5" by auto
  have scan: "scanned scan_one_int64 (first_row (Inr [[CInt (int k)]])) = Inr (int k)"
    using \<open>int k \<le> max_int64\<close> by (simp add: first_row_def scanned_def scan_one_int64_def scan_int64_def max_int64_def)
  from migrate_from_calm [OF order \<open>mode \<noteq> MigrationDisabled\<close> w5(2) m(1), of ctx] obtain w6 where w6:
    "run_state (migrate_from order ctx sch tp mode (int k)) w5 = (migrate_spec mode k, w6)"
    "case migrate_spec mode k of Inl _ \<Rightarrow> db w6 = ?d
     | Inr _ \<Rightarrow> migrated sch tp 3 (db w6) \<and> same_data (apply_writes (ws1 @ ws2) ?d) (db w6)" by blast
  have "run_state (migrate order ctx sch tp mode st lt) w = (migrate_spec mode k, w6\<lparr>txn := None\<rparr>)"
    using \<open>mode \<noteq> MigrationDisabled\<close> w0(1) w1(1) w2(1) w3(1) w4(1) w5(1) w6(1) scan
    by (simp add: migrate_def migrateTx_def Rollback_def)
  moreover have "case migrate_spec mode k of Inl _ \<Rightarrow> db w6 = ?d | Inr _ \<Rightarrow> migrated sch tp 3 (db w6) \<and> same_data ?d (db w6)"
    using w6(2) m(2) by (auto split: sum.splits intro: same_data_trans)
  ultimately show ?thesis by (intro exI [of _ "w6\<lparr>txn := None\<rparr>"]) (auto split: sum.splits)
qed

section \<open>Properties\<close>

text \<open>
  C29. A migration is atomic.  Whatever the other sessions (which keep the schema at some version), the
  network and the clocks do, \<open>migrate\<close> commits at most once, and that commit takes the schema from
  an earlier version -- or none -- to the current one and leaves the stores' tables alone; to
  validate or with migrations disabled it commits nothing.  When it reports success, the schema was
  current in some committed state; an error is one of the documented ones and true of a committed
  state, and unless an acknowledgement was lost it means that nothing was committed.
\<close>

theorem migrate_atomic:
  assumes "some_order order" "brace_free sch" "brace_free tp"
    and "run_state (migrate order ctx sch tp mode st lt) w = (r, w')" and "txn w = None"
    and "schema_ok sch tp (db w)" and "keeps (schema_ok sch tp) (script w)"
  shows "length (our_commits w w') \<le> 1 \<and> list_all (\<lambda>c. upgrade sch tp (pre c) (post c)) (our_commits w w') \<and>
    (mode \<in> {MigrationValidate, MigrationDisabled} \<longrightarrow> our_commits w w' = []) \<and>
    (r = Inr () \<and> mode \<noteq> MigrationDisabled \<longrightarrow> (\<exists>d \<in> set (states w w'). migrated sch tp 3 d)) \<and>
    (\<forall>e. r = Inl e \<longrightarrow> justified sch tp mode e (states w w') \<and> (reliable (script w) \<longrightarrow> our_commits w w' = []))"
proof (cases "mode = MigrationDisabled")
  case True
  with assms(4) have "r = Inr ()" "w' = w" by (auto simp: migrate_def)
  with True show ?thesis using others_only_ours [OF others_only_refl [of w]] by simp
next
  case False
  from migrate_outcome_holds [OF assms(1-3) False assms(4-7)] consider
      (Error) e where "r = Inl e" "others_only w w'" "justified sch tp mode e (states w w')"
    | (Current) "r = Inr ()" "others_only w w'" "\<exists>d \<in> set (states w w'). migrated sch tp 3 d"
    | (Committed) "mode \<noteq> MigrationValidate" "committed (upgrade sch tp) w w'"
        "r = Inr () \<or> (\<exists>e. r = Inl e \<and> migration_error e \<and> \<not> reliable (script w))"
    unfolding migrate_outcome_def by blast
  then show ?thesis
  proof cases
    case Committed
    then obtain c where c: "our_commits w w' = [c]" "upgrade sch tp (pre c) (post c)" "post c \<in> set (states w w')"
      by (auto simp: committed_def)
    then have "migrated sch tp 3 (post c)" by (simp add: upgrade_def)
    with c Committed False show ?thesis by (auto simp: justified_def)
  qed (use False in \<open>auto simp: others_only_ours\<close>)
qed

text \<open>
  C30. With nothing interfering \<open>migrate\<close> meets its specification for every version and mode: a newer
  schema is refused; validating succeeds exactly at the current version; applying takes a fresh
  database or any earlier version to the current one.  In every case the stores' data is kept, and
  after an error the database is as it was.
\<close>

theorem migrate_refines_spec:
  assumes "some_order order" "brace_free sch" "brace_free tp" and "script w = []"
    and "migrated sch tp k (db w) \<or> (k = 0 \<and> fresh (db w))" and "int k \<le> max_int64"
  shows "\<exists>w'. run_state (migrate order ctx sch tp mode st lt) w = (migrate_spec mode k, w') \<and> same_data (db w) (db w') \<and>
    (if migrate_spec mode k = Inr () \<and> mode \<noteq> MigrationDisabled then migrated sch tp 3 (db w') else db w' = db w)"
proof (cases "mode = MigrationDisabled")
  case True
  then show ?thesis by (simp add: migrate_def migrate_spec_def same_data_def)
next
  case False
  from migrate_calm [OF assms(1-3) False assms(4-6), of ctx st lt] obtain w' where
    w': "run_state (migrate order ctx sch tp mode st lt) w = (migrate_spec mode k, w')"
      "case migrate_spec mode k of Inl _ \<Rightarrow> db w' = db w | Inr _ \<Rightarrow> migrated sch tp 3 (db w') \<and> same_data (db w) (db w')"
    by blast
  have "same_data d d" for d by (simp add: same_data_def)
  with w' False show ?thesis by (cases "migrate_spec mode k") auto
qed

text \<open>
  The SQL of a migration does not depend on the order in which Go runs over the map of tokens:
  in every order, each token of the file -- and nothing else -- becomes its quoted identifier.
\<close>

theorem migration_order_independent:
  assumes "some_order order" "brace_free sch" "brace_free tp" and "i < 3"
  shows "substitute (order n (replacements sch tp)) (snd (migrationFiles ! i)) =
    concat (map (\<lambda>l. render_line sch tp l @ [newline]) (migration_lines ! i))"
  using substitute_rendered [OF assms(4,1-3)] by (simp add: rendered_lines)

section \<open>Instances\<close>

definition demo_order :: map_order where
  "demo_order n xs = (if n = 2 then rev xs else xs)"

lemma demo_migration: "some_order demo_order" "brace_free ''s''" "brace_free ''p_''"
    "schema_ok ''s'' ''p_'' empty_database" "keeps I []"
  by (simp_all add: some_order_def demo_order_def brace_free_def schema_ok_def fresh_def empty_database_def keeps_def)

theorem migrate_refines_spec_witness:
  "\<exists>w'. run_state (migrate demo_order Background ''s'' ''p_'' MigrationApply second second) (open_world empty_database []) = (Inr (), w') \<and>
     migrated ''s'' ''p_'' 3 (db w')"
  using migrate_refines_spec [OF demo_migration(1-3), of "open_world empty_database []" 0 Background MigrationApply second second]
  by (auto simp: open_world_def fresh_def empty_database_def max_int64_def migrate_spec_def
      MigrationApply_def MigrationDisabled_def MigrationValidate_def)

theorem migrate_atomic_witness:
  "\<exists>w'. run_state (migrate demo_order Background ''s'' ''p_'' MigrationApply second second) (open_world empty_database []) = (Inr (), w') \<and>
     length (our_commits (open_world empty_database []) w') \<le> 1 \<and>
     (\<exists>d \<in> set (states (open_world empty_database []) w'). migrated ''s'' ''p_'' 3 d)"
proof -
  let ?w = "open_world empty_database []"
  have "migrate_spec MigrationApply 0 = Inr ()" "MigrationApply \<noteq> MigrationDisabled"
    by (simp_all add: migrate_spec_def MigrationApply_def MigrationDisabled_def MigrationValidate_def)
  then obtain w' where w': "run_state (migrate demo_order Background ''s'' ''p_'' MigrationApply second second) ?w = (Inr (), w')"
    using migrate_calm [OF demo_migration(1-3), of MigrationApply ?w 0 Background second second]
    by (auto simp: open_world_def fresh_def empty_database_def max_int64_def)
  with migrate_atomic [OF demo_migration(1-3) w'] \<open>MigrationApply \<noteq> MigrationDisabled\<close> demo_migration(4,5) show ?thesis
    by (auto simp: open_world_def)
qed

theorem migration_order_independent_witness:
  "substitute (demo_order 2 (replacements ''s'' ''p_'')) (snd (migrationFiles ! 1)) =
   substitute (replacements ''s'' ''p_'') (snd (migrationFiles ! 1))"
  using migration_order_independent [OF demo_migration(1-3), of 1 2] migration_order_independent [OF demo_migration(1-3), of 1 1]
  by (simp add: demo_order_def)

end
