(* ===== verification/Store.thy ===== *)
theory Store
  imports Kv Ledger Lease OrderedIndex MigrationProperties
begin

text \<open>
  \<open>pgstore.go\<close>: \<open>Open\<close> resolves the options, opens the pool, brings the schema up to date and
  builds the four stores on the same schema, prefix and timeouts; \<open>Close\<close> stops the leases and closes the
  pool once.  The world counts the pools opened and closed.
\<close>

section \<open>The store\<close>

record app_world = lease_world +
  pools_opened :: nat
  pools_closed :: nat

record store =
  st_Ledger :: ledger_store
  st_Leaser :: lease_store
  st_KV :: kv_store
  st_OrderedIndex :: ordered_store
  st_closed :: bool

definition open_pool :: "('z app_world_scheme, unit) state" where
  "open_pool = State (\<lambda>w. ((), w\<lparr>pools_opened := pools_opened w + 1\<rparr>))"

definition close_pool :: "('z app_world_scheme, unit) state" where
  "close_pool = State (\<lambda>w. ((), w\<lparr>pools_closed := pools_closed w + 1\<rparr>))"

text \<open>The registry of a new lease store is empty and its context is live.\<close>

definition new_lease_registry :: "('z app_world_scheme, unit) state" where
  "new_lease_registry = State (\<lambda>w. ((), w\<lparr>registered := {||}, store_canceled := False\<rparr>))"

definition build_store :: "resolved_options \<Rightarrow> store" where
  "build_store r =
     (let timeouts = [ro_statementTimeout r, ro_lockTimeout r] in
      \<lparr>st_Ledger = ledger_WithOperationTimeout (ledger_New (ro_schema r) (ro_tablePrefix r) timeouts) (ro_operationTimeout r),
       st_Leaser = lease_WithOperationTimeout
         (lease_New (ro_schema r) (ro_tablePrefix r) (ro_leaseTTL r) (ro_leaseRenewInterval r) timeouts) (ro_operationTimeout r),
       st_KV = kv_WithOperationTimeout (kv_New (ro_schema r) (ro_tablePrefix r)) (ro_operationTimeout r),
       st_OrderedIndex = ordered_WithOperationTimeout (ordered_New (ro_schema r) (ro_tablePrefix r) timeouts) (ro_operationTimeout r),
       st_closed = False\<rparr>)"

text \<open>
  \<open>pgxpool.ParseConfig\<close> and \<open>pgxpool.NewWithConfig\<close> are third-party code: the first is the parameter
  of \<open>resolve\<close>, of the second \<open>newPool\<close> says which configurations it accepts.
\<close>

definition Open ::
  "(string \<Rightarrow> pool_config option) \<Rightarrow> (pool_config \<Rightarrow> bool) \<Rightarrow> map_order \<Rightarrow> go_context option \<Rightarrow> options \<Rightarrow>
   ('z app_world_scheme, store result) state" where
  "Open ParseConfig newPool order ctx0 opts =
     (case resolve ParseConfig opts of Inl e \<Rightarrow> State_Monad.return (Inl e) | Inr r \<Rightarrow> do {
        b \<leftarrow> Bound ctx0 ''Open'' (ro_operationTimeout r);
        case b of Inl e \<Rightarrow> State_Monad.return (Inl e) | Inr ctx \<Rightarrow>
        if \<not> newPool (ro_poolConfig r)
        then State_Monad.return (Inl (invalidOption ''DSN'' ''PostgreSQL pool configuration was rejected''))
        else do {
          open_pool;
          m \<leftarrow> migrate order ctx (ro_schema r) (ro_tablePrefix r) (ro_migrations r) (ro_statementTimeout r) (ro_lockTimeout r);
          case m of Inl e \<Rightarrow> do { close_pool; State_Monad.return (Inl e) }
          | Inr _ \<Rightarrow> do { new_lease_registry; State_Monad.return (Inr (build_store r)) } } })"

text \<open>\<open>Close\<close> on a nil store does nothing; \<open>closeOnce\<close> runs \<open>closePool\<close> the first time only.\<close>

definition store_Close :: "store option \<Rightarrow> ('z app_world_scheme, store option) state" where
  "store_Close s = (case s of
     None \<Rightarrow> State_Monad.return None
   | Some st \<Rightarrow>
       if st_closed st then State_Monad.return (Some st)
       else do {
         State (\<lambda>w. ((), lease_Close w));
         close_pool;
         State_Monad.return (Some (st\<lparr>st_closed := True\<rparr>)) })"

section \<open>Pools\<close>

definition pools :: "'z app_world_scheme \<Rightarrow> nat \<times> nat" where
  "pools w = (pools_opened w, pools_closed w)"

text \<open>Nothing but \<open>Open\<close> and \<open>Close\<close> touches the pools.\<close>

definition leaves_pools :: "('z app_world_scheme, 'a) state \<Rightarrow> bool" where
  "leaves_pools m \<longleftrightarrow> (\<forall>w. pools (snd (run_state m w)) = pools w)"

named_theorems pool_intros

lemma leaves_pools_return [pool_intros]: "leaves_pools (State_Monad.return x)"
  by (simp add: leaves_pools_def)

lemma leaves_pools_bind [pool_intros]:
  "leaves_pools m \<Longrightarrow> (\<And>x. leaves_pools (f x)) \<Longrightarrow> leaves_pools (State_Monad.bind m f)"
  by (auto simp: leaves_pools_def split: prod.splits) (metis snd_conv)

lemma leaves_pools_if [pool_intros]: "leaves_pools m \<Longrightarrow> leaves_pools n \<Longrightarrow> leaves_pools (if b then m else n)"
  by simp

lemma leaves_pools_case_sum [pool_intros]:
  "(\<And>e. leaves_pools (f e)) \<Longrightarrow> (\<And>x. leaves_pools (g x)) \<Longrightarrow> leaves_pools (case r of Inl e \<Rightarrow> f e | Inr x \<Rightarrow> g x)"
  by (simp split: sum.split)

lemma leaves_pools_case_option [pool_intros]:
  "leaves_pools n \<Longrightarrow> (\<And>x. leaves_pools (g x)) \<Longrightarrow> leaves_pools (case r of None \<Rightarrow> n | Some x \<Rightarrow> g x)"
  by (simp split: option.split)

lemma pools_frame [simp]:
  "pools (w\<lparr>db := d\<rparr>) = pools w" "pools (w\<lparr>script := es\<rparr>) = pools w" "pools (w\<lparr>txn := t\<rparr>) = pools w"
  "pools (w\<lparr>hist := h\<rparr>) = pools w" "pools (w\<lparr>sent := x\<rparr>) = pools w"
  "pools (w\<lparr>registered := reg\<rparr>) = pools w" "pools (w\<lparr>store_canceled := b\<rparr>) = pools w"
  "pools (w\<lparr>objects := os\<rparr>) = pools w"
  by (simp_all add: pools_def)

lemma pools_advance [simp]: "pools (advance w) = pools w" "pools (commit_ours ws w) = pools w" "pools (log_sent ctx s w) = pools w"
  by (simp_all add: advance_def commit_ours_def log_sent_def Let_def)

lemma leaves_pools_primitives [pool_intros]:
  "leaves_pools time_Now" "leaves_pools (ctx_Err ctx)" "leaves_pools (BeginTx ctx lvl)" "leaves_pools (tx_run ctx s)"
  "leaves_pools (tx_Commit ctx)" "leaves_pools Rollback"
  by (auto simp: leaves_pools_def time_Now_def ctx_Err_def BeginTx_def tx_run_def tx_Commit_def Rollback_def Let_def
      split: fault.split option.split prod.split sum.split)

lemma leaves_pools_migrate [pool_intros]: "leaves_pools (migrate order ctx sch tp mode st lt)"
proof -
  have f: "leaves_pools (migrationFailure c :: ('z app_world_scheme, 'b result) state)" for c
    unfolding migrationFailure_def by (intro pool_intros)
  have c: "leaves_pools (commitMigration ctx)" unfolding commitMigration_def by (intro pool_intros f)
  have e: "leaves_pools (tx_Exec ctx s)" "leaves_pools (tx_QueryRow ctx s)" for s
    unfolding tx_Exec_def tx_QueryRow_def by (intro pool_intros)+
  have "leaves_pools (apply_entries order ctx sch tp entries v)" for entries v
    by (induction entries arbitrary: v) (auto intro!: pool_intros f e)
  then show ?thesis
    unfolding migrate_def migrateTx_def migrate_from_def SetLocalTimeouts_def by (intro pool_intros f c e)
qed

lemma leaves_pools_Bound [pool_intros]: "leaves_pools (Bound c operation d)"
  unfolding Bound_def WithTimeout_def by (intro pool_intros)

section \<open>How \<open>Open\<close> ends\<close>

lemma Open_cases:
  assumes run: "run_state (Open p np order c opts) w = (x, w')"
  obtains (Invalid) e where "resolve p opts = Inl e" "x = Inl e" "w' = w"
  | (Refused) r where "resolve p opts = Inr r" "c = None" "x = Inl (DeadlineRequired ''Open'')" "w' = w"
  | (Rejected) r where "resolve p opts = Inr r" "\<not> np (ro_poolConfig r)" "pools w' = pools w" "others_only w w'"
      "x = Inl (invalidOption ''DSN'' ''PostgreSQL pool configuration was rejected'')"
  | (Migrated) r ctx w1 m w2 where "resolve p opts = Inr r" "deadline ctx \<noteq> None" "np (ro_poolConfig r)"
      "others_only w w1" "txn w1 = txn w" "pools w1 = (pools_opened w + 1, pools_closed w)"
      "run_state (migrate order ctx (ro_schema r) (ro_tablePrefix r) (ro_migrations r) (ro_statementTimeout r) (ro_lockTimeout r)) w1 = (m, w2)"
      "pools w2 = pools w1"
      "(case m of Inl e \<Rightarrow> x = Inl e \<and> w' = w2\<lparr>pools_closed := pools_closed w2 + 1\<rparr>
        | Inr _ \<Rightarrow> x = Inr (build_store r) \<and> w' = w2\<lparr>registered := {||}, store_canceled := False\<rparr>)"
proof (cases "resolve p opts")
  case (Inl e)
  with run show thesis by (intro that(1)) (auto simp: Open_def)
next
  case (Inr r)
  obtain b wb where b: "run_state (Bound c ''Open'' (ro_operationTimeout r)) w = (b, wb)" by (meson surj_pair)
  have pb: "pools wb = pools w" using leaves_pools_Bound [of c "''Open''" "ro_operationTimeout r"] b
    by (metis leaves_pools_def snd_conv)
  from b show thesis
  proof (cases rule: Bound_cases)
    case Refused
    with run b Inr show thesis by (intro that(2) [of r]) (auto simp: Open_def)
  next
    case (Bounded ctx)
    show thesis
    proof (cases "np (ro_poolConfig r)")
      case False
      with run b Inr Bounded pb show thesis by (intro that(3) [of r]) (auto simp: Open_def)
    next
      case True
      let ?w1 = "wb\<lparr>pools_opened := pools_opened wb + 1\<rparr>"
      obtain m w2 where m: "run_state (migrate order ctx (ro_schema r) (ro_tablePrefix r) (ro_migrations r)
          (ro_statementTimeout r) (ro_lockTimeout r)) ?w1 = (m, w2)" by (meson surj_pair)
      have "others_only wb ?w1" by (rule others_only_cong [THEN iffD1, OF _ _ _ others_only_refl]) simp_all
      with Bounded(3) have "others_only w ?w1" by (rule others_only_trans)
      moreover have "pools w2 = pools ?w1" using leaves_pools_migrate m by (metis leaves_pools_def snd_conv)
      moreover have "case m of Inl e \<Rightarrow> x = Inl e \<and> w' = w2\<lparr>pools_closed := pools_closed w2 + 1\<rparr>
          | Inr _ \<Rightarrow> x = Inr (build_store r) \<and> w' = w2\<lparr>registered := {||}, store_canceled := False\<rparr>"
        using run b Inr Bounded(1) True m
        by (cases m) (auto simp: Open_def open_pool_def close_pool_def new_lease_registry_def)
      moreover have "pools ?w1 = (pools_opened w + 1, pools_closed w)" using pb by (auto simp: pools_def)
      ultimately show thesis using Inr Bounded True m by (intro that(4) [of r ctx ?w1 m w2]) auto
    qed
  qed
qed

section \<open>Table names\<close>

definition table_suffixes :: "string list" where
  "table_suffixes = [''ledger_scopes'', ''ledger_records'', ''kv'', ''leases'', ''ordered_scopes'', ''ordered_records'']"

definition relation_suffixes :: "string list" where
  "relation_suffixes = ''schema_migrations'' # table_suffixes @ [''ordered_order_idx'', ''ordered_rank_idx'', ''ordered_due_idx'']"

text \<open>The tables the statements of the four stores name.\<close>

definition store_tables :: "store \<Rightarrow> string list" where
  "store_tables st = [ledger_scopes (st_Ledger st), ledger_records (st_Ledger st), kv_table (st_KV st),
     lease_table (st_Leaser st), scopesTable (st_OrderedIndex st), recordsTable (st_OrderedIndex st)]"

lemma store_tables_build:
  "store_tables (build_store r) = map (\<lambda>s. Qualified (ro_schema r) (ro_tablePrefix r @ s)) table_suffixes"
  by (simp add: store_tables_def build_store_def table_suffixes_def Let_def ledger_scopes_def ledger_records_def
      kv_table_def lease_table_def scopesTable_def recordsTable_def ledger_WithOperationTimeout_def ledger_New_def
      lease_WithOperationTimeout_def lease_New_def kv_WithOperationTimeout_def kv_New_def
      ordered_WithOperationTimeout_def ordered_New_def)

lemma validIdentifier_brace: "validIdentifier s n \<Longrightarrow> brace_free s"
proof -
  assume v: "validIdentifier s n"
  then obtain c t where s: "s = c # t" by (cases s) (auto simp: validIdentifier_def)
  with v have "c \<noteq> CHR ''{''" by (auto simp: validIdentifier_def less_eq_char_def)
  moreover have "CHR ''{'' \<notin> set t" using v s by (auto simp: validIdentifier_def list_all_iff less_eq_char_def)
  ultimately show ?thesis by (simp add: s brace_free_def)
qed

lemma resolved_identifiers:
  assumes "resolve p opts = Inr r"
  shows "validIdentifier (ro_schema r) 63" "validIdentifier (ro_tablePrefix r) 40"
proof -
  have acc: "acceptable p opts" using assms by (rule resolve_refuses)
  with assms resolve_acceptable [OF acc] show "validIdentifier (ro_schema r) 63" "validIdentifier (ro_tablePrefix r) 40"
    by (auto simp: acceptable_def maxPostgresIdentifierBytes_def maxTablePrefixBytes_def maxTableSuffixBytes_def)
qed

text \<open>
  C31. Every relation the store uses keeps its own name: with accepted options all names, schema
  included, are at most 63 bytes long, so that PostgreSQL's silent truncation to 63 bytes
  neither changes one nor makes two of them equal.
\<close>

theorem relation_names_distinct:
  assumes "resolve p opts = Inr r"
  shows "length (ro_schema r) \<le> 63 \<and>
    list_all (\<lambda>s. length (ro_tablePrefix r @ s) \<le> 63 \<and> take 63 (ro_tablePrefix r @ s) = ro_tablePrefix r @ s) relation_suffixes \<and>
    distinct (map (\<lambda>s. take 63 (ro_tablePrefix r @ s)) relation_suffixes)"
proof -
  have "length (ro_tablePrefix r) \<le> 40" "length (ro_schema r) \<le> 63"
    using resolved_identifiers [OF assms] by (auto simp: validIdentifier_def)
  moreover from this have short: "take 63 (ro_tablePrefix r @ s) = ro_tablePrefix r @ s" "length (ro_tablePrefix r @ s) \<le> 63"
    if "s \<in> set relation_suffixes" for s
    using that by (auto simp: relation_suffixes_def table_suffixes_def)
  moreover have "distinct (map (\<lambda>s. take 63 (ro_tablePrefix r @ s)) relation_suffixes)"
  proof -
    have "map (\<lambda>s. take 63 (ro_tablePrefix r @ s)) relation_suffixes = map (\<lambda>s. ro_tablePrefix r @ s) relation_suffixes"
      using short by (intro map_cong) auto
    moreover have "distinct relation_suffixes" by (simp add: relation_suffixes_def table_suffixes_def)
    ultimately show ?thesis by (simp add: distinct_map inj_on_def)
  qed
  ultimately show ?thesis by (auto simp: list_all_iff)
qed

section \<open>Properties of \<open>Open\<close> and \<open>Close\<close>\<close>

text \<open>The migration a table comes from.\<close>

lemma table_created:
  assumes "s \<in> set table_suffixes"
  shows "\<exists>i < 3. sublist (''CREATE TABLE '' @ Qualified sch (tp @ s) @ '' ('') (rendered sch tp i)"
proof -
  have *: "\<exists>i < 3. create_line s \<in> set (migration_lines ! i)"
    using assms by (auto simp: table_suffixes_def migration_lines_def create_line_def token_def
        lines_0001_ledger_kv_def lines_0002_leases_def lines_0003_ordered_index_def
        intro: exI [of _ 0] exI [of _ "Suc 0"] exI [of _ "Suc (Suc 0)"])
  have "render_line sch tp (create_line s) = ''CREATE TABLE '' @ Qualified sch (tp @ s) @ '' (''"
    using assms by (intro render_create_line) (auto simp: table_suffixes_def identifiers_def)
  with * rendered_line_sublist [of "create_line s"] show ?thesis by metis
qed

text \<open>
  C32. A store that \<open>Open\<close> returns is ready for use: unless migrations are disabled, in some committed
  state of the call every table the four stores name in their statements had been created, and \<open>Open\<close>
  itself changed nothing else than, at most once, the schema.
\<close>

theorem Open_ready:
  assumes "resolve p opts = Inr r" and "some_order order" and "ro_migrations r \<noteq> MigrationDisabled"
    and "run_state (Open p np order c opts) w = (Inr st, w')" and "txn w = None"
    and "schema_ok (ro_schema r) (ro_tablePrefix r) (db w)"
    and "keeps (schema_ok (ro_schema r) (ro_tablePrefix r)) (script w)"
  shows "st = build_store r \<and> length (our_commits w w') \<le> 1 \<and>
    list_all (\<lambda>c. upgrade (ro_schema r) (ro_tablePrefix r) (pre c) (post c)) (our_commits w w') \<and>
    (\<exists>d \<in> set (states w w'). list_all (\<lambda>t. \<exists>q \<in> set (t_ddl d). sublist (''CREATE TABLE '' @ t @ '' ('') q) (store_tables st))"
  using assms(4)
proof (cases rule: Open_cases)
  case (Migrated r' ctx w1 m w2)
  let ?sch = "ro_schema r" and ?tp = "ro_tablePrefix r"
  from Migrated(1) assms(1) have r': "r' = r" by simp
  from Migrated(9) have m: "m = Inr ()" "st = build_store r" "w' = w2\<lparr>registered := {||}, store_canceled := False\<rparr>"
    by (auto simp: r' split: sum.splits)
  have ids: "brace_free ?sch" "brace_free ?tp" using resolved_identifiers [OF assms(1)] validIdentifier_brace by blast+
  note keep = others_keep_schema [OF Migrated(4) assms(6,7)]
  have out: "migrate_outcome ?sch ?tp (ro_migrations r) m w1 w2"
    using migrate_outcome_holds [OF assms(2) ids assms(3) Migrated(7) [unfolded r']] Migrated(5) assms(5) keep by simp
  from outcome_before [OF Migrated(4) this] have "migrate_outcome ?sch ?tp (ro_migrations r) m w w2" .
  then have ready: "length (our_commits w w2) \<le> 1 \<and> list_all (\<lambda>c. upgrade ?sch ?tp (pre c) (post c)) (our_commits w w2) \<and>
      (\<exists>d \<in> set (states w w2). migrated ?sch ?tp 3 d)"
    unfolding migrate_outcome_def using m(1) by (auto simp: others_only_ours committed_def upgrade_def)
  have "our_commits w w' = our_commits w w2" "states w w' = states w w2"
    by (simp_all add: m(3) our_commits_def states_def commits_def)
  moreover have "list_all (\<lambda>t. \<exists>q \<in> set (t_ddl d). sublist (''CREATE TABLE '' @ t @ '' ('') q) (store_tables st)"
    if "migrated ?sch ?tp 3 d" for d
  proof -
    have "rendered ?sch ?tp i \<in> set (t_ddl d)" if "i < 3" for i
      using \<open>migrated ?sch ?tp 3 d\<close> that by (auto simp: migrated_def)
    then show ?thesis
      unfolding m(2) store_tables_build list_all_iff using table_created [of _ ?sch ?tp] by fastforce
  qed
  ultimately show ?thesis using ready m(2) by auto
qed auto

primrec close_times :: "nat \<Rightarrow> store option \<Rightarrow> ('z app_world_scheme, store option) state" where
  "close_times 0 s = State_Monad.return s"
| "close_times (Suc n) s = do { s' \<leftarrow> store_Close s; close_times n s' }"

lemma close_times_closed: "st_closed st \<Longrightarrow> run_state (close_times n (Some st)) w = (Some st, w)"
  by (induction n) (simp_all add: store_Close_def)

lemma close_times_open:
  "\<not> st_closed st \<Longrightarrow> run_state (close_times (Suc n) (Some st)) w =
     (Some (st\<lparr>st_closed := True\<rparr>), (lease_Close w)\<lparr>pools_closed := pools_closed w + 1\<rparr>)"
  using close_times_closed [of "st\<lparr>st_closed := True\<rparr>" n]
  by (simp add: store_Close_def close_pool_def lease_Close_def)

lemma lease_Close_loses:
  assumes "h |\<in>| registered w" and "fmlookup (objects (lease_Close w)) h = Some l"
  shows "Lost l"
proof -
  from assms obtain y where "l = markLost (lease_stop y)" by (auto simp: lease_Close_def)
  then show ?thesis by (simp add: Lost_def markLost_def)
qed

text \<open>
  C33. No pool is leaked: a call of \<open>Open\<close> that fails leaves as many pools open as before, and one that
  succeeds exactly one more, which closing the store -- any number of times -- closes exactly once,
  along with every registered lease.
\<close>

theorem pools_balanced:
  fixes w :: "'z app_world_scheme"
  assumes "run_state (Open p np order c opts) w = (x, w')"
  shows "(case x of
      Inl _ \<Rightarrow> \<exists>n \<le> 1. pools w' = (pools_opened w + n, pools_closed w + n)
    | Inr st \<Rightarrow> pools w' = (pools_opened w + 1, pools_closed w) \<and>
        (\<forall>n (w2 :: 'z app_world_scheme). \<exists>w3. run_state (close_times (Suc n) (Some st)) w2 = (Some (st\<lparr>st_closed := True\<rparr>), w3) \<and>
           pools w3 = (pools_opened w2, pools_closed w2 + 1) \<and> store_canceled w3 \<and>
           (\<forall>h l. h |\<in>| registered w2 \<and> fmlookup (objects w3) h = Some l \<longrightarrow> Lost l)))"
  using assms
proof (cases rule: Open_cases)
  case (Rejected r)
  then show ?thesis by (auto simp: pools_def)
next
  case (Migrated r ctx w1 m w2)
  show ?thesis
  proof (cases m)
    case (Inl e)
    with Migrated(6,8,9) show ?thesis by (auto simp: pools_def)
  next
    case (Inr u)
    with Migrated(6,8,9) have x: "x = Inr (build_store r)" "pools w' = (pools_opened w + 1, pools_closed w)" by auto
    have "\<exists>w3. run_state (close_times (Suc n) (Some (build_store r))) w2 = (Some ((build_store r)\<lparr>st_closed := True\<rparr>), w3) \<and>
           pools w3 = (pools_opened w2, pools_closed w2 + 1) \<and> store_canceled w3 \<and>
           (\<forall>h l. h |\<in>| registered w2 \<and> fmlookup (objects w3) h = Some l \<longrightarrow> Lost l)" for n and w2 :: "'z app_world_scheme"
    proof -
      have "\<not> st_closed (build_store r)" by (simp add: build_store_def Let_def)
      note closed = close_times_open [OF this, of n w2]
      let ?w3 = "(lease_Close w2)\<lparr>pools_closed := pools_closed w2 + 1\<rparr>"
      have "pools ?w3 = (pools_opened w2, pools_closed w2 + 1)" "store_canceled ?w3"
        by (simp_all add: pools_def lease_Close_def)
      moreover have "Lost l" if "h |\<in>| registered w2" "fmlookup (objects ?w3) h = Some l" for h l
        using lease_Close_loses [of h w2 l] that by simp
      ultimately show ?thesis using closed by blast
    qed
    with x show ?thesis by (simp del: close_times.simps)
  qed
qed (auto simp: pools_def)

section \<open>Instances\<close>

definition demo_app :: app_world where
  "demo_app = \<lparr>db = empty_database, script = [], txn = None, hist = [], sent = [], objects = fmempty, registered = {||},
     store_canceled = False, next_ref = 0, pools_opened = 0, pools_closed = 0\<rparr>"

definition demo_open :: "store result \<times> app_world" where
  "demo_open = run_state (Open (\<lambda>_. Some demo_config) (\<lambda>_. True) demo_order (Some Background) demo_options) demo_app"

lemma demo_open_run:
  "run_state (Open (\<lambda>_. Some demo_config) (\<lambda>_. True) demo_order (Some Background) demo_options) demo_app =
     (Inr (build_store demo_resolved), snd demo_open)"
proof -
  let ?r = "demo_resolved" and ?ctx = "WithDeadline Background (30 * second)"
  have modes: "MigrationApply \<noteq> MigrationDisabled" "migrate_spec MigrationApply 0 = Inr ()"
    by (simp_all add: migrate_spec_def MigrationApply_def MigrationDisabled_def MigrationValidate_def)
  have "brace_free ''looprig''" "brace_free ''looprig_''" by (simp_all add: brace_free_def)
  from migrate_calm [OF demo_migration(1) this modes(1), of "demo_app\<lparr>pools_opened := 1\<rparr>" 0 ?ctx "30 * second" "5 * second"]
  obtain w' where "run_state (migrate demo_order ?ctx ''looprig'' ''looprig_'' MigrationApply (30 * second) (5 * second))
      (demo_app\<lparr>pools_opened := 1\<rparr>) = (Inr (), w')"
    by (auto simp: demo_app_def fresh_def empty_database_def max_int64_def modes)
  then show ?thesis
    by (simp add: demo_open_def Open_def demo_resolve demo_resolved_def Bound_def Background_def open_pool_def new_lease_registry_def
        time_Now_def WithTimeout_def next_event_def quiet_def demo_app_def)
qed

theorem relation_names_distinct_witness:
  "length (''looprig_'' @ ''schema_migrations'') \<le> 63 \<and> distinct (map (\<lambda>s. take 63 (''looprig_'' @ s)) relation_suffixes)"
  using relation_names_distinct [OF demo_resolve] by (simp add: demo_resolved_def relation_suffixes_def)

theorem Open_ready_witness:
  "\<exists>d \<in> set (states demo_app (snd demo_open)).
     list_all (\<lambda>t. \<exists>q \<in> set (t_ddl d). sublist (''CREATE TABLE '' @ t @ '' ('') q) (store_tables (build_store demo_resolved))"
proof -
  have "ro_migrations demo_resolved \<noteq> MigrationDisabled"
    by (simp add: demo_resolved_def MigrationApply_def MigrationDisabled_def)
  from Open_ready [OF demo_resolve demo_migration(1) this demo_open_run] show ?thesis
    by (simp add: demo_app_def schema_ok_def fresh_def empty_database_def keeps_def)
qed

theorem pools_balanced_witness: "pools (snd demo_open) = (1, 0)"
  using pools_balanced [OF demo_open_run] by (simp add: demo_app_def)

end
