(* ===== verification/Deadlines.thy ===== *)
theory Deadlines
  imports Store OrderedListing
begin

text \<open>
  Every statement the program sends -- by \<open>Open\<close>, by any operation of the four stores, by a reread after
  an unknown outcome or by the renewal of a lease -- is sent under a context with a deadline,
  whatever context the caller passed (\<open>guard.Bound\<close>).
\<close>

section \<open>The ordered index\<close>

lemma sends_attempt [sends_intros]:
  "(\<And>x. sends P (f x)) \<Longrightarrow> (\<And>e. sends P (g e)) \<Longrightarrow> (\<And>r e. sends P (h r e)) \<Longrightarrow>
     sends P (case a of Finished x \<Rightarrow> f x | Failed e \<Rightarrow> g e | Unknown r e \<Rightarrow> h r e)"
  by (simp split: attempt.split)

lemma sends_ordered_failure [sends_intros]:
  "sends P (ordered_failure ctx operation)" "sends P (ordered_safeCause ctx operation)"
  unfolding ordered_failure_def ordered_safeCause_def by (intro sends_intros)+

lemma sends_ordered_commit [sends_intros]: "sends P (ordered_commit ctx operation want x)"
  unfolding ordered_commit_def by (intro sends_intros)

text \<open>Under a context with a deadline, every statement has it.\<close>

lemma sends_ordered_reads:
  assumes "deadline ctx \<noteq> None"
  shows "sends bounded_send (ordered_get api s ctx oid)" "sends bounded_send (ordered_getForUpdate api s ctx oid)"
    "sends bounded_send (ordered_getFrom api s (tx_QueryRow ctx) oid q)"
  unfolding ordered_get_def ordered_getForUpdate_def ordered_getFrom_def
  using assms by (intro sends_intros; simp)+

lemma sends_ordered_attempts:
  assumes "deadline ctx \<noteq> None"
  shows "sends bounded_send (ordered_createOnce api s ctx oid rankingScope value rank due)"
    "sends bounded_send (ordered_updateOnce api s ctx oid revision value rank due)"
    "sends bounded_send (ordered_deleteOnce api s ctx oid revision)"
  unfolding ordered_createOnce_def ordered_updateOnce_def ordered_deleteOnce_def ordered_transaction_def
    ordered_createBody_def ordered_createLocked_def ordered_createInsert_def ordered_lockedBody_def
    ordered_updateLocked_def ordered_deleteLocked_def Let_def
  using assms by (intro sends_intros sends_ordered_reads; simp)+

lemma sends_ordered_resolve:
  "sends bounded_send (resolveCreate api s oid want cause)"
  "sends bounded_send (resolveMutation api s operation oid want cause)"
  unfolding resolveCreate_def resolveMutation_def by (intro sends_intros sends_ordered_reads; assumption)+

lemma sends_ordered_retry:
  assumes "sends P once" and "\<And>want cause. sends P (settle want cause)"
  shows "sends P (ordered_retry ctx operation once settle n)"
proof (induction "Attempts - n" arbitrary: n rule: less_induct)
  case less
  show ?case
    by (subst ordered_retry.simps) (intro sends_intros assms less; auto)
qed

lemma ordered_statements_bounded:
  "sends bounded_send (ordered_Get api s c oid) \<and>
   sends bounded_send (ordered_Create api s c oid rankingScope value rank due) \<and>
   sends bounded_send (ordered_Update api s c oid revision value rank due) \<and>
   sends bounded_send (ordered_Delete api s c oid revision) \<and>
   sends bounded_send (ordered_ListOrdered api s c ns orderingScope after limit) \<and>
   sends bounded_send (ordered_ListRanked api s c ns orderingScope cursor limit) \<and>
   sends bounded_send (ordered_ListDue api s c ns bound cursor limit)"
  unfolding ordered_Get_def ordered_Create_def ordered_Update_def ordered_Delete_def ordered_ListOrdered_def
    ordered_ListRanked_def ordered_ListDue_def ordered_listPage_def
  by (intro conjI; rule sends_operation;
      (intro sends_intros sends_ordered_reads sends_ordered_retry sends_ordered_attempts sends_ordered_resolve; simp))

section \<open>\<open>Open\<close>\<close>

lemma sends_migrationFailure [sends_intros]: "sends P (migrationFailure ctx)"
  unfolding migrationFailure_def by (intro sends_intros)

lemma sends_commitMigration [sends_intros]: "sends P (commitMigration ctx)"
  unfolding commitMigration_def by (intro sends_intros)

lemma sends_migrate:
  assumes "deadline ctx \<noteq> None"
  shows "sends bounded_send (migrate order ctx sch tp mode st lt)"
proof -
  have "sends bounded_send (apply_entries order ctx sch tp entries v)" for entries v
    by (induction entries arbitrary: v) (use assms in \<open>auto intro!: sends_intros\<close>)
  then show ?thesis
    unfolding migrate_def migrateTx_def migrate_from_def using assms by (intro sends_intros; simp)
qed

lemma sends_pools [sends_intros]:
  "sends P open_pool" "sends P close_pool" "sends P new_lease_registry"
  by (simp_all add: sends_def open_pool_def close_pool_def new_lease_registry_def)

lemma sends_Open: "sends bounded_send (Open p np order c opts)"
  unfolding Open_def
  by (intro sends_intros sends_operation sends_migrate; assumption)


end
