(* ===== verification/System.thy ===== *)
theory System
  imports Store OrderedExamples OrderedListing
begin

text \<open>
  The four stores of one \<open>Store\<close> together: any sequence of their operations and of the steps of the
  renewal goroutines, on one database, with other sessions in between.  No store touches the
  tables of another or the schema, and all constraints and invariants of the database hold in every
  committed state.
\<close>

section \<open>Calls\<close>

datatype call =
    KvGet "go_context option" string
  | KvPut "go_context option" string u64 "bytes option"
  | KvKeys "go_context option" string
  | KvDelete "go_context option" string
  | LedgerAppend "go_context option" string u64 "bytes option"
  | LedgerRead "go_context option" string u64
  | LedgerTip "go_context option" string
  | LedgerDelete "go_context option" string
  | LeaseAcquire "bytes option" "go_context option" string
  | LeaseRelease "go_context option" nat
  | LeaseLoopCheck nat
  | LeaseLoopSelect nat wake instant
  | LeaseLoopRenew nat instant
  | OrderedGet "go_context option" ordered_id
  | OrderedCreate "go_context option" ordered_id string "bytes option" rank due
  | OrderedUpdate "go_context option" ordered_id u64 "bytes option" rank due
  | OrderedDelete "go_context option" ordered_id u64
  | OrderedListOrdered "go_context option" string string u64 int
  | OrderedListRanked "go_context option" string string string int
  | OrderedListDue "go_context option" string int string int

definition ignore :: "('w, 'a) state \<Rightarrow> ('w, unit) state" where
  "ignore m = do { _ \<leftarrow> m; State_Monad.return () }"

fun run_call :: "storage_api \<Rightarrow> store \<Rightarrow> call \<Rightarrow> ('z lease_world_scheme, unit) state" where
  "run_call api st (KvGet c key) = ignore (kv_Get (ValidateName api) (st_KV st) c key)"
| "run_call api st (KvPut c key expected value) = ignore (kv_Put (ValidateName api) (st_KV st) c key expected value)"
| "run_call api st (KvKeys c start) = ignore (kv_Keys (st_KV st) c start)"
| "run_call api st (KvDelete c key) = ignore (kv_Delete (ValidateName api) (st_KV st) c key)"
| "run_call api st (LedgerAppend c name expected payload) =
     ignore (ledger_Append (ValidateName api) (st_Ledger st) c name expected payload)"
| "run_call api st (LedgerRead c name start) = ignore (ledger_Read (ValidateName api) (st_Ledger st) c name start)"
| "run_call api st (LedgerTip c name) = ignore (ledger_Tip (ValidateName api) (st_Ledger st) c name)"
| "run_call api st (LedgerDelete c name) = ignore (ledger_Delete (ValidateName api) (st_Ledger st) c name)"
| "run_call api st (LeaseAcquire tok c name) = ignore (lease_Acquire (ValidateName api) (st_Leaser st) tok c name)"
| "run_call api st (LeaseRelease c h) = ignore (lease_Release (st_Leaser st) c h)"
| "run_call api st (LeaseLoopCheck h) = renew_check h"
| "run_call api st (LeaseLoopSelect h k t) = renew_select h k t"
| "run_call api st (LeaseLoopRenew h t) = renew_attempt (st_Leaser st) h t"
| "run_call api st (OrderedGet c oid) = ignore (ordered_Get api (st_OrderedIndex st) c oid)"
| "run_call api st (OrderedCreate c oid rs value rank due) =
     ignore (ordered_Create api (st_OrderedIndex st) c oid rs value rank due)"
| "run_call api st (OrderedUpdate c oid revision value rank due) =
     ignore (ordered_Update api (st_OrderedIndex st) c oid revision value rank due)"
| "run_call api st (OrderedDelete c oid revision) = ignore (ordered_Delete api (st_OrderedIndex st) c oid revision)"
| "run_call api st (OrderedListOrdered c ns sc after limit) =
     ignore (ordered_ListOrdered api (st_OrderedIndex st) c ns sc after limit)"
| "run_call api st (OrderedListRanked c ns rs cursor limit) =
     ignore (ordered_ListRanked api (st_OrderedIndex st) c ns rs cursor limit)"
| "run_call api st (OrderedListDue c ns bound cursor limit) =
     ignore (ordered_ListDue api (st_OrderedIndex st) c ns bound cursor limit)"

primrec run_calls :: "storage_api \<Rightarrow> store \<Rightarrow> call list \<Rightarrow> ('z lease_world_scheme, unit) state" where
  "run_calls api st [] = State_Monad.return ()"
| "run_calls api st (x # xs) = do { run_call api st x; run_calls api st xs }"

section \<open>What each call may change\<close>

text \<open>The reads and the goroutine's bookkeeping commit nothing at all.\<close>

fun call_step :: "call \<Rightarrow> database \<Rightarrow> database \<Rightarrow> bool" where
  "call_step (KvPut c key expected value) = kv_cas key expected value"
| "call_step (KvDelete c key) = kv_removal key"
| "call_step (LedgerAppend c name expected payload) = append_step name expected payload"
| "call_step (LedgerDelete c name) = ledger_removal name"
| "call_step (LeaseAcquire tok c name) = (\<lambda>d d'. \<exists>s holder. acquire_step s name holder d d')"
| "call_step (LeaseRelease c h) = lease_step"
| "call_step (LeaseLoopRenew h t) = lease_step"
| "call_step (OrderedCreate c oid rs value rank due) = create_step oid rs value rank due"
| "call_step (OrderedUpdate c oid revision value rank due) = update_step oid revision value rank due"
| "call_step (OrderedDelete c oid revision) = delete_step oid revision"
| "call_step _ = (\<lambda>_ _. False)"

lemma guarantees_ignore: "guarantees R m \<Longrightarrow> guarantees R (ignore m)"
  unfolding ignore_def by (intro guarantee_intros)

lemma guarantees_ordered_failure [guarantee_intros]: "guarantees R (ordered_failure ctx operation)"
  unfolding ordered_failure_def by (intro guarantee_intros)

lemma guarantees_reads [guarantee_intros]:
  assumes "\<And>now d. snd (sql_sem s now d) = []"
  shows "guarantees R (pool_QueryRow ctx s)" "guarantees R (pool_Query ctx s)"
  by (rule guarantees_pool_calls; metis assms snd_conv)+

lemma page_statements_read [simp]:
  "snd (sql_sem (Ordered table ns sc after limit) now d) = []"
  "snd (sql_sem (Ranked_query table ns sc p limit) now d) = []"
  "snd (sql_sem (Due_query table ns bound p limit) now d) = []"
  by (simp_all add: Ordered_def Ranked_query_def Due_query_def read_statement_def Let_def)

lemma select_record_reads [simp]: "snd (sql_sem (select_record_stmt s oid q) now d) = []"
  by (simp add: select_record_stmt_def read_statement_def locking_statement_def Let_def)

lemma kv_reads_change_nothing:
  "guarantees R (kv_Get vn k c key)" "guarantees R (kv_Keys k c p)"
  unfolding kv_Get_def kv_Keys_def by (intro guarantee_intros)+

lemma ledger_reads_change_nothing:
  "guarantees R (ledger_Read vn g c name start)" "guarantees R (ledger_Tip vn g c name)"
  unfolding ledger_Read_def ledger_Tip_def Let_def by (intro guarantee_intros)+

lemma ordered_reads_change_nothing:
  "guarantees R (ordered_Get api s c oid)" "guarantees R (ordered_ListOrdered api s c ns sc after limit)"
  "guarantees R (ordered_ListRanked api s c ns rs cursor limit)" "guarantees R (ordered_ListDue api s c ns bound cursor limit)"
  unfolding ordered_Get_def ordered_get_def ordered_getFrom_def ordered_ListOrdered_def ordered_ListRanked_def ordered_ListDue_def
    ordered_listPage_def
  by (intro guarantee_intros; simp)+

lemma lease_calls_step:
  "guarantees lease_step (lease_Release l c h)" "guarantees lease_step (renew_attempt l h t)"
  unfolding lease_Release_def renew_attempt_def by (intro guarantee_intros)+

lemma acquire_calls_step: "guarantees (\<lambda>d d'. \<exists>s holder. acquire_step s name holder d d') (lease_Acquire vn l tok c name)"
  by (rule guarantees_mono [OF lease_Acquire_step]) auto

lemma kv_calls_step:
  "guarantees (kv_cas key expected v) (kv_Put vn k c key expected v)"
  unfolding kv_Put_def kv_resolvePut_def by (intro guarantee_intros)

lemma run_call_step: "guarantees (call_step x) (run_call api st x)"
  by (cases x)
    (auto intro!: guarantees_ignore kv_reads_change_nothing ledger_reads_change_nothing ordered_reads_change_nothing
      lease_calls_step kv_calls_step kv_Delete_commits append_guarantee ledger_Delete_commits acquire_calls_step
      create_guarantee update_guarantee delete_guarantee guarantee_intros)

section \<open>Isolation\<close>

text \<open>The rows a call is about; a release and a renewal are about the row of their lease.\<close>

fun own_row :: "call \<Rightarrow> row_key \<Rightarrow> bool" where
  "own_row (KvPut c key expected value) k = (k = KvRow key)"
| "own_row (KvDelete c key) k = (k = KvRow key)"
| "own_row (LedgerAppend c name expected payload) k = (k = ScopeRow name \<or> k = RecordRow name (uint expected + 1))"
| "own_row (LedgerDelete c name) k = (k = ScopeRow name \<or> (\<exists>n. k = RecordRow name n))"
| "own_row (LeaseAcquire tok c name) k = (k = LeaseRow name)"
| "own_row (LeaseRelease c h) k = (\<exists>n. k = LeaseRow n)"
| "own_row (LeaseLoopRenew h t) k = (\<exists>n. k = LeaseRow n)"
| "own_row (OrderedCreate c oid rs value rank due) k =
     (k = OrderScopeRow (Namespace oid) (OrderingScope oid) \<or> k = OrderRecordRow (Namespace oid) (OrderingScope oid) (StableKey oid))"
| "own_row (OrderedUpdate c oid revision value rank due) k =
     (k = OrderRecordRow (Namespace oid) (OrderingScope oid) (StableKey oid))"
| "own_row (OrderedDelete c oid revision) k = (k = OrderRecordRow (Namespace oid) (OrderingScope oid) (StableKey oid))"
| "own_row _ k = False"

definition confined :: "call \<Rightarrow> database \<Rightarrow> database \<Rightarrow> bool" where
  "confined x d d' \<longleftrightarrow> (\<forall>k. own_row x k \<or> same_row k d d')"

lemma lease_step_frame: "lease_step d d' \<Longrightarrow> \<exists>t. d' = d\<lparr>t_leases := t\<rparr>"
  by (auto simp: lease_step_def acquire_step_def renew_step_def release_step_def Let_def)

lemma step_confined:
  assumes "call_step x d d'"
  shows "confined x d d'"
  unfolding confined_def
proof
  fix k
  show "own_row x k \<or> same_row k d d'"
    using assms
    by (cases x; cases k)
      (auto simp: kv_cas_def kv_removal_def append_step_def ledger_removal_def acquire_step_def Let_def create_step_def
        update_step_def delete_step_def mutation_step_def id_key_parts
        dest!: lease_step_frame split: if_splits)
qed


section \<open>The invariant of the whole database\<close>

text \<open>
  The constraints of all tables (ranges, foreign keys, the CHECK clauses), gap-free logs and gap-free,
  unique acceptance orders.
\<close>

definition system_inv :: "database \<Rightarrow> bool" where
  "system_inv d \<longleftrightarrow> constraints d \<and> ledger_inv d \<and> ordered_inv d"

definition system_step :: "database \<Rightarrow> database \<Rightarrow> bool" where
  "system_step d d' \<longleftrightarrow> (\<exists>x. call_step x d d')"

text \<open>The constraints, table by table, and how the writes of the stores keep them.\<close>

definition all_rows :: "('v \<Rightarrow> bool) \<Rightarrow> ('k, 'v) fmap \<Rightarrow> bool" where
  "all_rows P t \<longleftrightarrow> (\<forall>k v. fmlookup t k = Some v \<longrightarrow> P v)"

definition records_ok :: "(string, int) fmap \<Rightarrow> (string \<times> int, bytes) fmap \<Rightarrow> bool" where
  "records_ok scopes records \<longleftrightarrow>
     (\<forall>n i. (n, i) |\<in>| fmdom records \<longrightarrow> seq_ok i \<and> n |\<in>| fmdom scopes)"

lemma constraints_tables:
  "constraints d \<longleftrightarrow> all_rows kv_row_ok (t_kv d) \<and> all_rows tip_ok (t_ledger_scopes d) \<and>
     records_ok (t_ledger_scopes d) (t_ledger_records d) \<and> all_rows lease_row_ok (t_leases d) \<and>
     all_rows next_order_ok (t_ordered_scopes d) \<and> all_rows ordered_row_ok (t_ordered_records d)"
  unfolding constraints_def all_rows_def records_ok_def fmlookup_dom_iff by blast

lemma all_rows_simps [intro]:
  "P v \<Longrightarrow> all_rows P t \<Longrightarrow> all_rows P (fmupd k v t)" "all_rows P t \<Longrightarrow> all_rows P (fmdrop k t)"
  by (auto simp: all_rows_def split: if_splits)

lemma all_rowsD: "all_rows P t \<Longrightarrow> fmlookup t k = Some v \<Longrightarrow> P v"
  by (simp add: all_rows_def)

lemma lease_step_row:
  assumes "lease_step d d'" and "all_rows lease_row_ok (t_leases d)"
  shows "\<exists>n r. d' = d\<lparr>t_leases := fmupd n r (t_leases d)\<rparr> \<and> lease_row_ok r"
proof -
  have row: "lease_row_ok (lease_row_of d n)" for n
    using assms(2) by (auto simp: all_rows_def lease_row_of_def lease_row_ok_def fresh_lease_row_def max_int64_def
        split: option.splits)
  from assms(1) show ?thesis
    unfolding lease_step_def
  proof (elim disjE exE)
    fix s n holder assume "acquire_step s n holder d d'"
    with row [of n] show ?thesis by (fastforce simp: acquire_step_def Let_def lease_row_ok_def)
  next
    fix s n e h assume "renew_step s n e h d d'"
    with row [of n] show ?thesis by (fastforce simp: renew_step_def lease_row_of_Some lease_row_ok_def)
  next
    fix n e h assume "release_step n e h d d'"
    with row [of n] show ?thesis by (fastforce simp: release_step_def lease_row_of_Some lease_row_ok_def)
  qed
qed

lemma lease_step_constraints: "lease_step d d' \<Longrightarrow> constraints d \<Longrightarrow> constraints d'"
  using lease_step_row [of d d'] by (auto simp: constraints_tables)

lemma kv_step_constraints:
  "kv_cas key expected value d d' \<Longrightarrow> constraints d \<Longrightarrow> constraints d'"
  "kv_removal key d d' \<Longrightarrow> constraints d \<Longrightarrow> constraints d'"
  by (auto simp: constraints_tables kv_cas_def kv_removal_def kv_row_ok_def add_nonneg_pos)

lemma records_ok_writes:
  "records_ok scopes records \<Longrightarrow> seq_ok i \<Longrightarrow> records_ok (fmupd n t scopes) (fmupd (n, i) p records)"
  "records_ok scopes records \<Longrightarrow> records_ok (fmdrop n scopes) (fmfilter (\<lambda>k. fst k \<noteq> n) records)"
  unfolding records_ok_def by auto

lemma ledger_step_constraints:
  assumes "constraints d"
  shows "append_step name expected payload d d' \<Longrightarrow> constraints d'" "ledger_removal name d d' \<Longrightarrow> constraints d'"
proof -
  have "tip_ok (uint expected + 1)" "seq_ok (uint expected + 1)" if "uint expected < max_int64"
    using that by (simp_all add: tip_ok_def seq_ok_def add_nonneg_pos)
  with assms show "append_step name expected payload d d' \<Longrightarrow> constraints d'" "ledger_removal name d d' \<Longrightarrow> constraints d'"
    by (auto simp: constraints_tables append_step_def ledger_removal_def records_ok_writes)
qed

lemma created_order_ok: "ordered_row_ok (created_row rs v rank due n) \<Longrightarrow> next_order_ok n"
  by (simp add: ordered_row_ok_def created_row_def next_order_ok_def)

lemma ordered_step_constraints: "ordered_step d d' \<Longrightarrow> constraints d \<Longrightarrow> constraints d'"
  by (auto simp: constraints_tables ordered_step_def create_step_def update_step_def delete_step_def mutation_step_def Let_def
      intro!: all_rows_simps dest: created_order_ok)

text \<open>A step of one store keeps the invariants of the others: it leaves their tables alone.\<close>

definition kv_step :: "database \<Rightarrow> database \<Rightarrow> bool" where
  "kv_step d d' \<longleftrightarrow> (\<exists>key expected v. kv_cas key expected v d d') \<or> (\<exists>key. kv_removal key d d')"

lemma step_kinds:
  "kv_cas key expected v d d' \<Longrightarrow> kv_step d d'" "kv_removal key d d' \<Longrightarrow> kv_step d d'"
  "append_step name expected payload d d' \<Longrightarrow> ledger_step d d'" "ledger_removal name d d' \<Longrightarrow> ledger_step d d'"
  "acquire_step s name holder d d' \<Longrightarrow> lease_step d d'"
  "create_step oid rs value rank due d d' \<Longrightarrow> ordered_step d d'"
  "update_step oid revision value rank due d d' \<Longrightarrow> ordered_step d d'" "delete_step oid revision d d' \<Longrightarrow> ordered_step d d'"
  unfolding kv_step_def ledger_step_def lease_step_def ordered_step_def by blast+

lemma system_step_cases:
  assumes "system_step d d'"
  obtains "kv_step d d'" | "ledger_step d d'" | "lease_step d d'" | "ordered_step d d'"
proof -
  from assms obtain x where "call_step x d d'" by (auto simp: system_step_def)
  then have "kv_step d d' \<or> ledger_step d d' \<or> lease_step d d' \<or> ordered_step d d'"
    by (cases x) (auto intro: step_kinds)
  with that show thesis by blast
qed

lemma step_frames:
  "kv_step d d' \<Longrightarrow> \<exists>t. d' = d\<lparr>t_kv := t\<rparr>"
  "ledger_step d d' \<Longrightarrow> \<exists>t u. d' = d\<lparr>t_ledger_scopes := t, t_ledger_records := u\<rparr>"
  "ordered_step d d' \<Longrightarrow> \<exists>t u. d' = d\<lparr>t_ordered_scopes := t, t_ordered_records := u\<rparr>"
proof -
  show "kv_step d d' \<Longrightarrow> \<exists>t. d' = d\<lparr>t_kv := t\<rparr>"
    by (auto simp: kv_step_def kv_cas_def kv_removal_def)
  show "ledger_step d d' \<Longrightarrow> \<exists>t u. d' = d\<lparr>t_ledger_scopes := t, t_ledger_records := u\<rparr>"
    by (auto simp: ledger_step_def append_step_def ledger_removal_def)
  assume "ordered_step d d'"
  then have "d' = d\<lparr>t_ordered_scopes := t_ordered_scopes d', t_ordered_records := t_ordered_records d'\<rparr>"
    by (auto simp: ordered_step_def create_step_def update_step_def delete_step_def mutation_step_def Let_def)
  then show "\<exists>t u. d' = d\<lparr>t_ordered_scopes := t, t_ordered_records := u\<rparr>" by blast
qed

lemma inv_frames [simp]:
  "ledger_inv (d\<lparr>t_kv := k\<rparr>) = ledger_inv d" "ledger_inv (d\<lparr>t_leases := l\<rparr>) = ledger_inv d"
  "ledger_inv (d\<lparr>t_ordered_scopes := t, t_ordered_records := u\<rparr>) = ledger_inv d"
  "ordered_inv (d\<lparr>t_kv := k\<rparr>) = ordered_inv d" "ordered_inv (d\<lparr>t_leases := l\<rparr>) = ordered_inv d"
  "ordered_inv (d\<lparr>t_ledger_scopes := i, t_ledger_records := j\<rparr>) = ordered_inv d"
  by (simp_all add: ledger_inv_def ledger_tip_def ordered_inv_def scope_counter_def)

interpretation system: protocol system_step system_inv
proof
  fix d d'
  assume "system_step d d'" and inv: "system_inv d"
  from this(1) have "constraints d' \<and> ledger_inv d' \<and> ordered_inv d'"
  proof (cases rule: system_step_cases)
    case 1
    then have "constraints d'" using inv by (auto simp: kv_step_def system_inv_def intro: kv_step_constraints)
    with step_frames(1) [OF 1] inv show ?thesis by (auto simp: system_inv_def)
  next
    case 2
    then have "constraints d'" using inv by (auto simp: ledger_step_def system_inv_def intro: ledger_step_constraints)
    moreover have "ledger_inv d'" using ledger.step_keeps [OF 2] inv by (simp add: system_inv_def)
    ultimately show ?thesis using step_frames(2) [OF 2] inv by (auto simp: system_inv_def)
  next
    case 3
    then have "constraints d'" using inv lease_step_constraints by (auto simp: system_inv_def)
    with lease_step_frame [OF 3] inv show ?thesis by (auto simp: system_inv_def)
  next
    case 4
    then have "constraints d'" using inv ordered_step_constraints by (auto simp: system_inv_def)
    moreover have "ordered_inv d'" using orders.step_keeps [OF 4] inv by (simp add: system_inv_def)
    ultimately show ?thesis using step_frames(3) [OF 4] inv by (auto simp: system_inv_def)
  qed
  then show "system_inv d'" by (simp add: system_inv_def)
qed

lemma run_calls_step: "guarantees system_step (run_calls api st xs)"
proof (induction xs)
  case (Cons x xs)
  have "guarantees system_step (run_call api st x)"
    by (rule guarantees_mono [OF run_call_step]) (auto simp: system_step_def)
  with Cons show ?case by (auto intro!: guarantee_intros)
qed (auto intro!: guarantee_intros)

text \<open>
  C9. The database stays well-formed: run any sequence of calls and goroutine steps on the four
  stores, with any faults, lost acknowledgements and other sessions in between that keep the
  invariant.  Then in every committed state all rows satisfy the constraints of their tables, the
  records of each log are exactly 1 to its tip, and the acceptance orders of each scope are exactly 1
  to its counter, each used once.
\<close>

theorem system_invariant:
  assumes "system_inv (db w)" and "keeps system_inv (script w)" and "txn w = None"
  shows "\<forall>d \<in> set (states w (snd (run_state (run_calls api st xs) w))). system_inv d"
  by (rule system.invariant_everywhere [OF run_calls_step prod.collapse [symmetric] assms(3,1,2)])

lemma empty_system_inv: "system_inv empty_database"
  by (simp add: system_inv_def constraints_def ledger_inv_def ledger_tip_def empty_database_def ordered_inv_def scope_counter_def
      max_uint64_def)

theorem system_invariant_witness:
  "list_all system_inv (states (demo_app\<lparr>script := [ack_lost]\<rparr>) (snd (run_state
     (run_calls demo_api (build_store demo_resolved)
       [KvPut (Some Background) ''k'' 0 (Some ''v''), LedgerAppend (Some Background) ''l'' 0 (Some ''p''),
        OrderedCreate (Some Background) demo_id ''r'' None demo_rank demo_due])
     (demo_app\<lparr>script := [ack_lost]\<rparr>))))"
proof -
  have "system_inv (db (demo_app\<lparr>script := [ack_lost]\<rparr>))" "keeps system_inv (script (demo_app\<lparr>script := [ack_lost]\<rparr>))"
    "txn (demo_app\<lparr>script := [ack_lost]\<rparr>) = None"
    using empty_system_inv by (simp_all add: demo_app_def keeps_def ack_lost_def)
  from system_invariant [OF this] show ?thesis by (simp only: list_all_iff)
qed

end
