(* ===== verification/Effort.thy ===== *)
theory Effort
  imports System
begin

text \<open>
  Every operation ends after a fixed number of statements, however the database refuses, conflicts
  and loses acknowledgements: the retry loops make at most \<open>Attempts\<close> attempts, each of a fixed
  length, and an unknown outcome is reread once.
\<close>

section \<open>Counting statements\<close>

definition costs :: "nat \<Rightarrow> ('z world_scheme, 'a) state \<Rightarrow> bool" where
  "costs n m \<longleftrightarrow> (\<forall>w. length (sent (snd (run_state m w))) \<le> length (sent w) + n)"

named_theorems cost_intros

lemma costs_return [cost_intros]: "costs n (State_Monad.return x)"
  by (simp add: costs_def)

lemma costs_mono: "costs k m \<Longrightarrow> k \<le> n \<Longrightarrow> costs n m"
  unfolding costs_def by (meson add_left_mono le_trans)

lemma costs_bind:
  assumes "costs a m" and "\<And>x. costs b (f x)"
  shows "costs (a + b) (State_Monad.bind m f)"
  unfolding costs_def
proof
  fix w :: "'a world_scheme"
  obtain x w1 where 1: "run_state m w = (x, w1)" by (meson surj_pair)
  have "length (sent w1) \<le> length (sent w) + a" using assms(1) 1 unfolding costs_def by (metis snd_conv)
  moreover have "length (sent (snd (run_state (f x) w1))) \<le> length (sent w1) + b" using assms(2) by (simp add: costs_def)
  ultimately show "length (sent (snd (run_state (State_Monad.bind m f) w))) \<le> length (sent w) + (a + b)" using 1 by simp
qed

lemma costs_free: "costs 0 m \<Longrightarrow> (\<And>x. costs n (f x)) \<Longrightarrow> costs n (State_Monad.bind m f)"
  using costs_bind [of 0 m n f] by simp

lemma costs_one: "costs 1 m \<Longrightarrow> (\<And>x. costs n (f x)) \<Longrightarrow> costs (Suc n) (State_Monad.bind m f)"
  using costs_bind [of 1 m n f] by simp

lemma costs_last: "costs n m \<Longrightarrow> (\<And>x. costs 0 (f x)) \<Longrightarrow> costs n (State_Monad.bind m f)"
  using costs_bind [of n m 0 f] by simp

lemma costs_case [cost_intros]:
  "(b \<Longrightarrow> costs n m) \<Longrightarrow> (\<not> b \<Longrightarrow> costs n m') \<Longrightarrow> costs n (if b then m else m')"
  "(\<And>e. costs n (f e)) \<Longrightarrow> (\<And>v. costs n (g v)) \<Longrightarrow> costs n (case x of Inl e \<Rightarrow> f e | Inr v \<Rightarrow> g v)"
  "costs n m \<Longrightarrow> (\<And>v. costs n (h v)) \<Longrightarrow> costs n (case y of None \<Rightarrow> m | Some v \<Rightarrow> h v)"
  "(\<And>a b. costs n (k a b)) \<Longrightarrow> costs n (case p of (a, b) \<Rightarrow> k a b)"
  "(\<And>x. costs n (fin x)) \<Longrightarrow> (\<And>e. costs n (bad e)) \<Longrightarrow> (\<And>r e. costs n (lost r e)) \<Longrightarrow>
     costs n (case a of Finished x \<Rightarrow> fin x | Failed e \<Rightarrow> bad e | Unknown r e \<Rightarrow> lost r e)"
  by (auto split: sum.split option.split prod.split attempt.split)

section \<open>The cost of the parts\<close>

lemma free_calls:
  "costs 0 time_Now" "costs 0 (ctx_Err ctx)" "costs 0 (BeginTx ctx lvl)" "costs 0 (tx_Commit ctx)" "costs 0 Rollback"
  "costs 0 (WithTimeout ctx d)" "costs 0 (Bound c operation d)"
  by (auto simp: costs_def BeginTx_def tx_Commit_def Bound_def Let_def split: fault.splits option.splits)

lemma free_memory:
  "costs 0 (get_lease h)" "costs 0 (update_lease h f)" "costs 0 (lease_register h)" "costs 0 (lease_unregister h)"
  "costs 0 (alloc_lease l)"
  by (auto simp: costs_def get_lease_def update_lease_def lease_register_def lease_unregister_def alloc_lease_def
      split: option.splits)

lemma one_run: "costs 1 (pool_run ctx s)" "costs 1 (tx_run ctx s)"
  by (auto simp: costs_def pool_run_def tx_run_def Let_def split: fault.splits option.splits prod.splits sum.splits if_splits)

lemma one_calls:
  "costs 1 (pool_QueryRow ctx s)" "costs 1 (pool_Query ctx s)" "costs 1 (pool_Exec ctx s)"
  "costs 1 (tx_QueryRow ctx s)" "costs 1 (tx_Exec ctx s)" "costs 1 (SetLocalTimeouts ctx st lt)"
  unfolding pool_QueryRow_def pool_Query_def pool_Exec_def tx_QueryRow_def tx_Exec_def SetLocalTimeouts_def
  using costs_bind [OF one_run(1) costs_return [of 0]] costs_bind [OF one_run(2) costs_return [of 0]] one_run by simp_all

lemmas cost_calls [cost_intros] = costs_free [OF free_calls(1)] costs_free [OF free_calls(2)] costs_free [OF free_calls(3)]
  costs_free [OF free_calls(4)] costs_free [OF free_calls(5)] costs_free [OF free_calls(6)] costs_free [OF free_calls(7)]
  costs_free [OF free_memory(1)] costs_free [OF free_memory(2)] costs_free [OF free_memory(3)] costs_free [OF free_memory(4)]
  costs_free [OF free_memory(5)] costs_one [OF one_calls(1)] costs_one [OF one_calls(2)] costs_one [OF one_calls(3)]
  costs_one [OF one_calls(4)] costs_one [OF one_calls(5)] costs_one [OF one_calls(6)]

lemmas cost_tails [cost_intros] = costs_mono [OF free_calls(1) le0] costs_mono [OF free_calls(4) le0]
  costs_mono [OF free_memory(2) le0] costs_mono [OF free_memory(4) le0] costs_mono [OF one_calls(3)]

lemma free_failures:
  "costs 0 (kv_failure ctx operation)" "costs 0 (kv_safeCause ctx operation)"
  "costs 0 (ledger_operationFailure ctx operation)" "costs 0 (ledger_safeCause ctx operation)"
  "costs 0 (leaseFailure ctx operation)" "costs 0 (ordered_failure ctx operation)" "costs 0 (ordered_safeCause ctx operation)"
  "costs 0 (conservativeRemaining a b c)"
  unfolding kv_failure_def kv_safeCause_def ledger_operationFailure_def ledger_safeCause_def leaseFailure_def ordered_failure_def
    ordered_safeCause_def conservativeRemaining_def
  by (intro cost_intros)+

lemmas cost_failures [cost_intros] = costs_free [OF free_failures(1)] costs_free [OF free_failures(2)] costs_free [OF free_failures(3)]
  costs_free [OF free_failures(4)] costs_free [OF free_failures(5)] costs_free [OF free_failures(6)] costs_free [OF free_failures(7)]
  costs_free [OF free_failures(8)]

lemma free_lease_parts:
  "costs 0 (newLease name epoch holder remaining)" "costs 0 (fail_acquire ctx)" "costs 0 (loop_exit h)" "costs 0 (lose_and_exit h)"
  "costs 0 (renew_check h)" "costs 0 (renew_select h k t)" "costs 0 (renew_apply h r)"
  unfolding newLease_def fail_acquire_def loop_exit_def lose_and_exit_def renew_check_def renew_select_def renew_apply_def
  by ((cases k)?, simp_all?, (intro cost_intros)+)+

lemmas cost_lease_parts [cost_intros] = costs_free [OF free_lease_parts(1)] costs_mono [OF free_lease_parts(2) le0]
  costs_mono [OF free_lease_parts(7) le0]

section \<open>The key-value store and the log\<close>

lemma to_Suc:
  "(1 :: nat) = Suc 0" "(2 :: nat) = Suc (Suc 0)" "(3 :: nat) = Suc (Suc (Suc 0))" "(4 :: nat) = Suc (Suc (Suc (Suc 0)))"
  "(5 :: nat) = Suc (Suc (Suc (Suc (Suc 0))))" "(7 :: nat) = Suc (Suc (Suc (Suc (Suc (Suc (Suc 0))))))"
  by simp_all

lemma kv_put_cost: "costs 1 (kv_putOnce s ctx key expected v)"
  unfolding kv_putOnce_def Let_def to_Suc by (intro cost_intros)

lemma kv_cost:
  "costs 1 (kv_Get vn k c key)" "costs 2 (kv_Put vn k c key expected v)" "costs 1 (kv_Keys k c p)" "costs 2 (kv_Delete vn k c key)"
  unfolding kv_Get_def kv_Put_def kv_Keys_def kv_Delete_def kv_resolvePut_def kv_deleteOnce_def kv_resolveDelete_def to_Suc
  by (intro cost_intros costs_one [OF kv_put_cost])+

lemma probe: "costs 0 (if b then ctx_Err ctx else State_Monad.return None)"
  using free_calls(2) by (intro cost_intros)

lemma append_cost: "costs 5 (ledger_appendOnce s ctx name expected payload)"
proof -
  have "costs 5 (ledger_appendTx s ctx name expected payload)"
    unfolding ledger_appendTx_def ledger_appendWrites_def to_Suc by (intro cost_intros)
  then show ?thesis
    unfolding ledger_appendOnce_def by (intro cost_intros costs_last; assumption?)
qed

lemma append_loop_cost: "costs ((Attempts - attempt) * 5 + 1) (ledger_append_from s ctx name expected payload attempt)"
proof (induction "Attempts - attempt" arbitrary: attempt rule: less_induct)
  case less
  show ?case
  proof (cases "attempt < Attempts")
    case True
    then have eq: "(Attempts - attempt) * 5 + 1 = 5 + ((Attempts - (attempt + 1)) * 5 + 1)" by simp
    have "costs ((Attempts - (attempt + 1)) * 5 + 1) (ledger_resolveAppend s ctx name expected payload cause)" for cause
      unfolding ledger_resolveAppend_def Suc_eq_plus1 [symmetric] by (intro cost_intros)
    note parts = costs_bind [OF append_cost] this less [of "attempt + 1"]
    show ?thesis
      unfolding eq by (subst ledger_append_from.simps, simp only: True if_True)
        (rule parts(1), intro cost_intros costs_free [OF probe] parts(2-); (use True in auto)?)
  qed (subst ledger_append_from.simps, simp add: cost_intros)
qed

lemma ledger_cost:
  "costs 21 (ledger_Append vn g c name expected payload)" "costs 1 (ledger_Read vn g c name start)"
  "costs 1 (ledger_Tip vn g c name)" "costs 2 (ledger_Delete vn g c name)"
proof -
  show "costs 21 (ledger_Append vn g c name expected payload)"
    using append_loop_cost [of 0] unfolding ledger_Append_def by (intro cost_intros) simp
  show "costs 1 (ledger_Read vn g c name start)" "costs 1 (ledger_Tip vn g c name)" "costs 2 (ledger_Delete vn g c name)"
    unfolding ledger_Read_def ledger_Tip_def ledger_Delete_def ledger_deleteOnce_def ledger_resolveDelete_def Let_def to_Suc
    by (intro cost_intros)+
qed

section \<open>The leases\<close>

lemma lease_row_cost:
  "costs 2 (renewRow s ctx l)" "costs 2 (releaseRow s ctx l)" "costs 1 (observe s ctx l)" "costs 1 (resolveRelease s l)"
  "costs 1 (resolveAcquire s name epoch holder)"
proof -
  have tx: "costs 2 (renewTx s ctx l)" "costs 2 (releaseTx s ctx l)"
    unfolding renewTx_def releaseTx_def to_Suc by (intro cost_intros)+
  show "costs 2 (renewRow s ctx l)" "costs 2 (releaseRow s ctx l)"
    unfolding renewRow_def releaseRow_def by (intro cost_intros costs_last [OF tx(1)] costs_last [OF tx(2)])+
  show "costs 1 (observe s ctx l)" "costs 1 (resolveRelease s l)" "costs 1 (resolveAcquire s name epoch holder)"
    unfolding observe_def resolveRelease_def resolveAcquire_def acquireVerdict_def to_Suc by (intro cost_intros)+
qed

lemma acquire_cost: "costs 5 (acquireTx s ctx name holder)"
  unfolding acquireTx_def takeLease_def to_Suc
  by (intro cost_intros lease_row_cost(5) [unfolded to_Suc])

lemma lease_cost:
  "costs 5 (lease_Acquire vn l tok c name)" "costs 3 (lease_Release l c h)" "costs 3 (renew_attempt l h t)"
proof -
  show "costs 5 (lease_Acquire vn l tok c name)"
    unfolding lease_Acquire_def by (intro cost_intros costs_last acquire_cost)
  have three: "(3 :: nat) = 2 + 1" by simp
  show "costs 3 (lease_Release l c h)"
    unfolding lease_Release_def three
    by (intro cost_intros costs_free costs_bind [OF lease_row_cost(2)] costs_last [OF lease_row_cost(4)])
  show "costs 3 (renew_attempt l h t)"
    unfolding renew_attempt_def three
    by (intro cost_intros costs_bind [OF lease_row_cost(1)] costs_last [OF lease_row_cost(3)])
qed

section \<open>The ordered index\<close>

lemma ordered_get_cost:
  "costs 1 (ordered_get api s ctx oid)" "costs 1 (ordered_getForUpdate api s ctx oid)"
  "costs 1 (ordered_getFrom api s (tx_QueryRow ctx) oid q)"
  unfolding ordered_get_def ordered_getForUpdate_def ordered_getFrom_def to_Suc by (intro cost_intros)+

lemmas ordered_get_costs = costs_one [OF ordered_get_cost(1)] costs_one [OF ordered_get_cost(2)] costs_one [OF ordered_get_cost(3)]

lemma ordered_commit_cost: "costs n (ordered_commit ctx operation want x)"
  unfolding ordered_commit_def by (intro cost_intros)

lemma ordered_transaction_cost: "costs n body \<Longrightarrow> costs (Suc n) (ordered_transaction s ctx body)"
  unfolding ordered_transaction_def by (intro cost_intros costs_last; assumption?)

lemma ordered_attempt_cost:
  "costs 7 (ordered_createOnce api s ctx oid rankingScope value rank due)"
  "costs 3 (ordered_updateOnce api s ctx oid revision value rank due)"
  "costs 3 (ordered_deleteOnce api s ctx oid revision)"
  unfolding ordered_createOnce_def ordered_updateOnce_def ordered_deleteOnce_def ordered_createBody_def ordered_createLocked_def
    ordered_createInsert_def ordered_lockedBody_def ordered_updateLocked_def ordered_deleteLocked_def Let_def to_Suc
  by (intro ordered_transaction_cost cost_intros ordered_get_costs ordered_commit_cost)+

lemma ordered_resolve_cost:
  "costs (Suc n) (resolveCreate api s oid want cause)" "costs (Suc n) (resolveMutation api s operation oid want cause)"
  unfolding resolveCreate_def resolveMutation_def by (intro cost_intros ordered_get_costs)+

lemma ordered_retry_cost:
  assumes "costs k once" and "\<And>n want cause. costs (Suc n) (settle want cause)"
  shows "costs ((Attempts - attempt) * k + 1) (ordered_retry ctx operation once settle attempt)"
proof (induction "Attempts - attempt" arbitrary: attempt rule: less_induct)
  case less
  show ?case
  proof (cases "attempt < Attempts")
    case True
    then have eq: "(Attempts - attempt) * k + 1 = k + Suc ((Attempts - (attempt + 1)) * k)"
      by (metis Suc_diff_Suc Suc_eq_plus1 add_Suc_right mult_Suc)
    note parts = costs_bind [OF assms(1)] assms(2) less [of "attempt + 1", unfolded Suc_eq_plus1 [symmetric]]
    show ?thesis
      unfolding eq by (subst ordered_retry.simps, simp only: True if_True Suc_eq_plus1 [symmetric])
        (rule parts(1), intro cost_intros costs_free [OF probe] parts(2-); (use True in auto)?)
  qed (subst ordered_retry.simps, simp add: cost_intros)
qed

lemma ordered_cost:
  "costs 1 (ordered_Get api s c oid)" "costs 30 (ordered_Create api s c oid rankingScope value rank due)"
  "costs 13 (ordered_Update api s c oid revision value rank due)" "costs 13 (ordered_Delete api s c oid revision)"
  "costs 1 (ordered_ListOrdered api s c ns sc after limit)" "costs 1 (ordered_ListRanked api s c ns rs cursor limit)"
  "costs 1 (ordered_ListDue api s c ns bound cursor limit)"
proof -
  have loops:
    "costs 29 (ordered_retry ctx operation (ordered_createOnce api s ctx oid rankingScope value rank due) (resolveCreate api s oid) 0)"
    "costs 13 (ordered_retry ctx operation (ordered_updateOnce api s ctx oid revision value rank due) (resolveMutation api s kind oid) 0)"
    "costs 13 (ordered_retry ctx operation (ordered_deleteOnce api s ctx oid revision) (resolveMutation api s kind oid) 0)"
    for ctx operation kind
    by (rule costs_mono [OF ordered_retry_cost [OF ordered_attempt_cost(1) ordered_resolve_cost(1)]]
        costs_mono [OF ordered_retry_cost [OF ordered_attempt_cost(2) ordered_resolve_cost(2)]]
        costs_mono [OF ordered_retry_cost [OF ordered_attempt_cost(3) ordered_resolve_cost(2)]]; simp)+
  have thirty: "(30 :: nat) = Suc 29" by simp
  show "costs 30 (ordered_Create api s c oid rankingScope value rank due)"
    unfolding ordered_Create_def thirty by (intro cost_intros ordered_get_costs loops)
  show "costs 13 (ordered_Update api s c oid revision value rank due)" "costs 13 (ordered_Delete api s c oid revision)"
    unfolding ordered_Update_def ordered_Delete_def by (intro cost_intros loops)+
  show "costs 1 (ordered_Get api s c oid)" "costs 1 (ordered_ListOrdered api s c ns sc after limit)"
    "costs 1 (ordered_ListRanked api s c ns rs cursor limit)" "costs 1 (ordered_ListDue api s c ns bound cursor limit)"
    unfolding ordered_Get_def ordered_ListOrdered_def ordered_ListRanked_def ordered_ListDue_def ordered_listPage_def to_Suc
    by (intro cost_intros ordered_get_costs)+
qed

section \<open>Every call ends\<close>

text \<open>Four attempts of at most five, seven or three statements, the lookup of \<open>Create\<close> and one reread.\<close>

fun call_bound :: "call \<Rightarrow> nat" where
  "call_bound (KvGet c key) = 1"
| "call_bound (KvPut c key expected v) = 1 + 1"
| "call_bound (KvKeys c start) = 1"
| "call_bound (KvDelete c key) = 1 + 1"
| "call_bound (LedgerAppend c name expected payload) = Attempts * 5 + 1"
| "call_bound (LedgerRead c name start) = 1"
| "call_bound (LedgerTip c name) = 1"
| "call_bound (LedgerDelete c name) = 1 + 1"
| "call_bound (LeaseAcquire tok c name) = 4 + 1"
| "call_bound (LeaseRelease c h) = 2 + 1"
| "call_bound (LeaseLoopCheck h) = 0"
| "call_bound (LeaseLoopSelect h k t) = 0"
| "call_bound (LeaseLoopRenew h t) = 2 + 1"
| "call_bound (OrderedGet c oid) = 1"
| "call_bound (OrderedCreate c oid rs v rank due) = 1 + Attempts * 7 + 1"
| "call_bound (OrderedUpdate c oid revision v rank due) = Attempts * 3 + 1"
| "call_bound (OrderedDelete c oid revision) = Attempts * 3 + 1"
| "call_bound (OrderedListOrdered c ns sc after limit) = 1"
| "call_bound (OrderedListRanked c ns rs cursor limit) = 1"
| "call_bound (OrderedListDue c ns bound cursor limit) = 1"

lemma costs_ignore: "costs n m \<Longrightarrow> costs n (ignore m)"
  unfolding ignore_def by (intro costs_last costs_return)

lemma run_call_cost: "costs (call_bound x) (run_call api st x)"
  by (cases x)
    (simp_all add: costs_ignore kv_cost [unfolded to_Suc(1,2)] ledger_cost [unfolded to_Suc(1,2)] lease_cost
      ordered_cost [unfolded to_Suc(1)] free_lease_parts(5,6))

text \<open>
  C11. Every call ends: whatever the script of refusals, serialization failures, lost acknowledgements,
  deadlines and foreign commits, a call of any of the four stores, or a step of a renewal
  goroutine, sends at most a fixed number of statements, and a sequence of calls at most the sum --
  no call loops or retries without bound.
\<close>

theorem calls_end:
  "costs (call_bound x) (run_call api st x) \<and> costs (sum_list (map call_bound xs)) (run_calls api st xs)"
proof
  show "costs (sum_list (map call_bound xs)) (run_calls api st xs)"
    by (induction xs) (simp_all add: cost_intros costs_bind [OF run_call_cost])
qed (rule run_call_cost)

end
