(* ===== verification/Spec2Isabelle.thy ===== *)
theory Spec2Isabelle
  imports ListingExamples Deadlines Effort
begin

text \<open>
  A verification library for pgstore, the PostgreSQL provider of the \<open>storage\<close> primitives: a
  revision-checked key-value store, an append-only ledger, epoch-fenced leases and an ordered index,
  all on one database.

  \<^bold>\<open>The program and the theories.\<close>  \<open>pgstore.go\<close> (\<open>Open\<close>, \<open>Close\<close>) resolves the options
  (\<open>options.go\<close>), migrates the schema (\<open>migrations.go\<close> with the embedded SQL) and hands out the four
  stores of \<open>internal/\<close>, which share \<open>internal/guard\<close> (every context gets a deadline) and
  \<open>internal/postgres\<close> (quoting, retryable errors, timeouts of a transaction).

  \<^item> \<open>Prelude\<close>: Go's scalar types (\<open>uint64\<close> is \<open>64 word\<close>, wrapping; \<open>int64\<close>, durations and
    instants are integers whose bounds are written out), the error values, shared lemmas.
    \<open>Strconv\<close>, \<open>NetIP\<close>, \<open>Templates\<close>, \<open>Base64\<close>, \<open>Json\<close>: the functions of Go's \<open>strconv\<close>, \<open>strings\<close>,
    \<open>net\<close>, \<open>encoding/base64\<close> and \<open>encoding/json\<close> the sources call.
  \<^item> \<open>Database\<close>: the tables of the migrations with their constraints, row writes, and statements: text,
    bound arguments and meaning.  \<open>Driver\<close>: the pgx pool, transactions, clocks and contexts.
    \<open>Transaction\<close>: what an open transaction sees, for serializable and read-committed ones.
  \<^item> \<open>Guard\<close> (\<open>guard.go\<close>: \<open>Bound\<close>) and \<open>Postgres\<close> (\<open>postgres.go\<close>).
  \<^item> \<open>Kv\<close> (\<open>kv.go\<close>), \<open>Ledger\<close> (\<open>ledger.go\<close>), \<open>Lease\<close> (\<open>lease.go\<close>, with the renewal goroutine as a step
    relation \<open>lease_system\<close> over its program points): definitions first, in source order, then the
    properties.
  \<^item> \<open>OrderedQuery\<close> (\<open>orderedquery.go\<close>, with the law of keyset pagination), \<open>OrderedIndex\<close> (the
    definitions of \<open>orderedindex.go\<close> without cursors), \<open>OrderedChanges\<close>, \<open>OrderedProperties\<close>,
    \<open>OrderedReads\<close>, \<open>OrderedSpec\<close> (their properties), \<open>Cursor\<close> and \<open>CursorProperties\<close> (the cursor codec),
    \<open>OrderedListing\<close> (\<open>ListRanked\<close>, \<open>ListDue\<close>), \<open>OrderedExamples\<close> and \<open>ListingExamples\<close> (concrete runs).
  \<^item> \<open>Options\<close> (\<open>options.go\<close>), \<open>Migrations\<close> and \<open>MigrationProperties\<close> (\<open>migrations.go\<close>), \<open>Store\<close>
    (\<open>pgstore.go\<close>).
  \<^item> \<open>System\<close>, \<open>Effort\<close>, \<open>Deadlines\<close>: the properties that span components.

  Definitions have the names of the source, with the store in front where several have the same
  method (\<open>kv_Get\<close>, \<open>ordered_Get\<close>); long functions are cut at their natural seams
  (\<open>ordered_createOnce\<close> into body, locked part and insert).

  \<^bold>\<open>The world.\<close>  An operation is a computation in the state monad over \<open>world\<close>: the committed
  database, the open transaction, and a script of events.  Every interaction with the outside -- a
  statement, a commit, a clock reading, \<open>ctx.Err()\<close> -- consumes one event, which says what other
  sessions commit just before (any change of the database that respects the row locks held), whether
  the call is served, refused with any SQLSTATE, or served with its acknowledgement lost, what both
  clocks show and what the context answers.  Theorems quantify over all scripts, so they hold
  under every interference, fault, clock and cancellation.  \<open>hist\<close> records every commit with its
  author: \<open>guarantees R m\<close> says that each change \<open>m\<close> commits is an \<open>R\<close>-step, \<open>our_commits\<close> lists
  them, \<open>states\<close> all committed states of the call.  Go errors are values of type \<open>err\<close>, results
  \<open>err + 'a\<close>, and a panic is an error value of its own.

  \<^bold>\<open>Interfaces.\<close>  \<open>protocol\<close> (steps keep an invariant, hence it holds in every committed state; for the
  ledger, the orders, lease epochs, schema versions and the whole database), \<open>history\<close> (steps only move
  forward), \<open>versioned_map\<close> (compare-and-set map; provided by the key-value store), \<open>attempts\<close> (the
  contract of one attempt of \<open>Create\<close>, \<open>Update\<close>, \<open>Delete\<close>, from which the retry loop's contract is
  derived once), \<open>keyset\<close> and \<open>cursor_listing\<close> (pages of a sorted listing).  Each is interpreted on
  the definitions of the model.

  \<^bold>\<open>What is shown.\<close>  Exactly which changes each operation commits (one compare-and-set, one append at
  the tip, one acquisition of a free lease under the next epoch, one order drawn with its record),
  at most once over all attempts; what success and each error means about committed states; fencing;
  gap-free logs and orders; that records only move forward; refinement of small abstract
  specifications when nothing interferes; reads return committed data and pages are exact and
  complete; records and cursors round-trip and only genuine cursors are accepted; options are accepted
  exactly within their limits; migrations are atomic and reach the current version; \<open>Open\<close> returns a
  ready store and balances its pools; stores are isolated from each other; every statement has a
  deadline and every call a fixed bound on the statements it sends.

  \<^bold>\<open>Bounds.\<close>  \<open>Attempts\<close> is 4, as in the source; the retry loops are recursive functions with a
  termination proof on the attempts left, so no fuel is involved.  \<open>read_all\<close> and \<open>follow\<close> model a
  reader of pages and take a bound on the number of pages; one more than the number of entries is
  shown to be enough.

  \<^bold>\<open>Parameters.\<close>  The validators and constants of \<open>github.com/looprig/storage\<close> (\<open>storage_api\<close>, \<open>vn\<close>),
  \<open>pgxpool.ParseConfig\<close> and \<open>pgxpool.NewWithConfig\<close>, the random holder token and Go's map iteration order
  are arguments of the definitions; what is assumed of them is a named hypothesis
  (\<open>own_errors\<close>, \<open>schema_limits\<close>, \<open>some_order\<close>, \<open>cursor_ok\<close>) with a concrete instance in the examples.

  \<^bold>\<open>Not modelled.\<close>  The texts of \<open>Error()\<close> methods; \<open>stopTimer\<close> (draining a Go timer); PostgreSQL's
  own checks of text arguments (NUL, encoding), query plans, connection handling; the effect of DDL
  beyond the list of statements run (the tables are there from the start of the model); tests,
  scripts and the empty package \<open>internal/testdb\<close>.
\<close>

end
